(* ===== verification/Prelude.thy ===== *)
theory Prelude
  imports Main "HOL-Library.Word"
begin

text \<open>
  Shared vocabulary of the development: bytes and the fixed-width unsigned integers of Go,
  the sequencing of fallible operations, the parts of Go's standard library that several
  components use (\<open>encoding/binary\<close>, \<open>sort.Search\<close>), and the generic list lemmas the
  component theories rest on.
\<close>

named_theorems codec_simps \<open>length and decode-after-encode equations of byte codecs\<close>

named_theorems io_defs \<open>definitions of file and log operations, unfolded together\<close>

type_synonym byte = "8 word"

type_synonym bytes = "8 word list"

type_synonym u32 = "32 word"

type_synonym u64 = "64 word"

section \<open>Fallible operations on a state\<close>

text \<open>
  A Go function that may return a non-nil error and changes a state \<open>'w\<close>: the error is
  \<open>Inl\<close>, a result is \<open>Inr\<close>, and the state is returned in both cases, because what was
  done before the error stays done. \<open>bindE\<close> is the pattern
  \<^verbatim>\<open>if err := op(); err != nil { return err }\<close>.
\<close>

type_synonym ('w, 'e, 'a) io = "'w \<Rightarrow> ('e + 'a) \<times> 'w"

definition bindE :: "('w, 'e, 'a) io \<Rightarrow> ('a \<Rightarrow> ('w, 'e, 'b) io) \<Rightarrow> ('w, 'e, 'b) io" where
  "bindE m f w = (case m w of (Inl e, w') \<Rightarrow> (Inl e, w') | (Inr x, w') \<Rightarrow> f x w')"

definition returnE :: "'a \<Rightarrow> ('w, 'e, 'a) io" where
  "returnE x w = (Inr x, w)"

definition throwE :: "'e \<Rightarrow> ('w, 'e, 'a) io" where
  "throwE e w = (Inl e, w)"

text \<open>Go's \<^verbatim>\<open>_ = op()\<close>: the error is dropped, the effect stays.\<close>

definition ignoreE :: "('w, 'e, 'a) io \<Rightarrow> ('w, 'f, unit) io" where
  "ignoreE m w = (Inr (), snd (m w))"

text \<open>An error wrapped for the caller.\<close>

definition wrapE :: "('e \<Rightarrow> 'f) \<Rightarrow> ('w, 'e, 'a) io \<Rightarrow> ('w, 'f, 'a) io" where
  "wrapE f m w = (case m w of (Inl e, w') \<Rightarrow> (Inl (f e), w') | (Inr x, w') \<Rightarrow> (Inr x, w'))"

text \<open>\<^verbatim>\<open>if err := op(); err != nil { cleanup(); return err }\<close>\<close>

definition onerrE :: "('w, 'e, 'a) io \<Rightarrow> ('w, 'e, 'b) io \<Rightarrow> ('w, 'e, 'a) io" where
  "onerrE m cleanup w =
     (case m w of (Inl e, w') \<Rightarrow> (Inl e, snd (cleanup w')) | (Inr x, w') \<Rightarrow> (Inr x, w'))"

lemma bindE_Inr [simp]: "m w = (Inr x, w') \<Longrightarrow> bindE m f w = f x w'"
  by (simp add: bindE_def)

lemma bindE_Inl [simp]: "m w = (Inl e, w') \<Longrightarrow> bindE m f w = (Inl e, w')"
  by (simp add: bindE_def)

lemma returnE_apply [simp]: "returnE x w = (Inr x, w)"
  by (simp add: returnE_def)

lemma throwE_apply [simp]: "throwE e w = (Inl e, w)"
  by (simp add: throwE_def)

lemma bindE_eq_Inr:
  "bindE m f w = (Inr y, w2) \<longleftrightarrow> (\<exists>x w1. m w = (Inr x, w1) \<and> f x w1 = (Inr y, w2))"
  by (auto simp: bindE_def split: prod.splits sum.splits)

lemma bindE_cases [consumes 1, case_names error ok]:
  assumes "bindE m f w = (r, w2)"
  obtains (error) e where "m w = (Inl e, w2)" and "r = Inl e"
        | (ok) x w1 where "m w = (Inr x, w1)" and "f x w1 = (r, w2)"
  using assms by (auto simp: bindE_def split: prod.splits sum.splits)

lemma wrapE_Inr [simp]: "m w = (Inr x, w') \<Longrightarrow> wrapE f m w = (Inr x, w')"
  by (simp add: wrapE_def)

lemma wrapE_cases [consumes 1, case_names error ok]:
  assumes "wrapE f m w = (r, w')"
  obtains (error) e where "m w = (Inl e, w')" and "r = Inl (f e)"
        | (ok) x where "m w = (Inr x, w')" and "r = Inr x"
  using assms by (auto simp: wrapE_def split: prod.splits sum.splits)

lemma onerrE_cases [consumes 1, case_names error ok]:
  assumes "onerrE m c w = (r, w')"
  obtains (error) e w1 where "m w = (Inl e, w1)" and "r = Inl e" and "w' = snd (c w1)"
        | (ok) x where "m w = (Inr x, w')" and "r = Inr x"
  using assms by (auto simp: onerrE_def split: prod.splits sum.splits)

lemma unat_bound: "unat (w :: 'a :: len word) < 2 ^ LENGTH('a)"
  by simp

section \<open>Big-endian integers (encoding/binary)\<close>

text \<open>
  \<open>be_put k v\<close> is the \<open>k\<close>-byte big-endian image of \<open>v\<close> (the digits of \<open>v mod 256 ^ k\<close> to
  base 256, most significant first); \<open>be_get\<close> reads such an image.
\<close>

primrec be_put :: "nat \<Rightarrow> nat \<Rightarrow> bytes" where
  "be_put 0 v = []"
| "be_put (Suc k) v = be_put k (v div 256) @ [word_of_nat (v mod 256)]"

definition be_get :: "bytes \<Rightarrow> nat" where
  "be_get bs = foldl (\<lambda>a b. a * 256 + unat b) 0 bs"

definition PutUint32 :: "u32 \<Rightarrow> bytes" where
  "PutUint32 v = be_put 4 (unat v)"

definition Uint32 :: "bytes \<Rightarrow> u32" where
  "Uint32 bs = word_of_nat (be_get (take 4 bs))"

definition PutUint64 :: "u64 \<Rightarrow> bytes" where
  "PutUint64 v = be_put 8 (unat v)"

definition Uint64 :: "bytes \<Rightarrow> u64" where
  "Uint64 bs = word_of_nat (be_get (take 8 bs))"

lemma length_be_put [simp, codec_simps]: "length (be_put k v) = k"
  by (induction k arbitrary: v) auto

lemma be_get_snoc: "be_get (bs @ [b]) = be_get bs * 256 + unat b"
  by (simp add: be_get_def)

lemma be_get_Nil [simp]: "be_get [] = 0"
  by (simp add: be_get_def)

lemma be_get_put: "be_get (be_put k v) = v mod 256 ^ k"
proof (induction k arbitrary: v)
  case 0
  then show ?case by simp
next
  case (Suc k)
  have "unat (word_of_nat (v mod 256) :: 8 word) = v mod 256"
    by (simp add: unat_of_nat)
  then have "be_get (be_put (Suc k) v) = (v div 256) mod 256 ^ k * 256 + v mod 256"
    by (simp add: be_get_snoc Suc.IH)
  also have "\<dots> = v mod (256 * 256 ^ k)"
    by (simp add: mod_mult2_eq)
  finally show ?case by simp
qed

lemma be_get_bound: "be_get bs < 256 ^ length bs"
proof (induction bs rule: rev_induct)
  case Nil
  then show ?case by simp
next
  case (snoc b bs)
  have "unat b < 256" using unat_bound [of b] by simp
  then have "be_get bs * 256 + unat b < (be_get bs + 1) * 256" by simp
  also have "\<dots> \<le> 256 ^ length bs * 256" using snoc by (intro mult_le_mono) auto
  finally show ?case by (simp add: be_get_snoc mult.commute)
qed

lemma be_put_get: "be_put (length bs) (be_get bs) = bs"
proof (induction bs rule: rev_induct)
  case Nil
  then show ?case by simp
next
  case (snoc b bs)
  have b: "unat b < 256" using unat_bound [of b] by simp
  from b have "(be_get bs * 256 + unat b) div 256 = be_get bs" by simp
  moreover from b have "(be_get bs * 256 + unat b) mod 256 = unat b" by simp
  ultimately show ?case using snoc by (simp add: be_get_snoc)
qed

lemma length_PutUint32 [simp, codec_simps]: "length (PutUint32 v) = 4"
  by (simp add: PutUint32_def)

lemma length_PutUint64 [simp, codec_simps]: "length (PutUint64 v) = 8"
  by (simp add: PutUint64_def)

lemma Uint32_Put [simp, codec_simps]: "Uint32 (PutUint32 v @ rest) = v"
proof -
  have "unat v < 256 ^ 4" using unat_bound [of v] by simp
  then show ?thesis by (simp add: Uint32_def PutUint32_def be_get_put)
qed

lemma Uint64_Put [simp, codec_simps]: "Uint64 (PutUint64 v @ rest) = v"
proof -
  have "unat v < 256 ^ 8" using unat_bound [of v] by simp
  then show ?thesis by (simp add: Uint64_def PutUint64_def be_get_put)
qed

lemmas Uint32_Put_Nil [simp, codec_simps] = Uint32_Put [where rest = "[]", simplified]

lemmas Uint64_Put_Nil [simp, codec_simps] = Uint64_Put [where rest = "[]", simplified]

lemma PutUint32_Uint32: "4 \<le> length bs \<Longrightarrow> PutUint32 (Uint32 bs) = take 4 bs"
proof -
  assume len: "4 \<le> length bs"
  then have "be_get (take 4 bs) < 2 ^ 32"
    using be_get_bound [of "take 4 bs"] by simp
  then have "unat (Uint32 bs) = be_get (take 4 bs)"
    by (simp add: Uint32_def unat_of_nat)
  then show ?thesis
    using be_put_get [of "take 4 bs"] len by (simp add: PutUint32_def)
qed

lemma unat_Uint32_less: "unat (Uint32 bs) < 2 ^ 32"
  using unat_bound [of "Uint32 bs"] by simp

lemma unat_u32_of_nat: "n < 2 ^ 32 \<Longrightarrow> unat (word_of_nat n :: u32) = n"
  by (simp add: unat_of_nat)

lemma unat_u64_of_nat: "n < 2 ^ 64 \<Longrightarrow> unat (word_of_nat n :: u64) = n"
  by (simp add: unat_of_nat)

section \<open>Binary search (sort.Search)\<close>

text \<open>
  \<^verbatim>\<open>sort.Search(n, f)\<close>: the loop keeps \<open>f (i - 1) = False\<close> and \<open>f j = True\<close> and halves the
  interval between them.
\<close>

function search_loop :: "(nat \<Rightarrow> bool) \<Rightarrow> nat \<Rightarrow> nat \<Rightarrow> nat" where
  "search_loop f i j =
     (if i < j
      then let h = (i + j) div 2
           in if \<not> f h then search_loop f (h + 1) j else search_loop f i h
      else i)"
  by pat_completeness auto
termination
  by (relation "measure (\<lambda>(f, i, j). j - i)") auto

declare search_loop.simps [simp del]

definition sort_Search :: "nat \<Rightarrow> (nat \<Rightarrow> bool) \<Rightarrow> nat" where
  "sort_Search n f = search_loop f 0 n"

lemma search_loop_spec:
  assumes mono: "\<And>k l. k \<le> l \<Longrightarrow> l < n \<Longrightarrow> f k \<Longrightarrow> f l"
  assumes "i \<le> j" and "j \<le> n" and "\<forall>k < i. \<not> f k" and "\<forall>k. j \<le> k \<and> k < n \<longrightarrow> f k"
  shows "search_loop f i j \<le> n \<and> (\<forall>k < search_loop f i j. \<not> f k) \<and>
    (\<forall>k. search_loop f i j \<le> k \<and> k < n \<longrightarrow> f k)"
  using assms(2-5)
proof (induction "j - i" arbitrary: i j rule: less_induct)
  case less
  show ?case
  proof (cases "i < j")
    case False
    with less.prems have "j = i" by simp
    then show ?thesis using less.prems by (simp add: search_loop.simps [of f i i])
  next
    case True
    define h where "h = (i + j) div 2"
    have h: "i \<le> h" "h < j" using True by (auto simp: h_def)
    show ?thesis
    proof (cases "f h")
      case True
      then have eq: "search_loop f i j = search_loop f i h"
        using \<open>i < j\<close> by (subst search_loop.simps) (simp add: h_def Let_def)
      have "\<forall>k. h \<le> k \<and> k < n \<longrightarrow> f k" by (auto intro: mono [OF _ _ True])
      with h less.prems show ?thesis
        unfolding eq by (intro less.hyps) auto
    next
      case False
      then have eq: "search_loop f i j = search_loop f (h + 1) j"
        using \<open>i < j\<close> by (subst search_loop.simps) (simp add: h_def Let_def)
      have "\<not> f k" if "k < h + 1" for k
        using mono [of k h] False h less.prems that by auto
      with h less.prems show ?thesis
        unfolding eq by (intro less.hyps) auto
    qed
  qed
qed

text \<open>
  On a predicate that, once true, stays true, \<open>sort.Search\<close> returns the number of
  positions where it is still false.
\<close>

lemma sort_Search_spec:
  assumes "\<And>k l. k \<le> l \<Longrightarrow> l < n \<Longrightarrow> f k \<Longrightarrow> f l"
  shows "sort_Search n f \<le> n" and "k < sort_Search n f \<Longrightarrow> \<not> f k"
    and "sort_Search n f \<le> k \<Longrightarrow> k < n \<Longrightarrow> f k"
proof -
  have "search_loop f 0 n \<le> n \<and> (\<forall>k < search_loop f 0 n. \<not> f k) \<and>
    (\<forall>k. search_loop f 0 n \<le> k \<and> k < n \<longrightarrow> f k)"
    by (rule search_loop_spec) (auto intro: assms)
  then show "sort_Search n f \<le> n" and "k < sort_Search n f \<Longrightarrow> \<not> f k"
    and "sort_Search n f \<le> k \<Longrightarrow> k < n \<Longrightarrow> f k"
    by (auto simp: sort_Search_def)
qed

section \<open>Lists\<close>

lemma take_append_prefix: "k \<le> length xs \<Longrightarrow> take k (xs @ ys) = take k xs"
  by simp

end
