(* ===== verification/Files.thy ===== *)
theory Files
  imports Prelude "HOL-Library.Sublist"
begin

text \<open>
  The file system the durable components write to: what they use of Go's \<open>os\<close> and \<open>bufio\<close>
  packages, with the two facts the code is written around. Bytes handed to the kernel are
  not durable before \<^verbatim>\<open>fsync\<close>, and a directory change (create, rename) is not durable before the
  directory itself is synced. Every system call may fail.
\<close>

section \<open>The file system\<close>

text \<open>
  A file keeps its current contents (what a reader sees), the contents as of its last
  \<^verbatim>\<open>fsync\<close> and the number \<open>i_keep\<close> of leading bytes that were not cut off since then. The
  directory keeps its current entries and the earlier states that it had since it was last
  synced; a rename is one such change, so it is atomic. The store and the Raft persister each own one directory, so a path is a name
  in that directory. \<open>faults\<close> scripts the outcomes of the system calls to come: each call
  takes the head of the list, and an exhausted list means that nothing fails any more.
  \<open>Fail k\<close> is a call that returns an error after it has moved \<open>k\<close> bytes.
\<close>

datatype fault = Fine | Fail nat

record inode =
  i_dur :: bytes
  i_keep :: nat
  i_cur :: bytes

record world =
  inodes :: "nat \<Rightarrow> inode"
  next_ino :: nat
  dirents :: "string \<rightharpoonup> nat"
  past_dirents :: "(string \<rightharpoonup> nat) list"
  faults :: "fault list"

datatype io_error =
    OpenErr | CreateErr | WriteErr | SyncErr | CloseErr | RenameErr | TruncErr | ReadErr | DirErr
  | ClosedErr

definition next_fault :: "world \<Rightarrow> fault" where
  "next_fault w = (case faults w of [] \<Rightarrow> Fine | f # _ \<Rightarrow> f)"

definition tick :: "world \<Rightarrow> world" where
  "tick w = w\<lparr>faults := tl (faults w)\<rparr>"

definition set_inode :: "nat \<Rightarrow> inode \<Rightarrow> world \<Rightarrow> world" where
  "set_inode i nd w = w\<lparr>inodes := (inodes w)(i := nd)\<rparr>"

definition contents :: "world \<Rightarrow> nat \<Rightarrow> bytes" where
  "contents w i = i_cur (inodes w i)"

definition durable :: "world \<Rightarrow> nat \<Rightarrow> bytes" where
  "durable w i = i_dur (inodes w i)"

definition set_dirents :: "(string \<rightharpoonup> nat) \<Rightarrow> world \<Rightarrow> world" where
  "set_dirents d w = w\<lparr>dirents := d, past_dirents := dirents w # past_dirents w\<rparr>"

text \<open>\<open>sys err act\<close>: one system call that fails with \<open>err\<close> and no effect, or performs \<open>act\<close>.\<close>

definition sys :: "io_error \<Rightarrow> (world \<Rightarrow> 'a \<times> world) \<Rightarrow> (world, io_error, 'a) io" where
  "sys err act w =
     (case next_fault w of
        Fail _ \<Rightarrow> (Inl err, tick w)
      | Fine \<Rightarrow> (let (x, w') = act (tick w) in (Inr x, w')))"

section \<open>System calls\<close>

definition fresh_file :: "string \<Rightarrow> world \<Rightarrow> nat \<times> world" where
  "fresh_file name w =
     (next_ino w,
      set_inode (next_ino w) \<lparr>i_dur = [], i_keep = 0, i_cur = []\<rparr>
        (set_dirents ((dirents w)(name \<mapsto> next_ino w)) (w\<lparr>next_ino := next_ino w + 1\<rparr>)))"

text \<open>\<^verbatim>\<open>os.OpenFile(path, O_CREATE|O_RDWR|O_APPEND, 0o644)\<close>\<close>

definition os_OpenAppend :: "string \<Rightarrow> (world, io_error, nat) io" where
  "os_OpenAppend name =
     sys OpenErr (\<lambda>w. case dirents w name of Some i \<Rightarrow> (i, w) | None \<Rightarrow> fresh_file name w)"

text \<open>\<^verbatim>\<open>os.Create(path)\<close> truncates a file that exists.\<close>

definition os_Create :: "string \<Rightarrow> (world, io_error, nat) io" where
  "os_Create name =
     sys CreateErr (\<lambda>w. case dirents w name of
         Some i \<Rightarrow> (i, set_inode i ((inodes w i)\<lparr>i_keep := 0, i_cur := []\<rparr>) w)
       | None \<Rightarrow> fresh_file name w)"

text \<open>\<^verbatim>\<open>f.Write(p)\<close>: on an error a prefix of \<open>p\<close> has reached the file.\<close>

definition f_Write :: "nat \<Rightarrow> bytes \<Rightarrow> world \<Rightarrow> (io_error + unit) \<times> nat \<times> world" where
  "f_Write i p w =
     (let put = (\<lambda>q. set_inode i ((inodes w i)\<lparr>i_cur := contents w i @ q\<rparr>) (tick w))
      in case next_fault w of
           Fail k \<Rightarrow> (Inl WriteErr, min k (length p), put (take k p))
         | Fine \<Rightarrow> (Inr (), length p, put p))"

text \<open>\<^verbatim>\<open>f.Sync()\<close>\<close>

definition synced_file :: "bytes \<Rightarrow> inode" where
  "synced_file c = \<lparr>i_dur = c, i_keep = length c, i_cur = c\<rparr>"

definition f_Sync :: "nat \<Rightarrow> (world, io_error, unit) io" where
  "f_Sync i = sys SyncErr (\<lambda>w. ((), set_inode i (synced_file (contents w i)) w))"

definition f_Close :: "(world, io_error, unit) io" where
  "f_Close = sys CloseErr (\<lambda>w. ((), w))"

text \<open>\<^verbatim>\<open>os.Rename(old, new)\<close> replaces the entry of \<open>new\<close> in one step.\<close>

definition os_Rename :: "string \<Rightarrow> string \<Rightarrow> (world, io_error, unit) io" where
  "os_Rename old new w =
     (case dirents w old of
        None \<Rightarrow> (Inl RenameErr, tick w)
      | Some i \<Rightarrow> sys RenameErr (\<lambda>w. ((), set_dirents ((dirents w)(old := None, new \<mapsto> i)) w)) w)"

text \<open>\<^verbatim>\<open>os.Truncate(path, n)\<close>, used with \<open>n\<close> at most the size of the file.\<close>

definition os_Truncate :: "string \<Rightarrow> nat \<Rightarrow> (world, io_error, unit) io" where
  "os_Truncate name n w =
     (case dirents w name of
        None \<Rightarrow> (Inl TruncErr, tick w)
      | Some i \<Rightarrow> sys TruncErr
          (\<lambda>w. ((), set_inode i ((inodes w i)\<lparr>i_keep := min n (i_keep (inodes w i)),
             i_cur := take n (contents w i)\<rparr>) w)) w)"

definition os_Remove :: "string \<Rightarrow> (world, io_error, unit) io" where
  "os_Remove name = sys OpenErr (\<lambda>w. ((), set_dirents ((dirents w)(name := None)) w))"

text \<open>\<^verbatim>\<open>os.Stat(path)\<close>: the size, or \<open>None\<close> for any error.\<close>

definition os_Stat :: "string \<Rightarrow> world \<Rightarrow> nat option \<times> world" where
  "os_Stat name w =
     (case next_fault w of
        Fail _ \<Rightarrow> (None, tick w)
      | Fine \<Rightarrow> (map_option (\<lambda>i. length (contents w i)) (dirents w name), tick w))"

text \<open>
  Opening a file for reading and reading it to its end. A missing file is reported as
  \<open>None\<close> (the callers test for \<^verbatim>\<open>os.ErrNotExist\<close>). A read error can strike after \<open>k\<close> bytes:
  the result is what was read and whether reading stopped with an error.
\<close>

definition os_Open :: "string \<Rightarrow> (world, io_error, (bytes \<times> bool) option) io" where
  "os_Open name w =
     (case dirents w name of
        None \<Rightarrow> (case next_fault w of Fail _ \<Rightarrow> (Inl OpenErr, tick w) | Fine \<Rightarrow> (Inr None, tick w))
      | Some i \<Rightarrow>
          (case next_fault w of
             Fail _ \<Rightarrow> (Inl OpenErr, tick w)
           | Fine \<Rightarrow> (case next_fault (tick w) of
                Fail k \<Rightarrow> (Inr (Some (take k (contents w i), True)), tick (tick w))
              | Fine \<Rightarrow> (Inr (Some (contents w i, False)), tick (tick w)))))"

text \<open>\<^verbatim>\<open>os.ReadFile(path)\<close>: an error of either kind is an error.\<close>

definition os_ReadFile :: "string \<Rightarrow> (world, io_error, bytes option) io" where
  "os_ReadFile name =
     bindE (os_Open name) (\<lambda>r. case r of
         None \<Rightarrow> returnE None
       | Some (bs, failed) \<Rightarrow> if failed then throwE ReadErr else returnE (Some bs))"

text \<open>\<^verbatim>\<open>os.MkdirAll(dir, 0o755)\<close>; the entries of the directory do not change.\<close>

definition os_MkdirAll :: "(world, io_error, unit) io" where
  "os_MkdirAll = sys DirErr (\<lambda>w. ((), w))"

text \<open>Writing a whole buffer, when the caller only looks at the error.\<close>

definition f_WriteAll :: "nat \<Rightarrow> bytes \<Rightarrow> (world, io_error, unit) io" where
  "f_WriteAll i p w = (case f_Write i p w of (r, n, w') \<Rightarrow> (r, w'))"

text \<open>Syncing a directory handle makes the directory's current entries durable.\<close>

definition dir_Open :: "(world, io_error, unit) io" where
  "dir_Open = sys DirErr (\<lambda>w. ((), w))"

definition dir_Sync :: "(world, io_error, unit) io" where
  "dir_Sync = sys DirErr (\<lambda>w. ((), w\<lparr>past_dirents := []\<rparr>))"

section \<open>Crashes\<close>

text \<open>
  After a crash a file holds its synced contents, plus possibly some of the bytes written
  since then. Where the file was cut below its synced contents and not synced again, the
  cut may or may not have taken effect. The directory is in its current state or in one it
  had since it was last synced. The operations after the restart draw new outcomes.
\<close>

definition crash_file :: "inode \<Rightarrow> bytes \<Rightarrow> bool" where
  "crash_file nd c \<longleftrightarrow>
     c = i_dur nd \<or> (prefix c (i_cur nd) \<and> prefix (take (i_keep nd) (i_cur nd)) c)"

definition possible_dirs :: "world \<Rightarrow> (string \<rightharpoonup> nat) list" where
  "possible_dirs w = dirents w # past_dirents w"

definition crash :: "world \<Rightarrow> world \<Rightarrow> bool" where
  "crash w w' \<longleftrightarrow>
     (\<forall>i. crash_file (inodes w i) (contents w' i) \<and>
        inodes w' i = synced_file (contents w' i)) \<and>
     dirents w' \<in> set (possible_dirs w) \<and> past_dirents w' = [] \<and> next_ino w' = next_ino w"

text \<open>The crash in which everything written survives; it shows that a crash is always possible.\<close>

definition clean_crash :: "world \<Rightarrow> world" where
  "clean_crash w =
     w\<lparr>inodes := (\<lambda>i. synced_file (contents w i)), past_dirents := [], faults := []\<rparr>"

lemma crash_file_synced: "crash_file (synced_file x) c \<Longrightarrow> c = x"
  by (auto simp: crash_file_def synced_file_def intro: prefix_order.antisym)

lemma crash_contents: "crash w w' \<Longrightarrow> crash_file (inodes w i) (contents w' i)"
  by (simp add: crash_def)

lemma crash_inodes: "crash w w' \<Longrightarrow> inodes w' i = synced_file (contents w' i)"
  by (simp add: crash_def)

lemma crash_dirents: "crash w w' \<Longrightarrow> dirents w' \<in> set (possible_dirs w)"
  by (simp add: crash_def)

lemma synced_file_simps [simp]:
  "i_cur (synced_file c) = c" "i_dur (synced_file c) = c" "i_keep (synced_file c) = length c"
  by (simp_all add: synced_file_def)

lemma crash_clean: "crash w (clean_crash w)"
  by (simp add: crash_def clean_crash_def crash_file_def contents_def possible_dirs_def take_is_prefix)

section \<open>Frame facts of the system calls\<close>

lemma contents_set_inode [simp]:
  "contents (set_inode i nd w) j = (if j = i then i_cur nd else contents w j)"
  by (simp add: contents_def set_inode_def)

lemma durable_set_inode [simp]:
  "durable (set_inode i nd w) j = (if j = i then i_dur nd else durable w j)"
  by (simp add: durable_def set_inode_def)

lemma set_inode_simps [simp]:
  "dirents (set_inode i nd w) = dirents w"
  "past_dirents (set_inode i nd w) = past_dirents w"
  "possible_dirs (set_inode i nd w) = possible_dirs w"
  "next_ino (set_inode i nd w) = next_ino w"
  "faults (set_inode i nd w) = faults w"
  "inodes (set_inode i nd w) = (inodes w)(i := nd)"
  by (simp_all add: set_inode_def possible_dirs_def)

lemma set_dirents_simps [simp]:
  "dirents (set_dirents d w) = d"
  "past_dirents (set_dirents d w) = possible_dirs w"
  "possible_dirs (set_dirents d w) = d # possible_dirs w"
  "next_ino (set_dirents d w) = next_ino w"
  "faults (set_dirents d w) = faults w"
  "inodes (set_dirents d w) = inodes w"
  "contents (set_dirents d w) = contents w"
  "durable (set_dirents d w) = durable w"
  by (simp_all add: set_dirents_def possible_dirs_def contents_def durable_def fun_eq_iff)

lemma tick_simps [simp]:
  "dirents (tick w) = dirents w"
  "past_dirents (tick w) = past_dirents w"
  "possible_dirs (tick w) = possible_dirs w"
  "next_ino (tick w) = next_ino w"
  "inodes (tick w) = inodes w"
  "contents (tick w) = contents w"
  "durable (tick w) = durable w"
  "faults (tick w) = tl (faults w)"
  by (simp_all add: tick_def contents_def durable_def fun_eq_iff possible_dirs_def)

lemma world_upd_contents [simp]:
  "contents (w\<lparr>dirents := d\<rparr>) = contents w" "durable (w\<lparr>dirents := d\<rparr>) = durable w"
  "contents (w\<lparr>past_dirents := ds\<rparr>) = contents w" "durable (w\<lparr>past_dirents := ds\<rparr>) = durable w"
  "contents (w\<lparr>next_ino := n\<rparr>) = contents w" "durable (w\<lparr>next_ino := n\<rparr>) = durable w"
  "contents (w\<lparr>faults := fs\<rparr>) = contents w" "durable (w\<lparr>faults := fs\<rparr>) = durable w"
  by (simp_all add: contents_def durable_def fun_eq_iff)

lemma no_fault [simp]: "faults w = [] \<Longrightarrow> next_fault w = Fine"
  by (simp add: next_fault_def)

lemma sys_cases [consumes 1, case_names failed performed]:
  assumes "sys err act w = (r, w')"
  obtains (failed) "r = Inl err" and "w' = tick w"
        | (performed) x where "act (tick w) = (x, w')" and "r = Inr x"
  using assms by (auto simp: sys_def split: fault.splits prod.splits)

text \<open>Without scripted faults every call succeeds and the script stays empty.\<close>

lemma sys_fine [simp]:
  "faults w = [] \<Longrightarrow> sys err act w = (let (x, w') = act (tick w) in (Inr x, w'))"
  by (simp add: sys_def)

lemma tick_fine [simp]: "faults w = [] \<Longrightarrow> tick w = w"
  by (simp add: tick_def)

end
