(* ===== verification/Crc32.thy ===== *)
theory Crc32
  imports Prelude
begin

text \<open>
  The checksum of the write-ahead log: \<open>hash/crc32\<close> of Go's standard library with the
  Castagnoli polynomial, as its table-driven \<open>simpleUpdate\<close> computes it. The log code calls
  it through \<open>crcTable\<close> (\<^verbatim>\<open>src/internal/storage/record.go\<close>).
\<close>

unbundle bit_operations_syntax

text \<open>The reversed Castagnoli polynomial, \<open>0x82f63b78\<close>.\<close>

definition castagnoli :: u32 where
  "castagnoli = 0x82f63b78"

definition crc_shift :: "u32 \<Rightarrow> u32" where
  "crc_shift c = (if c AND 1 = 1 then drop_bit 1 c XOR castagnoli else drop_bit 1 c)"

definition crcTable :: "byte \<Rightarrow> u32" where
  "crcTable i = (crc_shift ^^ 8) (ucast i)"

definition crc_update :: "u32 \<Rightarrow> byte \<Rightarrow> u32" where
  "crc_update c b = crcTable (ucast c XOR b) XOR drop_bit 8 c"

definition Checksum :: "bytes \<Rightarrow> u32" where
  "Checksum bs = NOT (foldl crc_update (NOT 0) bs)"

lemma Checksum_Nil [simp]: "Checksum [] = 0"
  by (simp add: Checksum_def)

end
