(* ===== verification/Wal.thy ===== *)
theory Wal
  imports Files Crc32
begin

text \<open>
  \<^verbatim>\<open>src/internal/storage/wal.go\<close>: the append-only log. A record is a frame of an 8-byte header
  (payload length and CRC-32C, both big-endian) and the payload. Appending goes through a
  \<^verbatim>\<open>bufio.Writer\<close>; \<open>Sync\<close> flushes it and calls \<^verbatim>\<open>fsync\<close>; \<open>replayWAL\<close> reads the frames back and
  stops at the first frame that is incomplete or fails its checksum.
\<close>

section \<open>Buffered appending\<close>

text \<open>
  The log handle: the file, whether the handle is closed, the bytes still in the
  \<^verbatim>\<open>bufio.Writer\<close> (of the default size, 4096) and that writer's sticky error.
\<close>

record WAL =
  wal_f :: nat
  wal_closed :: bool
  wal_buf :: bytes
  wal_err :: "io_error option"
  wal_path :: string

type_synonym wstate = "WAL \<times> world"

definition bufSize :: nat where
  "bufSize = 4096"

text \<open>A write to the file through the handle; a closed handle refuses it.\<close>

definition wal_write :: "bytes \<Rightarrow> wstate \<Rightarrow> (io_error + unit) \<times> nat \<times> wstate" where
  "wal_write p = (\<lambda>(W, w).
     if wal_closed W then (Inl ClosedErr, 0, (W, w))
     else case f_Write (wal_f W) p w of (r, n, w') \<Rightarrow> (r, n, (W, w')))"

text \<open>\<^verbatim>\<open>(*bufio.Writer).Flush\<close>: on a short write the rest stays buffered and the error sticks.\<close>

definition bufio_Flush :: "(wstate, io_error, unit) io" where
  "bufio_Flush s =
     (case wal_err (fst s) of
        Some e \<Rightarrow> (Inl e, s)
      | None \<Rightarrow>
          if wal_buf (fst s) = [] then (Inr (), s)
          else case wal_write (wal_buf (fst s)) s of
              (Inl e, n, (W, w)) \<Rightarrow>
                (Inl e, (W\<lparr>wal_buf := drop n (wal_buf W), wal_err := Some e\<rparr>, w))
            | (Inr _, n, (W, w)) \<Rightarrow> (Inr (), (W\<lparr>wal_buf := []\<rparr>, w)))"

text \<open>A write that bypasses the empty buffer.\<close>

definition bufio_direct :: "bytes \<Rightarrow> (wstate, io_error, unit) io" where
  "bufio_direct p s =
     (case wal_write p s of
        (Inl e, n, (W, w)) \<Rightarrow> (Inl e, (W\<lparr>wal_err := Some e\<rparr>, w))
      | (Inr _, n, s') \<Rightarrow> (Inr (), s'))"

definition bufio_put :: "bytes \<Rightarrow> (wstate, io_error, unit) io" where
  "bufio_put p = (\<lambda>(W, w). (Inr (), (W\<lparr>wal_buf := wal_buf W @ p\<rparr>, w)))"

text \<open>
  \<^verbatim>\<open>(*bufio.Writer).Write\<close>. Its loop runs at most twice: a write that does not fit first
  fills and flushes a partly full buffer; what is then left either fits or goes straight
  to the file.
\<close>

definition bufio_Write :: "bytes \<Rightarrow> (wstate, io_error, unit) io" where
  "bufio_Write p s =
     (let buf = wal_buf (fst s); avail = bufSize - length buf
      in case wal_err (fst s) of
           Some e \<Rightarrow> (Inl e, s)
         | None \<Rightarrow>
             if length p \<le> avail then bufio_put p s
             else if buf = [] then bufio_direct p s
             else bindE (bufio_put (take avail p)) (\<lambda>_.
                  bindE bufio_Flush (\<lambda>_.
                    let rest = drop avail p
                    in if length rest \<le> bufSize then bufio_put rest
                       else bufio_direct rest)) s)"

section \<open>The log\<close>

text \<open>\<^verbatim>\<open>frameHeaderSize\<close> of record.go.\<close>

definition frameHeaderSize :: nat where
  "frameHeaderSize = 8"

definition OpenWAL :: "string \<Rightarrow> (world, io_error, WAL) io" where
  "OpenWAL path =
     bindE (os_OpenAppend path) (\<lambda>f.
       returnE \<lparr>wal_f = f, wal_closed = False, wal_buf = [], wal_err = None, wal_path = path\<rparr>)"

definition frameHeader :: "bytes \<Rightarrow> bytes" where
  "frameHeader payload =
     PutUint32 (word_of_nat (length payload)) @ PutUint32 (Checksum payload)"

definition Append :: "bytes \<Rightarrow> (wstate, io_error, unit) io" where
  "Append payload =
     bindE (bufio_Write (frameHeader payload)) (\<lambda>_. bufio_Write payload)"

text \<open>\<open>lift_w\<close> runs a system call under a log handle; a closed handle refuses it.\<close>

definition lift_w :: "(nat \<Rightarrow> (world, io_error, 'a) io) \<Rightarrow> (wstate, io_error, 'a) io" where
  "lift_w m = (\<lambda>(W, w).
     if wal_closed W then (Inl ClosedErr, (W, w))
     else case m (wal_f W) w of (r, w') \<Rightarrow> (r, (W, w')))"

definition Sync :: "(wstate, io_error, unit) io" where
  "Sync = bindE bufio_Flush (\<lambda>_. lift_w f_Sync)"

text \<open>
  \<^verbatim>\<open>os.File.Close\<close> leaves the handle closed also when it reports an error.
  \<open>Close\<close> closes the file when the flush fails, too.
\<close>

definition wal_fclose :: "(wstate, io_error, unit) io" where
  "wal_fclose = (\<lambda>(W, w).
     if wal_closed W then (Inl ClosedErr, (W, w))
     else case f_Close w of (r, w') \<Rightarrow> (r, (W\<lparr>wal_closed := True\<rparr>, w')))"

definition Close :: "(wstate, io_error, unit) io" where
  "Close s =
     (case bufio_Flush s of
        (Inl e, s') \<Rightarrow> (Inl e, snd (wal_fclose s'))
      | (Inr _, s') \<Rightarrow> wal_fclose s')"

section \<open>Replay\<close>

text \<open>
  The replay loop over the bytes still unread. \<open>rerr\<close> tells whether the end of the
  available bytes is a read error or the end of the file. The callback \<open>fn\<close> updates the
  state it replays into and may fail. The result is the offset after the last frame that
  was applied, the error if any, and the state.
\<close>

datatype 'e replay_error = ReplayOpen io_error | ReadHeader | ReadPayload | FnError 'e

function replay_loop ::
  "(bytes \<Rightarrow> 's \<Rightarrow> 'e option \<times> 's) \<Rightarrow> bool \<Rightarrow> bytes \<Rightarrow> nat \<Rightarrow> 's \<Rightarrow> nat \<times> 'e replay_error option \<times> 's"
where
  "replay_loop fn rerr bs validOffset s =
     (if length bs < frameHeaderSize
      then (validOffset, if rerr then Some ReadHeader else None, s)
      else
        let payloadLen = unat (Uint32 bs);
            wantCRC = Uint32 (drop 4 bs);
            rest = drop frameHeaderSize bs
        in if length rest < payloadLen
           then (validOffset, if rerr then Some ReadPayload else None, s)
           else
             let payload = take payloadLen rest
             in if Checksum payload \<noteq> wantCRC then (validOffset, None, s)
                else case fn payload s of
                    (Some e, s') \<Rightarrow> (validOffset, Some (FnError e), s')
                  | (None, s') \<Rightarrow>
                      replay_loop fn rerr (drop payloadLen rest)
                        (validOffset + frameHeaderSize + payloadLen) s')"
  by pat_completeness auto
termination
  by (relation "measure (\<lambda>(fn, rerr, bs, off, s). length bs)") (auto simp: frameHeaderSize_def)

declare replay_loop.simps [simp del]

definition replayWAL ::
  "string \<Rightarrow> (bytes \<Rightarrow> 's \<Rightarrow> 'e option \<times> 's) \<Rightarrow> 's \<Rightarrow> world \<Rightarrow>
     (nat \<times> 'e replay_error option \<times> 's) \<times> world"
where
  "replayWAL path fn s w =
     (case os_Open path w of
        (Inl e, w') \<Rightarrow> ((0, Some (ReplayOpen e), s), w')
      | (Inr None, w') \<Rightarrow> ((0, None, s), w')
      | (Inr (Some (bs, rerr)), w') \<Rightarrow> (replay_loop fn rerr bs 0 s, w'))"

text \<open>\<open>syncDir\<close> of \<^verbatim>\<open>src/internal/storage/snapshot.go\<close>, exported by wal.go as \<open>SyncDir\<close>.\<close>

definition syncDir :: "(world, io_error, unit) io" where
  "syncDir =
     bindE dir_Open (\<lambda>_ w.
       case dir_Sync w of
         (Inl e, w') \<Rightarrow> (Inl e, snd (f_Close w'))
       | (Inr _, w') \<Rightarrow> f_Close w')"

section \<open>What a buffered write does to the file\<close>

text \<open>
  \<open>extends i w w'\<close>: the step from \<open>w\<close> to \<open>w'\<close> appended to the current contents of file \<open>i\<close>
  and changed nothing else.
\<close>

definition extends :: "nat \<Rightarrow> world \<Rightarrow> world \<Rightarrow> bool" where
  "extends i w w' \<longleftrightarrow>
     prefix (contents w i) (contents w' i) \<and> durable w' i = durable w i \<and>
     i_keep (inodes w' i) = i_keep (inodes w i) \<and>
     (\<forall>j. j \<noteq> i \<longrightarrow> inodes w' j = inodes w j) \<and>
     dirents w' = dirents w \<and> past_dirents w' = past_dirents w \<and> next_ino w' = next_ino w"

lemma extends_refl [simp]: "extends i w w"
  by (simp add: extends_def)

lemma extends_trans [trans]: "extends i w w' \<Longrightarrow> extends i w' w'' \<Longrightarrow> extends i w w''"
  by (auto simp: extends_def intro: prefix_order.trans)

lemma extends_prefix: "extends i w w' \<Longrightarrow> prefix (contents w i) (contents w' i)"
  by (simp add: extends_def)

definition same_handle :: "WAL \<Rightarrow> WAL \<Rightarrow> bool" where
  "same_handle W W' \<longleftrightarrow>
     wal_f W' = wal_f W \<and> wal_path W' = wal_path W \<and> wal_closed W' = wal_closed W"

lemma same_handle_refl [simp]: "same_handle W W"
  by (simp add: same_handle_def)

lemma same_handle_trans [trans]: "same_handle W W' \<Longrightarrow> same_handle W' W'' \<Longrightarrow> same_handle W W''"
  by (simp add: same_handle_def)

text \<open>
  The effect of a buffered operation that moves the bytes \<open>p\<close>: on success the file followed
  by the buffer has grown by exactly \<open>p\<close>; on an error the error sticks and the file holds
  some prefix of that.
\<close>

definition moves :: "bytes \<Rightarrow> wstate \<Rightarrow> (io_error + unit) \<times> wstate \<Rightarrow> bool" where
  "moves p = (\<lambda>(W, w) (r, (W', w')).
     extends (wal_f W) w w' \<and> same_handle W W' \<and>
     (case r of
        Inr _ \<Rightarrow> wal_err W' = None \<and>
          contents w' (wal_f W) @ wal_buf W' = contents w (wal_f W) @ wal_buf W @ p
      | Inl _ \<Rightarrow> wal_err W' \<noteq> None \<and>
          prefix (contents w' (wal_f W)) (contents w (wal_f W) @ wal_buf W @ p)))"

lemma f_Write_extends: "f_Write i p w = (r, n, w') \<Longrightarrow> extends i w w'"
  by (auto simp: f_Write_def extends_def durable_def Let_def split: fault.splits)

lemma f_Write_ok: "f_Write i p w = (Inr u, n, w') \<Longrightarrow> contents w' i = contents w i @ p"
  by (auto simp: f_Write_def Let_def split: fault.splits)

lemma f_Write_err:
  "f_Write i p w = (Inl e, n, w') \<Longrightarrow> contents w' i = contents w i @ take n p \<and> n \<le> length p"
  by (auto simp: f_Write_def Let_def min_def split: fault.splits)

lemma wal_write_cases [consumes 1, case_names closed failed written]:
  assumes "wal_write p (W, w) = (r, n, s')"
  obtains (closed) "r = Inl ClosedErr" "n = 0" "s' = (W, w)"
    | (failed) e w' where "r = Inl e" "s' = (W, w')" "extends (wal_f W) w w'"
        "contents w' (wal_f W) = contents w (wal_f W) @ take n p"
    | (written) w' where "r = Inr ()" "s' = (W, w')" "extends (wal_f W) w w'"
        "contents w' (wal_f W) = contents w (wal_f W) @ p"
proof (cases "wal_closed W")
  case True
  with assms closed show ?thesis by (simp add: wal_write_def)
next
  case False
  with assms obtain w' where f: "f_Write (wal_f W) p w = (r, n, w')" and s': "s' = (W, w')"
    by (auto simp: wal_write_def split: prod.splits)
  show ?thesis
  proof (cases r)
    case (Inl e)
    with f s' failed show ?thesis by (auto dest: f_Write_extends f_Write_err)
  next
    case (Inr u)
    with f s' written show ?thesis by (auto dest: f_Write_extends f_Write_ok)
  qed
qed

lemma bufio_Flush_moves:
  assumes "wal_err W = None"
  shows "moves [] (W, w) (bufio_Flush (W, w))"
    and "bufio_Flush (W, w) = (Inr u, (W', w')) \<Longrightarrow> wal_buf W' = []"
proof -
  obtain r n s' where wr: "wal_write (wal_buf W) (W, w) = (r, n, s')"
    by (metis prod_cases3)
  show "moves [] (W, w) (bufio_Flush (W, w))"
    using wr assms
    by (cases rule: wal_write_cases)
       (auto simp: wr bufio_Flush_def moves_def same_handle_def take_is_prefix)
  show "wal_buf W' = []" if "bufio_Flush (W, w) = (Inr u, (W', w'))"
    using wr assms that
    by (cases rule: wal_write_cases) (auto simp: wr bufio_Flush_def split: if_splits)
qed

lemma bufio_direct_moves:
  assumes "wal_err W = None" and "wal_buf W = []"
  shows "moves p (W, w) (bufio_direct p (W, w))"
proof -
  obtain r n s' where wr: "wal_write p (W, w) = (r, n, s')"
    by (metis prod_cases3)
  then show ?thesis
    using assms by (cases rule: wal_write_cases)
      (auto simp: wr bufio_direct_def moves_def same_handle_def take_is_prefix)
qed

lemma bufio_put_moves: "wal_err W = None \<Longrightarrow> moves p (W, w) (bufio_put p (W, w))"
  by (simp add: bufio_put_def moves_def same_handle_def)

text \<open>Effects compose along \<open>bindE\<close>.\<close>

lemma moves_bindE:
  assumes m: "moves p (W, w) (m (W, w))"
    and f: "\<And>W' w'. m (W, w) = (Inr (), (W', w')) \<Longrightarrow> moves q (W', w') (f () (W', w'))"
  shows "moves (p @ q) (W, w) (bindE m f (W, w))"
proof -
  obtain r W1 w1 where s1: "m (W, w) = (r, (W1, w1))" by (metis prod_cases3)
  show ?thesis
  proof (cases r)
    case (Inl e)
    have "prefix (contents w1 (wal_f W)) (contents w (wal_f W) @ wal_buf W @ p)"
      using m by (simp add: moves_def s1 Inl)
    then have "prefix (contents w1 (wal_f W)) (contents w (wal_f W) @ wal_buf W @ p @ q)"
      by (metis append_assoc prefix_prefix)
    with m show ?thesis by (simp add: moves_def s1 Inl)
  next
    case (Inr u)
    obtain r2 W2 w2 where f2: "f () (W1, w1) = (r2, (W2, w2))" by (metis prod_cases3)
    have mv: "moves q (W1, w1) (r2, (W2, w2))"
      using f [of W1 w1] by (simp add: s1 Inr f2)
    have b: "bindE m f (W, w) = (r2, (W2, w2))"
      by (simp add: s1 Inr f2 bindE_def)
    from m mv have "extends (wal_f W) w w2" "same_handle W W2"
      by (auto simp: moves_def s1 Inr same_handle_def intro: extends_trans)
    moreover have eq: "contents w (wal_f W) @ wal_buf W @ p @ q =
        contents w1 (wal_f W) @ wal_buf W1 @ q"
      using m by (simp add: moves_def s1 Inr flip: append_assoc)
    moreover have "wal_f W1 = wal_f W" using m by (simp add: moves_def s1 same_handle_def)
    ultimately show ?thesis
      using mv unfolding b moves_def prod.case by (simp only: eq)
  qed
qed

lemma bufio_Write_moves:
  assumes "wal_err W = None"
  shows "moves p (W, w) (bufio_Write p (W, w))"
proof -
  define avail where "avail = bufSize - length (wal_buf W)"
  consider (fits) "length p \<le> avail" | (direct) "\<not> length p \<le> avail" "wal_buf W = []"
    | (fill) "\<not> length p \<le> avail" "wal_buf W \<noteq> []" by blast
  then show ?thesis
  proof cases
    case fits
    then show ?thesis using assms by (simp add: bufio_Write_def avail_def bufio_put_moves)
  next
    case direct
    then show ?thesis using assms by (simp add: bufio_Write_def avail_def bufio_direct_moves)
  next
    case fill
    let ?tail = "\<lambda>_. let rest = drop avail p in
       if length rest \<le> bufSize then bufio_put rest else bufio_direct rest"
    have tail: "moves (drop avail p) (W2, w2) (?tail () (W2, w2))"
      if "wal_err W1 = None" "bufio_Flush (W1, w1) = (Inr (), (W2, w2))" for W1 w1 W2 w2
    proof -
      have "wal_err W2 = None" and "wal_buf W2 = []"
        using that bufio_Flush_moves [of W1 w1] by (auto simp: moves_def)
      then show ?thesis by (simp add: Let_def bufio_put_moves bufio_direct_moves)
    qed
    have "moves ([] @ drop avail p) (W1, w1) (bindE bufio_Flush ?tail (W1, w1))"
      if "wal_err W1 = None" for W1 w1
      using that by (intro moves_bindE bufio_Flush_moves tail) auto
    then have "moves (take avail p @ drop avail p) (W, w)
        (bindE (bufio_put (take avail p)) (\<lambda>_. bindE bufio_Flush ?tail) (W, w))"
      using assms by (intro moves_bindE bufio_put_moves) (auto simp: bufio_put_def)
    then show ?thesis using fill assms by (simp add: bufio_Write_def avail_def Let_def)
  qed
qed

lemma Append_moves:
  "wal_err W = None \<Longrightarrow> moves (frameHeader p @ p) (W, w) (Append p (W, w))"
  unfolding Append_def
  by (intro moves_bindE bufio_Write_moves)
     (use bufio_Write_moves [of W "frameHeader p" w] in \<open>auto simp: moves_def\<close>)

section \<open>Frames and replay\<close>

definition frame :: "bytes \<Rightarrow> bytes" where
  "frame p = frameHeader p @ p"

definition frames :: "bytes list \<Rightarrow> bytes" where
  "frames ps = concat (map frame ps)"

text \<open>The payloads a frame can describe: the length field has 32 bits.\<close>

definition frameable :: "bytes \<Rightarrow> bool" where
  "frameable p \<longleftrightarrow> length p < 2 ^ 32"

lemma frames_simps [simp]:
  "frames [] = []" "frames (p # ps) = frame p @ frames ps" "frames (ps @ qs) = frames ps @ frames qs"
  by (simp_all add: frames_def)

lemma length_frame [simp, codec_simps]: "length (frame p) = frameHeaderSize + length p"
  by (simp add: frame_def frameHeader_def frameHeaderSize_def)

text \<open>
  \<open>torn bs\<close>: no complete, checksum-valid frame starts here, so a replay stops. This is what
  a crash in the middle of an append leaves behind.
\<close>

definition torn :: "bytes \<Rightarrow> bool" where
  "torn bs \<longleftrightarrow>
     length bs < frameHeaderSize \<or>
     length bs < frameHeaderSize + unat (Uint32 bs) \<or>
     Checksum (take (unat (Uint32 bs)) (drop frameHeaderSize bs)) \<noteq> Uint32 (drop 4 bs)"

lemma Uint32_append: "4 \<le> length xs \<Longrightarrow> Uint32 (xs @ ys) = Uint32 xs"
  by (simp add: Uint32_def)

lemma frameHeader_read:
  "frameable p \<Longrightarrow> unat (Uint32 (frameHeader p @ xs)) = length p"
  "Uint32 (drop 4 (frameHeader p @ xs)) = Checksum p"
  by (simp_all add: frameHeader_def frameable_def unat_u32_of_nat)

lemma drop_frameHeader [simp]: "drop frameHeaderSize (frameHeader p @ xs) = xs"
  by (simp add: frameHeader_def frameHeaderSize_def)

lemma length_frameHeader [simp, codec_simps]: "length (frameHeader p) = frameHeaderSize"
  by (simp add: frameHeader_def frameHeaderSize_def)

text \<open>One step of the replay on a whole frame, and its stop on a torn tail.\<close>

lemma replay_loop_frame:
  assumes "frameable p"
  shows "replay_loop fn rerr (frame p @ rest) off s =
    (case fn p s of
       (Some e, s') \<Rightarrow> (off, Some (FnError e), s')
     | (None, s') \<Rightarrow> replay_loop fn rerr rest (off + length (frame p)) s')"
proof -
  have "Uint32 (drop 4 (frame p @ rest)) = Checksum p"
    using frameHeader_read(2) [of p "p @ rest"] by (simp add: frame_def)
  moreover have "unat (Uint32 (frame p @ rest)) = length p"
    using assms frameHeader_read(1) [of p "p @ rest"] by (simp add: frame_def)
  moreover have "drop frameHeaderSize (frame p @ rest) = p @ rest"
    by (simp add: frame_def)
  ultimately show ?thesis
    by (subst replay_loop.simps) (simp add: Let_def add.assoc split: prod.split option.split)
qed

lemma replay_loop_torn:
  assumes "torn bs"
  shows "replay_loop fn False bs off s = (off, None, s)"
  using assms
  by (subst replay_loop.simps) (auto simp: torn_def Let_def)

text \<open>Running the callback over a list of payloads, stopping at its first error.\<close>

fun run_fn :: "(bytes \<Rightarrow> 's \<Rightarrow> 'e option \<times> 's) \<Rightarrow> bytes list \<Rightarrow> 's \<Rightarrow> 'e option \<times> 's" where
  "run_fn fn [] s = (None, s)"
| "run_fn fn (p # ps) s =
     (case fn p s of (Some e, s') \<Rightarrow> (Some e, s') | (None, s') \<Rightarrow> run_fn fn ps s')"

lemma replay_loop_frames:
  assumes "list_all frameable ps" and "run_fn fn ps s = (None, s')"
  shows "replay_loop fn rerr (frames ps @ rest) off s =
    replay_loop fn rerr rest (off + length (frames ps)) s'"
  using assms
proof (induction ps arbitrary: off s)
  case Nil
  then show ?case by simp
next
  case (Cons p ps)
  then obtain s1 where "fn p s = (None, s1)" and "run_fn fn ps s1 = (None, s')"
    by (auto split: prod.splits option.splits)
  with Cons show ?case by (simp add: replay_loop_frame add.assoc)
qed

lemma replay_torn_tail:
  assumes "list_all frameable ps" and "torn tail" and "run_fn fn ps s = (None, s')"
  shows "replay_loop fn False (frames ps @ tail) 0 s = (length (frames ps), None, s')"
  using assms by (simp add: replay_loop_frames replay_loop_torn)

text \<open>A strict prefix of a frame is torn; a prefix of a log is whole frames and a torn tail.\<close>

lemma strict_prefix_frame_torn:
  assumes "frameable p" and "prefix t (frame p)" and "t \<noteq> frame p"
  shows "torn t"
proof (cases "length t < frameHeaderSize")
  case True
  then show ?thesis by (simp add: torn_def)
next
  case False
  from assms(2,3) have short: "length t < length (frame p)"
    using prefix_length_less [of t "frame p"] by (simp add: strict_prefix_def)
  from assms(2) obtain u where u: "frame p = t @ u" by (auto elim: prefixE)
  have "Uint32 t = Uint32 (frame p)"
    using False by (simp add: u Uint32_append frameHeaderSize_def)
  also have "unat \<dots> = length p"
    using assms(1) by (simp add: frame_def frameHeader_read)
  finally have "unat (Uint32 t) = length p" by simp
  then show ?thesis using short by (simp add: torn_def)
qed

lemma torn_Nil [simp]: "torn []"
  by (simp add: torn_def frameHeaderSize_def)

lemma prefix_frames:
  assumes "list_all frameable ps" and "prefix c (frames ps)"
  shows "\<exists>k t. c = frames (take k ps) @ t \<and> torn t"
  using assms
proof (induction ps arbitrary: c)
  case Nil
  then show ?case by (intro exI [of _ 0]) auto
next
  case (Cons p ps)
  show ?case
  proof (cases "prefix (frame p) c")
    case True
    then obtain c' where c: "c = frame p @ c'" by (auto elim: prefixE)
    with Cons.prems have "prefix c' (frames ps)" by simp
    with Cons.IH [of c'] Cons.prems(1) obtain k t
      where "c' = frames (take k ps) @ t" and "torn t" by auto
    with c show ?thesis by (intro exI [of _ "Suc k"] exI [of _ t]) simp
  next
    case False
    with Cons.prems have "prefix c (frame p)" "c \<noteq> frame p"
      by (auto simp: prefix_append)
    with Cons.prems have "torn c" by (auto intro: strict_prefix_frame_torn)
    then show ?thesis by (intro exI [of _ 0] exI [of _ c]) simp
  qed
qed

lemma prefix_frames_between:
  assumes "list_all frameable ps" and "prefix c (frames ps)"
    and "prefix qs ps" and "prefix (frames qs) c"
  shows "\<exists>rs t. c = frames rs @ t \<and> torn t \<and> prefix qs rs \<and> prefix rs ps"
proof -
  from assms(3) obtain ps' where ps: "ps = qs @ ps'" by (auto elim: prefixE)
  from assms(4) obtain c' where c: "c = frames qs @ c'" by (auto elim: prefixE)
  from assms(1,2) have "list_all frameable ps'" "prefix c' (frames ps')"
    by (simp_all add: ps c)
  then obtain k t where "c' = frames (take k ps') @ t" "torn t"
    using prefix_frames by blast
  then show ?thesis
    by (intro exI [of _ "qs @ take k ps'"] exI [of _ t]) (simp add: ps c take_is_prefix)
qed

section \<open>The contract of a log\<close>

text \<open>
  What the log promises its clients. \<open>rep s os qs ps\<close> says that in state \<open>s\<close> the records \<open>ps\<close>
  have been handed to the log since it was last cut, that the records \<open>qs\<close>, a prefix of
  them, are known to be on disk, and that the file as it was last synced holds the records
  \<open>os\<close> (the same as \<open>qs\<close> unless the log was cut since). \<open>survives s rs\<close> says that \<open>rs\<close> may be
  what a replay delivers after a crash in state \<open>s\<close>. An append that failed counts as handed
  over: its frame may or may not be on disk, and no promise was made for it.
\<close>

locale durable_log =
  fixes rep :: "'s \<Rightarrow> bytes list \<Rightarrow> bytes list \<Rightarrow> bytes list \<Rightarrow> bool"
    and append :: "bytes \<Rightarrow> ('s, 'e, unit) io"
    and sync :: "('s, 'e, unit) io"
    and survives :: "'s \<Rightarrow> bytes list \<Rightarrow> bool"
  assumes append_rep:
      "rep s os qs ps \<Longrightarrow> frameable p \<Longrightarrow> append p s = (r, s') \<Longrightarrow> rep s' os qs (ps @ [p])"
    and sync_ok: "rep s os qs ps \<Longrightarrow> sync s = (Inr u, s') \<Longrightarrow> rep s' ps ps ps"
    and sync_err: "rep s os qs ps \<Longrightarrow> sync s = (Inl e, s') \<Longrightarrow> rep s' os qs ps"
    and survives_between:
      "rep s os qs ps \<Longrightarrow> survives s rs \<Longrightarrow> rs = os \<or> (prefix qs rs \<and> prefix rs ps)"
begin

text \<open>Append then sync: acknowledged records are on disk, others may be.\<close>

lemma log_ok:
  assumes "rep s os qs ps" and "frameable p" and "bindE (append p) (\<lambda>_. sync) s = (Inr u, s')"
  shows "rep s' (ps @ [p]) (ps @ [p]) (ps @ [p])"
proof -
  from assms(3) obtain s1 where a: "append p s = (Inr (), s1)" and sy: "sync s1 = (Inr u, s')"
    by (auto simp: bindE_eq_Inr)
  show ?thesis by (rule sync_ok [OF append_rep [OF assms(1,2) a] sy])
qed

lemma log_err:
  assumes "rep s os qs ps" and "frameable p" and "bindE (append p) (\<lambda>_. sync) s = (Inl e, s')"
  shows "rep s' os qs (ps @ [p])"
  using assms(3)
proof (cases rule: bindE_cases)
  case (error e')
  show ?thesis by (rule append_rep [OF assms(1,2) error(1)])
next
  case (ok x s1)
  show ?thesis by (rule sync_err [OF append_rep [OF assms(1,2) ok(1)] ok(2)])
qed

lemma acknowledged_survives:
  assumes "rep s os qs ps" and "frameable p" and "bindE (append p) (\<lambda>_. sync) s = (Inr u, s')"
    and "survives s' rs"
  shows "rs = ps @ [p]"
  using survives_between [OF log_ok [OF assms(1-3)] assms(4)]
  by (metis prefix_order.antisym)

end

text \<open>The model's log keeps this contract.\<close>

definition wal_rep :: "wstate \<Rightarrow> bytes list \<Rightarrow> bytes list \<Rightarrow> bytes list \<Rightarrow> bool" where
  "wal_rep = (\<lambda>(W, w) os qs ps.
     list_all frameable ps \<and> prefix qs ps \<and>
     list_all frameable os \<and> (\<exists>t. durable w (wal_f W) = frames os @ t \<and> torn t) \<and>
     i_keep (inodes w (wal_f W)) = length (frames qs) \<and>
     prefix (frames qs) (contents w (wal_f W)) \<and>
     (if wal_err W = None
      then contents w (wal_f W) @ wal_buf W = frames ps
      else prefix (contents w (wal_f W)) (frames ps)))"

text \<open>Collecting the payloads of a file, as a replay callback.\<close>

definition collect :: "bytes \<Rightarrow> bytes list \<Rightarrow> unit option \<times> bytes list" where
  "collect p acc = (None, acc @ [p])"

definition replayed :: "bytes \<Rightarrow> bytes list" where
  "replayed bs = snd (snd (replay_loop collect False bs 0 []))"

definition wal_survives :: "wstate \<Rightarrow> bytes list \<Rightarrow> bool" where
  "wal_survives = (\<lambda>(W, w) rs. \<exists>c. crash_file (inodes w (wal_f W)) c \<and> rs = replayed c)"

lemma run_fn_collect: "run_fn collect ps acc = (None, acc @ ps)"
  by (induction ps arbitrary: acc) (auto simp: collect_def)

lemma replayed_frames: "list_all frameable ps \<Longrightarrow> torn t \<Longrightarrow> replayed (frames ps @ t) = ps"
  using run_fn_collect [of ps "[]"] by (simp add: replayed_def replay_torn_tail)

lemma wal_rep_parts:
  assumes "wal_rep (W, w) os qs ps"
  shows "list_all frameable ps" and "prefix qs ps"
    and "i_keep (inodes w (wal_f W)) = length (frames qs)"
    and "prefix (frames qs) (contents w (wal_f W))"
    and "prefix (contents w (wal_f W)) (frames ps)"
    and "list_all frameable os" and "\<exists>t. durable w (wal_f W) = frames os @ t \<and> torn t"
  using assms by (auto simp: wal_rep_def split: if_splits dest: prefixI [OF sym])

text \<open>
  Whatever survives a crash is whole frames and a torn tail; the frames are the ones of the
  last sync or lie between the synced and the handed-over records.
\<close>

lemma wal_crash_contents:
  assumes "wal_rep (W, w) os qs ps" and "crash_file (inodes w (wal_f W)) c"
  obtains rs t where "c = frames rs @ t" and "torn t" and "list_all frameable rs"
    and "rs = os \<or> (prefix qs rs \<and> prefix rs ps)"
proof -
  note parts = wal_rep_parts [OF assms(1)]
  from assms(2) consider (old) "c = durable w (wal_f W)"
    | (new) "prefix c (contents w (wal_f W))" "prefix (frames qs) c"
    using parts(3,4) by (auto simp: crash_file_def contents_def durable_def prefix_def)
  then show thesis
  proof cases
    case old
    with parts(6,7) that show thesis by auto
  next
    case new
    then obtain rs t where rs: "c = frames rs @ t" "torn t" "prefix qs rs" "prefix rs ps"
      using prefix_frames_between [of ps c qs] parts by (metis prefix_order.trans)
    from rs(4) parts(1) have "list_all frameable rs" by (auto elim: prefixE)
    with rs that show thesis by blast
  qed
qed

lemma wal_rep_Append:
  assumes "wal_rep s os qs ps" and "frameable p" and "Append p s = (r, s')"
  shows "wal_rep s' os qs (ps @ [p])"
proof -
  obtain W w W' w' where s: "s = (W, w)" and s': "s' = (W', w')" by (metis prod.exhaust)
  note parts = wal_rep_parts [OF assms(1) [unfolded s]]
  show ?thesis
  proof (cases "wal_err W")
    case (Some e)
    then have "s' = s" using assms(3) by (simp add: s Append_def bufio_Write_def bindE_def)
    with assms Some parts show ?thesis by (auto simp: s wal_rep_def)
  next
    case None
    have mv: "moves (frame p) (W, w) (r, (W', w'))"
      using Append_moves [OF None, of p w] assms(3) by (simp add: s s' frame_def)
    then have h: "same_handle W W'" and ext: "extends (wal_f W) w w'" by (auto simp: moves_def)
    have st: "contents w (wal_f W) @ wal_buf W @ frame p = frames (ps @ [p])"
      using assms(1) None by (simp add: s wal_rep_def flip: append_assoc)
    have "if wal_err W' = None
      then contents w' (wal_f W) @ wal_buf W' = frames (ps @ [p])
      else prefix (contents w' (wal_f W)) (frames (ps @ [p]))"
    proof (cases r)
      case (Inl e)
      then have "wal_err W' \<noteq> None"
        and "prefix (contents w' (wal_f W)) (contents w (wal_f W) @ wal_buf W @ frame p)"
        using mv by (auto simp: moves_def)
      then show ?thesis unfolding st by auto
    next
      case (Inr u)
      then have "wal_err W' = None"
        and "contents w' (wal_f W) @ wal_buf W' = contents w (wal_f W) @ wal_buf W @ frame p"
        using mv by (auto simp: moves_def)
      then show ?thesis unfolding st by simp
    qed
    moreover have "prefix (frames qs) (contents w' (wal_f W))"
      using parts(4) extends_prefix [OF ext] by (rule prefix_order.trans)
    ultimately show ?thesis
      using parts(1-3,6,7) assms(2) h ext
      by (simp add: s' wal_rep_def same_handle_def extends_def cong: if_cong)
  qed
qed

lemma wal_rep_Flush:
  assumes "wal_rep (W, w) os qs ps" and "bufio_Flush (W, w) = (r, (W', w'))"
  shows "wal_rep (W', w') os qs ps" and "same_handle W W'" and "extends (wal_f W) w w'"
    and "r = Inr u \<Longrightarrow> wal_err W' = None \<and> contents w' (wal_f W) = frames ps \<and> wal_buf W' = []"
proof -
  note parts = wal_rep_parts [OF assms(1)]
  have err: "wal_err W = Some e \<Longrightarrow> (r, (W', w')) = (Inl e, (W, w))" for e
    using assms(2) by (simp add: bufio_Flush_def)
  have mv: "wal_err W = None \<Longrightarrow> moves [] (W, w) (r, (W', w'))"
    using bufio_Flush_moves(1) [of W w] assms(2) by simp
  show h: "same_handle W W'" and ext: "extends (wal_f W) w w'"
    using err mv by (cases "wal_err W"; auto simp: moves_def)+
  have pre: "prefix (frames qs) (contents w' (wal_f W))"
    using parts(4) extends_prefix [OF ext] by (rule prefix_order.trans)
  show rep: "wal_rep (W', w') os qs ps"
  proof (cases "wal_err W")
    case (Some e)
    then show ?thesis using err assms(1) by simp
  next
    case None
    have "contents w (wal_f W) @ wal_buf W = frames ps"
      using assms(1) None by (simp add: wal_rep_def)
    with mv [OF None] h pre ext parts show ?thesis
      by (auto simp: moves_def wal_rep_def same_handle_def extends_def split: sum.splits)
  qed
  show "wal_err W' = None \<and> contents w' (wal_f W) = frames ps \<and> wal_buf W' = []" if "r = Inr u"
  proof -
    from that err have N: "wal_err W = None" by (cases "wal_err W") auto
    have "wal_buf W' = []" using bufio_Flush_moves(2) [OF N] assms(2) that by blast
    with mv [OF N] rep h that show ?thesis
      by (auto simp: moves_def wal_rep_def same_handle_def)
  qed
qed

lemma f_Sync_cases [consumes 1, case_names failed synced]:
  assumes "f_Sync i w = (r, w')"
  obtains (failed) e where "r = Inl e" and "w' = tick w"
    | (synced) "r = Inr ()" and "w' = set_inode i (synced_file (contents w i)) (tick w)"
  using assms unfolding f_Sync_def by (cases rule: sys_cases) auto

lemma wal_rep_tick [simp]: "wal_rep (W, tick w) os qs ps = wal_rep (W, w) os qs ps"
  by (simp add: wal_rep_def)

lemma wal_rep_Sync:
  assumes "wal_rep s os qs ps" and "Sync s = (r, s')"
  shows "case r of Inr _ \<Rightarrow> wal_rep s' ps ps ps | Inl _ \<Rightarrow> wal_rep s' os qs ps"
  using assms(2) unfolding Sync_def
proof (cases rule: bindE_cases)
  case (error e)
  then show ?thesis
    using assms(1) by (cases s, cases s') (auto intro: wal_rep_Flush)
next
  case (ok u s1)
  obtain W w W1 w1 where s: "s = (W, w)" and s1: "s1 = (W1, w1)" by (metis prod.exhaust)
  note fl = wal_rep_Flush [OF assms(1) [unfolded s] ok(1) [unfolded s s1]]
  have f: "wal_f W1 = wal_f W" using fl(2) by (simp add: same_handle_def)
  note clean = fl(4) [OF refl]
  show ?thesis
  proof (cases "wal_closed W1")
    case True
    then have "r = Inl ClosedErr" "s' = s1" using ok(2) by (auto simp: s1 lift_w_def)
    then show ?thesis using fl(1) by (simp add: s1)
  next
    case False
    then obtain w' where sy: "f_Sync (wal_f W1) w1 = (r, w')" and s': "s' = (W1, w')"
      using ok(2) by (auto simp: s1 lift_w_def split: prod.splits)
    from sy show ?thesis
      using fl(1) clean f s' wal_rep_parts [OF fl(1)]
      by (cases rule: f_Sync_cases) (auto simp: wal_rep_def)
  qed
qed

interpretation wal: durable_log wal_rep Append Sync wal_survives
proof
  fix s os qs ps p r s'
  assume "wal_rep s os qs ps" "frameable p" "Append p s = (r, s')"
  then show "wal_rep s' os qs (ps @ [p])" by (rule wal_rep_Append)
next
  fix s os qs ps u s'
  assume "wal_rep s os qs ps" "Sync s = (Inr u, s')"
  then show "wal_rep s' ps ps ps" using wal_rep_Sync by fastforce
next
  fix s os qs ps e s'
  assume "wal_rep s os qs ps" "Sync s = (Inl e, s')"
  then show "wal_rep s' os qs ps" using wal_rep_Sync by fastforce
next
  fix s os qs ps rs
  assume rep: "wal_rep s os qs ps" and "wal_survives s rs"
  then obtain W w c where s: "s = (W, w)" and c: "crash_file (inodes w (wal_f W)) c"
    and rs: "rs = replayed c" by (auto simp: wal_survives_def)
  from rep [unfolded s] c rs show "rs = os \<or> (prefix qs rs \<and> prefix rs ps)"
    by (elim wal_crash_contents) (auto simp: replayed_frames)
qed

section \<open>What the log operations leave alone\<close>

text \<open>\<open>only_file f w w'\<close>: nothing but the file \<open>f\<close> differs.\<close>

definition only_file :: "nat \<Rightarrow> world \<Rightarrow> world \<Rightarrow> bool" where
  "only_file f w w' \<longleftrightarrow>
     (\<forall>j. j \<noteq> f \<longrightarrow> inodes w' j = inodes w j) \<and> next_ino w' = next_ino w \<and>
     dirents w' = dirents w \<and> past_dirents w' = past_dirents w"

lemma only_file_refl [simp]: "only_file f w w" "only_file f w (tick w)"
  by (simp_all add: only_file_def)

lemma only_file_trans: "only_file f w w' \<Longrightarrow> only_file f w' w'' \<Longrightarrow> only_file f w w''"
  by (simp add: only_file_def)

lemma extends_only_file: "extends f w w' \<Longrightarrow> only_file f w w'"
  by (simp add: extends_def only_file_def)

lemma Append_frame:
  assumes "Append p (W, w) = (r, (W', w'))"
  shows "only_file (wal_f W) w w'" and "same_handle W W'"
proof -
  have "only_file (wal_f W) w w' \<and> same_handle W W'"
  proof (cases "wal_err W")
    case None
    then show ?thesis
      using Append_moves [OF None, of p w] assms by (auto simp: moves_def intro: extends_only_file)
  next
    case (Some e)
    then show ?thesis using assms by (simp add: Append_def bufio_Write_def bindE_def)
  qed
  then show "only_file (wal_f W) w w'" and "same_handle W W'" by auto
qed

lemma Flush_frame:
  assumes "bufio_Flush (W, w) = (r, (W', w'))"
  shows "only_file (wal_f W) w w'" and "same_handle W W'"
proof -
  have "only_file (wal_f W) w w' \<and> same_handle W W'"
  proof (cases "wal_err W")
    case None
    then show ?thesis
      using bufio_Flush_moves(1) [OF None, of w] assms by (auto simp: moves_def intro: extends_only_file)
  next
    case (Some e)
    then show ?thesis using assms by (simp add: bufio_Flush_def)
  qed
  then show "only_file (wal_f W) w w'" and "same_handle W W'" by auto
qed

lemma f_Sync_only: "f_Sync f w = (r, w') \<Longrightarrow> only_file f w w'"
  by (erule f_Sync_cases) (auto simp: only_file_def)

lemma Sync_frame:
  assumes "Sync (W, w) = (r, (W', w'))"
  shows "only_file (wal_f W) w w'" and "same_handle W W'"
proof -
  from assms have "only_file (wal_f W) w w' \<and> same_handle W W'" unfolding Sync_def
  proof (cases rule: bindE_cases)
    case (error e)
    then show ?thesis using Flush_frame by blast
  next
    case (ok u s1)
    obtain W1 w1 where s1: "s1 = (W1, w1)" by (metis prod.exhaust)
    note fl = Flush_frame [OF ok(1) [unfolded s1]]
    from fl(2) have f: "wal_f W1 = wal_f W" by (simp add: same_handle_def)
    from ok(2) have "W' = W1" "only_file (wal_f W) w1 w'"
      by (auto simp: s1 f lift_w_def f_Sync_only split: if_splits prod.splits)
    then show ?thesis using fl only_file_trans by blast
  qed
  then show "only_file (wal_f W) w w'" and "same_handle W W'" by auto
qed

lemma log_frame:
  assumes "bindE (Append p) (\<lambda>_. Sync) (W, w) = (r, (W', w'))"
  shows "only_file (wal_f W) w w'" and "same_handle W W'"
proof -
  from assms have "only_file (wal_f W) w w' \<and> same_handle W W'"
  proof (cases rule: bindE_cases)
    case (error e)
    then show ?thesis using Append_frame by blast
  next
    case (ok u s1)
    obtain W1 w1 where s1: "s1 = (W1, w1)" by (metis prod.exhaust)
    note a = Append_frame [OF ok(1) [unfolded s1]] and sy = Sync_frame [OF ok(2) [unfolded s1]]
    from a(2) have "wal_f W1 = wal_f W" by (simp add: same_handle_def)
    with a sy show ?thesis by (auto intro: only_file_trans same_handle_trans)
  qed
  then show "only_file (wal_f W) w w'" and "same_handle W W'" by auto
qed

lemma wal_rep_cong:
  "inodes w' (wal_f W) = inodes w (wal_f W) \<Longrightarrow> wal_rep (W, w') os qs ps = wal_rep (W, w) os qs ps"
  by (simp add: wal_rep_def contents_def durable_def)

text \<open>Closing: the log keeps its records, and after a clean close the file holds them all.\<close>

lemma wal_rep_Close:
  assumes "wal_rep (W, w) os qs ps" and "Close (W, w) = (r, (W', w'))"
  shows "wal_rep (W', w') os qs ps" and "only_file (wal_f W) w w'"
    and "wal_f W' = wal_f W" and "wal_path W' = wal_path W"
    and "r = Inr u \<Longrightarrow> wal_err W' = None \<and> contents w' (wal_f W) = frames ps \<and> wal_buf W' = []"
proof -
  obtain r1 W1 w1 where fl: "bufio_Flush (W, w) = (r1, (W1, w1))" by (metis prod_cases3)
  note f = wal_rep_Flush [OF assms(1) fl] Flush_frame [OF fl]
  have c: "wal_fclose (W1, w1) =
      (if wal_closed W1 then Inl ClosedErr else fst (f_Close w1),
       (W1\<lparr>wal_closed := True\<rparr>, if wal_closed W1 then w1 else tick w1))"
    by (auto simp: wal_fclose_def f_Close_def sys_def split: fault.split)
  have W': "W' = W1\<lparr>wal_closed := True\<rparr>" and w': "w' = w1 \<or> w' = tick w1"
    using assms(2) by (auto simp: Close_def fl c split: sum.splits if_splits)
  have r: "r = Inr u \<Longrightarrow> r1 = Inr ()"
    using assms(2) by (auto simp: Close_def fl c split: sum.splits)
  have "wal_rep (W', w1) os qs ps" using f(1) by (simp add: W' wal_rep_def)
  then show "wal_rep (W', w') os qs ps" using w' by auto
  show "only_file (wal_f W) w w'" using f(5) w' by (auto simp: only_file_def)
  show "wal_f W' = wal_f W" "wal_path W' = wal_path W" using f(2) by (simp_all add: W' same_handle_def)
  show "wal_err W' = None \<and> contents w' (wal_f W) = frames ps \<and> wal_buf W' = []" if "r = Inr u"
    using f(4) [OF r [OF that]] w' by (auto simp: W')
qed

section \<open>Progress without faults\<close>

text \<open>A log whose handle is open and error-free, on a disk that works.\<close>

definition healthy :: "wstate \<Rightarrow> bool" where
  "healthy = (\<lambda>(W, w). wal_err W = None \<and> \<not> wal_closed W \<and> faults w = [])"

definition succeeds :: "(wstate, io_error, unit) io \<Rightarrow> bool" where
  "succeeds m \<longleftrightarrow> (\<forall>s. healthy s \<longrightarrow> fst (m s) = Inr () \<and> healthy (snd (m s)))"

lemma succeeds_bufio:
  "succeeds bufio_Flush" "succeeds (bufio_direct p)" "succeeds (bufio_put p)"
  by (auto simp: succeeds_def healthy_def bufio_Flush_def bufio_direct_def bufio_put_def
      wal_write_def f_Write_def)

lemma succeedsD: "succeeds m \<Longrightarrow> healthy s \<Longrightarrow> fst (m s) = Inr () \<and> healthy (snd (m s))"
  unfolding succeeds_def by blast

lemma succeeds_bindE: "succeeds m \<Longrightarrow> succeeds (f ()) \<Longrightarrow> succeeds (bindE m f)"
  unfolding succeeds_def bindE_def by (metis (mono_tags, lifting) case_prod_conv old.sum.simps(6) prod.collapse)

lemma succeeds_bufio_Write: "succeeds (bufio_Write p)"
proof -
  have *: "succeeds (bindE (bufio_put q) (\<lambda>_. bindE bufio_Flush (\<lambda>_.
      if b then bufio_put u else bufio_direct u)))" for q u b
    by (intro succeeds_bindE succeeds_bufio) (auto simp: succeeds_bufio)
  have "fst (bufio_Write p s) = Inr () \<and> healthy (snd (bufio_Write p s))" if s: "healthy s" for s
  proof -
    have "wal_err (fst s) = None" using s by (auto simp: healthy_def)
    then show ?thesis
      using succeedsD [OF * s] succeeds_bufio [THEN succeedsD, OF s]
      by (simp add: bufio_Write_def Let_def)
  qed
  then show ?thesis by (simp add: succeeds_def)
qed

lemma succeeds_Append: "succeeds (Append p)"
  unfolding Append_def by (intro succeeds_bindE succeeds_bufio_Write)

lemma succeeds_Sync: "succeeds Sync"
  unfolding Sync_def
proof (rule succeeds_bindE [OF succeeds_bufio(1)])
  show "succeeds (lift_w f_Sync)"
    by (auto simp: succeeds_def healthy_def lift_w_def f_Sync_def)
qed

lemma healthy_log:
  assumes "healthy s"
  obtains s' where "bindE (Append p) (\<lambda>_. Sync) s = (Inr (), s')" and "healthy s'"
proof -
  have "succeeds (bindE (Append p) (\<lambda>_. Sync))" by (intro succeeds_bindE succeeds_Append succeeds_Sync)
  from succeedsD [OF this assms] that show thesis
    by (cases "bindE (Append p) (\<lambda>_. Sync) s") auto
qed

section \<open>Properties of the log\<close>

text \<open>
  Durability of the log: once \<open>Append\<close> and \<open>Sync\<close> have both returned without error, a
  replay after any crash delivers exactly the records handed to the log, the new one
  last, whatever unsynced data the crash dropped and whatever calls failed before.
\<close>

theorem wal_acknowledged_survives:
  assumes "wal_rep s os qs ps" and "frameable p"
    and "bindE (Append p) (\<lambda>_. Sync) s = (Inr u, (W', w'))"
    and "crash_file (inodes w' (wal_f W')) c"
  shows "replayed c = ps @ [p]"
  by (rule wal.acknowledged_survives [OF assms(1-3)])
     (use assms(4) in \<open>auto simp: wal_survives_def\<close>)

definition empty_wal :: wstate where
  "empty_wal = (\<lparr>wal_f = 0, wal_closed = False, wal_buf = [], wal_err = None, wal_path = ''wal.log''\<rparr>,
     \<lparr>inodes = (\<lambda>_. synced_file []), next_ino = 1, dirents = [''wal.log'' \<mapsto> 0],
      past_dirents = [], faults = []\<rparr>)"

lemma empty_wal_ok: "wal_rep empty_wal [] [] []" "healthy empty_wal"
  by (simp_all add: empty_wal_def wal_rep_def healthy_def contents_def durable_def)

theorem wal_acknowledged_survives_witness:
  "\<exists>W' w'. bindE (Append [1, 2, 3]) (\<lambda>_. Sync) empty_wal = (Inr (), (W', w')) \<and>
     replayed (contents w' (wal_f W')) = [[1, 2, 3]]"
proof -
  obtain W' w' where log: "bindE (Append [1, 2, 3]) (\<lambda>_. Sync) empty_wal = (Inr (), (W', w'))"
    using healthy_log [OF empty_wal_ok(2), of "[1, 2, 3]"] by (metis prod.exhaust)
  have "crash_file (inodes w' (wal_f W')) (contents w' (wal_f W'))"
    by (simp add: crash_file_def contents_def take_is_prefix)
  from wal_acknowledged_survives [OF empty_wal_ok(1) _ log this] log show ?thesis
    by (simp add: frameable_def)
qed

text \<open>
  Replay of a damaged log. If the file holds whole frames and then any bytes from which no
  complete, checksum-valid frame can be read (in particular every strict prefix of a
  frame), the replay calls the callback on exactly the whole frames, in order, reports no
  error and returns the offset at which they end.
\<close>

theorem replayWAL_torn_tail:
  assumes "dirents w path = Some i" and "contents w i = frames ps @ tail" and "faults w = []"
    and "list_all frameable ps" and "run_fn fn ps s = (None, s')"
    and "torn tail \<or> (\<exists>p. frameable p \<and> prefix tail (frame p) \<and> tail \<noteq> frame p)"
  shows "replayWAL path fn s w = ((length (frames ps), None, s'), w)"
proof -
  have "torn tail" using assms(6) strict_prefix_frame_torn by blast
  with assms show ?thesis by (simp add: replayWAL_def os_Open_def replay_torn_tail)
qed

theorem replayWAL_torn_tail_witness:
  "replayWAL ''wal.log'' collect []
     (snd empty_wal\<lparr>inodes := (\<lambda>_. synced_file (frame [9] @ [0, 0, 0]))\<rparr>) =
   ((9, None, [[9]]), snd empty_wal\<lparr>inodes := (\<lambda>_. synced_file (frame [9] @ [0, 0, 0]))\<rparr>)"
  using replayWAL_torn_tail [of "snd empty_wal\<lparr>inodes := (\<lambda>_. synced_file (frame [9] @ [0, 0, 0]))\<rparr>"
    "''wal.log''" 0 "[[9]]" "[0, 0, 0]" collect "[]" "[[9]]"]
  by (simp add: empty_wal_def contents_def frameable_def collect_def torn_def frameHeaderSize_def)

end
