(* ===== verification/Install.thy ===== *)
theory Install
  imports Wal
begin

text \<open>
  The atomic installation of a file that the store (\<^verbatim>\<open>snapshot.go\<close>) and the Raft persister
  (\<^verbatim>\<open>persist.go\<close>) share: write a temporary file, sync it, rename it into place, sync the
  directory; and the cutting of a torn tail that both recoveries do. The theorem says what the directory can look like at every moment, whatever
  call fails.
\<close>

section \<open>Writing a file and renaming it into place\<close>

text \<open>
  The buffered writer hands the data to the file; where that fails, a prefix of it may have
  been written.
\<close>

definition writeFileSync :: "string \<Rightarrow> bytes \<Rightarrow> (world, io_error, unit) io" where
  "writeFileSync path data =
     bindE (os_Create path) (\<lambda>f.
     bindE (onerrE (f_WriteAll f data) f_Close) (\<lambda>_.
     bindE (onerrE (f_Sync f) f_Close) (\<lambda>_.
     f_Close)))"

definition installFile :: "string \<Rightarrow> string \<Rightarrow> bytes \<Rightarrow> (world, io_error, unit) io" where
  "installFile tmp final data =
     bindE (writeFileSync tmp data) (\<lambda>_.
     bindE (os_Rename tmp final) (\<lambda>_.
     syncDir))"

text \<open>Cutting the torn tail: an error of \<^verbatim>\<open>os.Stat\<close> skips it.\<close>

definition cutTail :: "string \<Rightarrow> nat \<Rightarrow> (world, io_error, unit) io" where
  "cutTail path validOffset w =
     (case os_Stat path w of
        (Some sz, w') \<Rightarrow>
          if sz > validOffset then os_Truncate path validOffset w' else (Inr (), w')
      | (None, w') \<Rightarrow> (Inr (), w'))"

section \<open>What the steps do\<close>

text \<open>\<open>tmp_slot w tmp j\<close>: the file that creating \<open>tmp\<close> in \<open>w\<close> writes to.\<close>

definition tmp_slot :: "world \<Rightarrow> string \<Rightarrow> nat \<Rightarrow> bool" where
  "tmp_slot w tmp j \<longleftrightarrow> (case dirents w tmp of Some i \<Rightarrow> j = i | None \<Rightarrow> j = next_ino w)"

definition entry_ok :: "world \<Rightarrow> string \<Rightarrow> bool" where
  "entry_ok w n \<longleftrightarrow> (\<forall>i. dirents w n = Some i \<longrightarrow> i < next_ino w)"

text \<open>
  \<open>wrote w tmp j w'\<close>: between \<open>w\<close> and \<open>w'\<close> only the file \<open>j\<close> was written, and it is now the one
  called \<open>tmp\<close>.
\<close>

definition wrote :: "world \<Rightarrow> string \<Rightarrow> nat \<Rightarrow> world \<Rightarrow> bool" where
  "wrote w tmp j w' \<longleftrightarrow>
     (\<forall>i. i \<noteq> j \<longrightarrow> inodes w' i = inodes w i) \<and>
     next_ino w \<le> next_ino w' \<and> j < next_ino w' \<and>
     dirents w' = (dirents w)(tmp \<mapsto> j) \<and>
     set (possible_dirs w') \<subseteq> insert ((dirents w)(tmp \<mapsto> j)) (set (possible_dirs w))"

definition unchanged :: "world \<Rightarrow> world \<Rightarrow> bool" where
  "unchanged w w' \<longleftrightarrow>
     inodes w' = inodes w \<and> next_ino w' = next_ino w \<and> dirents w' = dirents w \<and>
     past_dirents w' = past_dirents w"

lemma unchanged_tick [simp]: "unchanged w (tick w)"
  by (simp add: unchanged_def)

lemma unchanged_trans: "unchanged w w' \<Longrightarrow> unchanged w' w'' \<Longrightarrow> unchanged w w''"
  by (simp add: unchanged_def)

lemma wrote_unchanged: "wrote w tmp j w' \<Longrightarrow> unchanged w' w'' \<Longrightarrow> wrote w tmp j w''"
  by (simp add: wrote_def unchanged_def possible_dirs_def)

lemma f_Close_unchanged: "f_Close w = (r, w') \<Longrightarrow> unchanged w w'"
  unfolding f_Close_def by (erule sys_cases) auto

lemma f_Close_snd [simp]: "unchanged w (snd (f_Close w))"
  by (cases "f_Close w") (auto dest: f_Close_unchanged)

lemma wrote_Close: "wrote w tmp j w1 \<Longrightarrow> wrote w tmp j (snd (f_Close w1))"
  by (erule wrote_unchanged) simp

lemma os_Create_cases [consumes 2, case_names failed created]:
  assumes "os_Create tmp w = (r, w')" and "entry_ok w tmp"
  obtains (failed) "r = Inl CreateErr" and "unchanged w w'"
    | (created) j where "r = Inr j" and "tmp_slot w tmp j" and "wrote w tmp j w'"
        and "contents w' j = []"
  using assms(1) unfolding os_Create_def
proof (cases rule: sys_cases)
  case failed
  with that show thesis by auto
next
  case (performed j)
  show thesis
  proof (cases "dirents w tmp")
    case None
    with performed have j: "j = next_ino w" and "w' = snd (fresh_file tmp (tick w))"
      by (auto simp: fresh_file_def)
    then have "tmp_slot w tmp j" "wrote w tmp j w'" "contents w' j = []"
      using None by (auto simp: fresh_file_def tmp_slot_def wrote_def possible_dirs_def)
    with performed(2) that(2) show thesis by blast
  next
    case (Some i)
    with performed have "j = i"
      and "w' = set_inode i ((inodes w i)\<lparr>i_keep := 0, i_cur := []\<rparr>) (tick w)" by auto
    moreover have "dirents w = (dirents w)(tmp \<mapsto> i)" using Some by auto
    ultimately have "tmp_slot w tmp j" "wrote w tmp j w'" "contents w' j = []"
      using Some assms(2) by (auto simp: tmp_slot_def wrote_def entry_ok_def)
    with performed(2) that(2) show thesis by blast
  qed
qed

lemma f_WriteAll_wrote:
  assumes "wrote w tmp j w1" and "f_WriteAll j p w1 = (r, w2)"
  shows "wrote w tmp j w2" and "r = Inr u \<Longrightarrow> contents w2 j = contents w1 j @ p"
  using assms
  by (auto simp: f_WriteAll_def f_Write_def wrote_def Let_def split: fault.splits prod.splits)

lemma f_Sync_wrote:
  assumes "wrote w tmp j w1" and "f_Sync j w1 = (r, w2)"
  shows "wrote w tmp j w2" and "r = Inr u \<Longrightarrow> inodes w2 j = synced_file (contents w1 j)"
  using assms(2,1) by (cases rule: f_Sync_cases; auto simp: wrote_def)+

lemma writeFileSync_cases [consumes 2, case_names untouched partial written]:
  assumes run: "writeFileSync tmp p w = (r, w')"
    and tmp: "entry_ok w tmp"
  obtains (untouched) e where "r = Inl e" and "unchanged w w'"
    | (partial) e j where "r = Inl e" and "tmp_slot w tmp j" and "wrote w tmp j w'"
    | (written) j where "r = Inr ()" and "tmp_slot w tmp j" and "wrote w tmp j w'"
        and "inodes w' j = synced_file p"
  using run unfolding writeFileSync_def
proof (cases rule: bindE_cases)
  case (error e)
  from error(1) tmp that(1) error(2) show thesis by (cases rule: os_Create_cases) auto
next
  case (ok j w1)
  from ok(1) tmp have j: "tmp_slot w tmp j" "wrote w tmp j w1" "contents w1 j = []"
    by (cases rule: os_Create_cases; simp)+
  note later = that(2) [OF _ j(1)]
  from ok(2) show thesis
  proof (cases rule: bindE_cases)
    case (error e)
    from error(1) have "wrote w tmp j w'"
      by (cases rule: onerrE_cases) (auto intro: wrote_Close f_WriteAll_wrote(1) [OF j(2)])
    with later error(2) show thesis by blast
  next
    case (ok u w2)
    from ok(1) have "f_WriteAll j p w1 = (Inr u, w2)" by (cases rule: onerrE_cases) auto
    note w2 = f_WriteAll_wrote [OF j(2) this]
    from ok(2) show thesis
    proof (cases rule: bindE_cases)
      case (error e)
      from error(1) have "wrote w tmp j w'"
        by (cases rule: onerrE_cases) (auto intro: wrote_Close f_Sync_wrote(1) [OF w2(1)])
      with later error(2) show thesis by blast
    next
      case (ok v w3)
      from ok(1) have "f_Sync j w2 = (Inr v, w3)" by (cases rule: onerrE_cases) auto
      note w3 = f_Sync_wrote [OF w2(1) this]
      note cl = f_Close_unchanged [OF ok(2)]
      show thesis
      proof (cases r)
        case (Inl e)
        then show thesis using later wrote_unchanged [OF w3(1) cl] by blast
      next
        case (Inr x)
        have "inodes w' j = synced_file p"
          using w3(2) w2(2) j(3) cl by (simp add: unchanged_def)
        then show thesis using that(3) Inr j(1) wrote_unchanged [OF w3(1) cl] by simp
      qed
    qed
  qed
qed

lemma syncDir_cases [consumes 1, case_names failed synced]:
  assumes "syncDir w = (r, w')"
  obtains (failed) e where "r = Inl e" and "unchanged w w' \<or> unchanged (w\<lparr>past_dirents := []\<rparr>) w'"
    | (synced) "r = Inr ()" and "unchanged (w\<lparr>past_dirents := []\<rparr>) w'"
  using assms unfolding syncDir_def
proof (cases rule: bindE_cases)
  case (error e)
  then show thesis using that(1) unfolding dir_Open_def by (auto elim: sys_cases)
next
  case (ok x w1)
  then have w1: "w1 = tick w" unfolding dir_Open_def by (auto elim: sys_cases)
  obtain r2 w2 where d: "dir_Sync w1 = (r2, w2)" by (metis prod.exhaust)
  show thesis
  proof (cases r2)
    case (Inl e)
    then have "w2 = tick w1" using d unfolding dir_Sync_def by (auto elim: sys_cases)
    moreover have "r = Inl e" "w' = snd (f_Close w2)" using ok(2) d Inl by auto
    ultimately show thesis using that(1) w1 by (metis unchanged_tick unchanged_trans f_Close_snd)
  next
    case (Inr y)
    then have w2: "w2 = (tick w1)\<lparr>past_dirents := []\<rparr>"
      using d unfolding dir_Sync_def by (auto elim: sys_cases)
    have cl: "f_Close w2 = (r, w')" using ok(2) d Inr by auto
    have "unchanged (w\<lparr>past_dirents := []\<rparr>) w'"
      using f_Close_unchanged [OF cl] by (simp add: unchanged_def w1 w2)
    then show thesis using that by (cases r) auto
  qed
qed

section \<open>The installation is atomic\<close>

text \<open>The directory with the new file in place, and the one with only the temporary file.\<close>

definition installed :: "world \<Rightarrow> string \<Rightarrow> string \<Rightarrow> nat \<Rightarrow> string \<rightharpoonup> nat" where
  "installed w tmp final j = (dirents w)(tmp := None, final \<mapsto> j)"

lemma installFile_spec:
  assumes run: "installFile tmp final p w = (r, w')"
    and tmp: "entry_ok w tmp" and ne: "tmp \<noteq> final"
  shows "next_ino w \<le> next_ino w'"
    and "\<exists>j. tmp_slot w tmp j \<and> (\<forall>i. i \<noteq> j \<longrightarrow> inodes w' i = inodes w i) \<and>
      (\<forall>d \<in> set (possible_dirs w'). d \<in> set (possible_dirs w) \<or>
         (j < next_ino w' \<and> d = (dirents w)(tmp \<mapsto> j)) \<or>
         (j < next_ino w' \<and> inodes w' j = synced_file p \<and> d = installed w tmp final j)) \<and>
      (\<forall>i. dirents w' tmp = Some i \<longrightarrow> i = j \<and>
         set (possible_dirs w') \<subseteq> insert ((dirents w)(tmp \<mapsto> j)) (set (possible_dirs w))) \<and>
      (r = Inr () \<longrightarrow> j < next_ino w' \<and> inodes w' j = synced_file p \<and>
         possible_dirs w' = [installed w tmp final j])" (is "\<exists>j. ?P j")
proof -
  have "next_ino w \<le> next_ino w' \<and> (\<exists>j. ?P j)"
    using run unfolding installFile_def
  proof (cases rule: bindE_cases)
    case (error e)
    from error(1) tmp show ?thesis
    proof (cases rule: writeFileSync_cases)
      case (untouched e')
      have "\<exists>j. tmp_slot w tmp j" by (cases "dirents w tmp") (auto simp: tmp_slot_def)
      then obtain j where "tmp_slot w tmp j" ..
      with untouched error(2) show ?thesis
        by (auto simp: unchanged_def possible_dirs_def tmp_slot_def intro!: exI [of _ j])
    next
      case (partial e' j)
      with error(2) show ?thesis by (auto simp: wrote_def intro!: exI [of _ j])
    next
      case (written j)
      then show ?thesis by simp
    qed
  next
    case (ok u w1)
    from ok(1) tmp obtain j where j: "tmp_slot w tmp j" "wrote w tmp j w1" "inodes w1 j = synced_file p"
      by (cases rule: writeFileSync_cases) auto
    from ok(2) show ?thesis
    proof (cases rule: bindE_cases)
      case (error e)
      then have "w' = tick w1" using j(2) by (auto simp: os_Rename_def wrote_def elim: sys_cases)
      with error(2) j show ?thesis by (auto simp: wrote_def intro!: exI [of _ j])
    next
      case (ok v w2)
      then have w2: "w2 = set_dirents (installed w tmp final j) (tick w1)"
        using j(2) ne by (auto simp: os_Rename_def wrote_def installed_def fun_upd_twist elim!: sys_cases)
      from ok(2) show ?thesis
        using j by (cases rule: syncDir_cases)
          (auto simp: w2 wrote_def unchanged_def possible_dirs_def ne installed_def intro!: exI [of _ j])
    qed
  qed
  then show "next_ino w \<le> next_ino w'" and "\<exists>j. ?P j" by auto
qed

end
