(* ===== verification/CmdRecord.thy ===== *)
theory CmdRecord
  imports Prelude
begin

text \<open>
  \<^verbatim>\<open>src/internal/storage/record.go\<close>: the commands of the single-node store and their flat
  byte image \<open>op (1) | keyLen (4, big-endian) | key | value\<close>.
\<close>

section \<open>Commands\<close>

text \<open>
  \<open>OpType\<close> is a \<open>uint8\<close>: the decoder lets every byte through, so the model keeps the byte.
  Go strings are byte sequences, and so are keys here.
\<close>

type_synonym OpType = "8 word"

definition OpPut :: OpType where
  "OpPut = 1"

definition OpDelete :: OpType where
  "OpDelete = 2"

record Command =
  Op :: OpType
  Key :: bytes
  Value :: bytes

text \<open>
  \<open>SlicePanic\<close> is the run-time panic of a slice expression whose bounds are out of order
  or out of range.
\<close>

datatype record_error =
    PayloadTooShort nat
  | KeyLenExceeds u32 nat
  | SlicePanic

section \<open>Encoding and decoding\<close>

definition encodeCommand :: "Command \<Rightarrow> bytes" where
  "encodeCommand c =
     Op c # PutUint32 (word_of_nat (length (Key c))) @ Key c @ Value c"

text \<open>
  \<^verbatim>\<open>payload[5 : 5+keyLen]\<close> and \<^verbatim>\<open>payload[5+keyLen:]\<close> compute \<open>5 + keyLen\<close> in \<open>uint32\<close>, so the
  bound is the wrapped sum \<open>hi\<close>; the slices panic where \<open>hi\<close> is below 5 or past the end.
\<close>

definition decodeCommand :: "bytes \<Rightarrow> record_error + Command" where
  "decodeCommand payload =
     (if length payload < 5 then Inl (PayloadTooShort (length payload))
      else
        let op = payload ! 0;
            keyLen = Uint32 (take 4 (drop 1 payload))
        in if unat keyLen > length payload - 5
           then Inl (KeyLenExceeds keyLen (length payload - 5))
           else
             let hi = unat (5 + keyLen)
             in if hi < 5 \<or> length payload < hi then Inl SlicePanic
                else Inr \<lparr>Op = op, Key = take (hi - 5) (drop 5 payload), Value = drop hi payload\<rparr>)"

section \<open>Properties\<close>

lemma length_encodeCommand [simp, codec_simps]:
  "length (encodeCommand c) = 5 + length (Key c) + length (Value c)"
  by (simp add: encodeCommand_def)

lemma drop_Suc_4_Put: "drop 5 (x # PutUint32 v @ ys) = ys"
  by (simp add: drop_Cons')

lemma unat_5_plus: "5 + unat k < 2 ^ 32 \<Longrightarrow> unat (5 + k :: u32) = 5 + unat k"
  using unat_add_lem [of "5 :: u32" k] by simp

lemma hi_no_wrap:
  assumes "unat k \<le> n - 5" and "5 \<le> n" and "n < 2 ^ 32"
  shows "unat (5 + k :: u32) = 5 + unat k"
  using assms by (intro unat_5_plus) simp

lemma decodeCommand_encode:
  assumes "5 + length (Key c) < 2 ^ 32"
  shows "decodeCommand (encodeCommand c) = Inr c"
proof -
  let ?k = "word_of_nat (length (Key c)) :: u32" and ?p = "encodeCommand c"
  have k: "unat ?k = length (Key c)" using assms by (simp add: unat_u32_of_nat)
  have hi: "unat (5 + ?k) = 5 + length (Key c)"
    using unat_5_plus [of ?k] assms k by simp
  have len: "Uint32 (take 4 (drop 1 ?p)) = ?k"
    by (simp add: encodeCommand_def)
  have op: "?p ! 0 = Op c" by (simp add: encodeCommand_def)
  have rest: "drop 5 ?p = Key c @ Value c"
    by (simp add: encodeCommand_def drop_Suc_4_Put)
  then have key: "take (length (Key c)) (drop 5 ?p) = Key c" by simp
  have "drop (5 + length (Key c)) ?p = drop (length (Key c)) (drop 5 ?p)"
    by (simp add: add.commute)
  then have val: "drop (5 + length (Key c)) ?p = Value c" by (simp add: rest)
  show ?thesis
    unfolding decodeCommand_def Let_def len hi op
    using assms by (simp add: k key val)
qed

lemma encodeCommand_decode:
  assumes "decodeCommand p = Inr c" and "length p < 2 ^ 32"
  shows "encodeCommand c = p"
proof -
  define keyLen where "keyLen = Uint32 (take 4 (drop 1 p))"
  from assms(1) have len: "5 \<le> length p" and klen: "unat keyLen \<le> length p - 5"
    by (auto simp: decodeCommand_def Let_def keyLen_def split: if_splits)
  have hi: "unat (5 + keyLen) = 5 + unat keyLen"
    using hi_no_wrap [OF klen len assms(2)] .
  have c: "c = \<lparr>Op = p ! 0, Key = take (unat keyLen) (drop 5 p), Value = drop (5 + unat keyLen) p\<rparr>"
    using assms(1) hi by (auto simp: decodeCommand_def Let_def keyLen_def split: if_splits)
  have kw: "word_of_nat (length (Key c)) = keyLen"
    using klen by (simp add: c)
  have head: "p = p ! 0 # take 4 (drop 1 p) @ drop 5 p"
    using len by (cases p) (auto simp: append_take_drop_id drop_drop [symmetric] simp del: drop_drop)
  have "PutUint32 keyLen = take 4 (drop 1 p)"
    using PutUint32_Uint32 [of "take 4 (drop 1 p)"] len by (simp add: keyLen_def)
  moreover have "Key c @ Value c = drop 5 p"
    by (simp add: c append_take_drop_id drop_drop [symmetric] add.commute del: drop_drop)
  ultimately show ?thesis
    unfolding encodeCommand_def kw using head by (simp add: c)
qed

lemma decodeCommand_no_panic:
  assumes "length p < 2 ^ 32"
  shows "decodeCommand p \<noteq> Inl SlicePanic"
proof
  assume panic: "decodeCommand p = Inl SlicePanic"
  define keyLen where "keyLen = Uint32 (take 4 (drop 1 p))"
  from panic have len: "5 \<le> length p" and klen: "unat keyLen \<le> length p - 5"
    by (auto simp: decodeCommand_def Let_def keyLen_def split: if_splits)
  have "unat (5 + keyLen) = 5 + unat keyLen"
    using hi_no_wrap [OF klen len assms] .
  with panic len klen show False
    by (auto simp: decodeCommand_def Let_def keyLen_def split: if_splits)
qed

text \<open>
  C31. The record codec is a bijection between commands and well-formed payloads: a command
  whose key length fits the 32-bit field decodes to itself, and whatever decodes from a
  payload below 4 GiB encodes back to exactly that payload, so there is one image per command.
\<close>

theorem record_codec:
  assumes "5 + length (Key c) < 2 ^ 32" and "length p < 2 ^ 32"
  shows "decodeCommand (encodeCommand c) = Inr c \<and> decodeCommand p \<noteq> Inl SlicePanic \<and>
    (decodeCommand p = Inr c' \<longrightarrow> encodeCommand c' = p)"
  using assms decodeCommand_encode encodeCommand_decode decodeCommand_no_panic by auto

theorem record_codec_witness:
  "decodeCommand (encodeCommand \<lparr>Op = OpDelete, Key = [7, 8], Value = []\<rparr>) =
     Inr \<lparr>Op = OpDelete, Key = [7, 8], Value = []\<rparr> \<and>
   decodeCommand [1, 0, 0, 0, 9, 5] \<noteq> Inl SlicePanic"
  using record_codec [of "\<lparr>Op = OpDelete, Key = [7, 8], Value = []\<rparr>" "[1, 0, 0, 0, 9, 5]"]
  by simp

end
