(* ===== verification/Codecs.thy ===== *)
theory Codecs
  imports Prelude "HOL-Library.Finite_Map" "HOL-Library.List_Lexorder"
begin

text \<open>
  Self-delimiting byte codecs that round-trip for all values. The program's own codecs for
  snapshots (gob) and messages (protobuf) come from libraries and are parameters of the
  models that use them; the codecs here instantiate those parameters at concrete inputs.
\<close>

fun put_str :: "bytes \<Rightarrow> bytes" where
  "put_str [] = [0]"
| "put_str (b # bs) = 1 # b # put_str bs"

fun get_str :: "bytes \<Rightarrow> (bytes \<times> bytes) option" where
  "get_str [] = None"
| "get_str [x] = (if x = 0 then Some ([], []) else None)"
| "get_str (x # b # r) =
     (if x = 0 then Some ([], b # r) else map_option (\<lambda>(s, t). (b # s, t)) (get_str r))"

definition put_nat :: "nat \<Rightarrow> bytes" where
  "put_nat n = put_str (replicate n 0)"

definition get_nat :: "bytes \<Rightarrow> (nat \<times> bytes) option" where
  "get_nat bs = map_option (\<lambda>(s, t). (length s, t)) (get_str bs)"

fun put_pairs :: "(bytes \<times> bytes) list \<Rightarrow> bytes" where
  "put_pairs [] = []"
| "put_pairs ((k, v) # ps) = put_str k @ put_str v @ put_pairs ps"

fun get_pairs :: "nat \<Rightarrow> bytes \<Rightarrow> (bytes \<times> bytes) list option" where
  "get_pairs n [] = Some []"
| "get_pairs 0 (b # bs) = None"
| "get_pairs (Suc n) (b # bs) =
     (case get_str (b # bs) of
        None \<Rightarrow> None
      | Some (k, r) \<Rightarrow>
          (case get_str r of
             None \<Rightarrow> None
           | Some (v, r') \<Rightarrow> map_option (Cons (k, v)) (get_pairs n r')))"

definition put_map :: "(bytes, bytes) fmap \<Rightarrow> bytes" where
  "put_map m = put_pairs (sorted_list_of_fmap m)"

definition get_map :: "bytes \<Rightarrow> (bytes, bytes) fmap option" where
  "get_map bs = map_option fmap_of_list (get_pairs (length bs) bs)"

lemma put_str_not_Nil [simp]: "put_str s \<noteq> []"
  by (cases s) auto

lemma get_put_str [simp]: "get_str (put_str s @ r) = Some (s, r)"
proof (induction s)
  case Nil
  then show ?case by (cases r) auto
qed simp

lemma get_put_nat [simp]: "get_nat (put_nat n @ r) = Some (n, r)"
  by (simp add: get_nat_def put_nat_def)

lemma get_pairs_step:
  "bs \<noteq> [] \<Longrightarrow> get_pairs (Suc n) bs =
     (case get_str bs of
        None \<Rightarrow> None
      | Some (k, r) \<Rightarrow>
          (case get_str r of
             None \<Rightarrow> None
           | Some (v, r') \<Rightarrow> map_option (Cons (k, v)) (get_pairs n r')))"
  by (cases bs) auto

lemma get_put_pairs: "length ps \<le> n \<Longrightarrow> get_pairs n (put_pairs ps) = Some ps"
proof (induction ps arbitrary: n)
  case Nil
  then show ?case by simp
next
  case (Cons p ps)
  then obtain k v m where "p = (k, v)" "n = Suc m" "length ps \<le> m" by (cases p; cases n) auto
  with Cons.IH [of m] show ?case by (simp add: get_pairs_step)
qed

lemma length_put_pairs: "length ps \<le> length (put_pairs ps)"
proof (induction ps)
  case (Cons p ps)
  moreover obtain k v where "p = (k, v)" by (cases p)
  moreover have "0 < length (put_str k)" by simp
  ultimately show ?case by (auto simp del: length_greater_0_conv)
qed simp

lemma fmap_of_sorted_list: "fmap_of_list (sorted_list_of_fmap m) = m"
  by (rule fmap_ext) (simp add: fmlookup_of_list)

lemma get_put_map [simp]: "get_map (put_map m) = Some m"
  by (simp add: get_map_def put_map_def get_put_pairs length_put_pairs fmap_of_sorted_list)

end
