(* ===== verification/Store.thy ===== *)
theory Store
  imports Install CmdRecord Codecs
begin

text \<open>
  \<^verbatim>\<open>src/internal/storage/store.go\<close> and \<^verbatim>\<open>snapshot.go\<close>: the durable key-value store, a map in
  memory that is rebuilt from a snapshot file and the log. The snapshot's gob codec is a
  parameter (\<open>enc\<close> and \<open>dec\<close>). The main result is that after any sequence of operations,
  with any system call failing, and a crash at any point, \<open>Open\<close> recovers every
  acknowledged write, in order, and nothing that was not written.
\<close>

section \<open>The store\<close>

definition walFileName :: string where
  "walFileName = ''wal.log''"

definition snapshotFileName :: string where
  "snapshotFileName = ''snapshot.bin''"

definition snapshotTmpName :: string where
  "snapshotTmpName = ''snapshot.tmp''"

type_synonym kvmap = "(bytes, bytes) fmap"

text \<open>A Go map is finite; \<open>st_wal\<close> is \<open>None\<close> once the store was closed (a nil pointer).\<close>

record Store =
  st_data :: kvmap
  st_wal :: "WAL option"

type_synonym sstate = "Store \<times> world"

text \<open>\<open>NilWal\<close> is the panic of a method call on the nil log of a closed store.\<close>

datatype store_error =
    StIO io_error
  | StGob
  | StReplay "record_error replay_error"
  | NilWal

text \<open>\<open>apply\<close>\<close>

definition store_apply :: "Command \<Rightarrow> kvmap \<Rightarrow> kvmap" where
  "store_apply cmd d =
     (if Op cmd = OpPut then fmupd (Key cmd) (Value cmd) d
      else if Op cmd = OpDelete then fmdrop (Key cmd) d
      else d)"

definition loadSnapshot :: "(bytes \<Rightarrow> kvmap option) \<Rightarrow> kvmap \<Rightarrow> (world, store_error, kvmap) io" where
  "loadSnapshot dec data =
     bindE (wrapE StIO (os_Open snapshotFileName)) (\<lambda>f. case f of
         None \<Rightarrow> returnE data
       | Some (bs, rerr) \<Rightarrow>
           if rerr then throwE StGob
           else case dec bs of None \<Rightarrow> throwE StGob | Some snap \<Rightarrow> returnE (data ++\<^sub>f snap))"

text \<open>The callback that \<open>Open\<close> hands to the replay.\<close>

definition replay_fn :: "bytes \<Rightarrow> kvmap \<Rightarrow> record_error option \<times> kvmap" where
  "replay_fn payload d =
     (case decodeCommand payload of
        Inl e \<Rightarrow> (Some e, d)
      | Inr cmd \<Rightarrow> (None, store_apply cmd d))"

definition Open :: "(bytes \<Rightarrow> kvmap option) \<Rightarrow> (world, store_error, Store) io" where
  "Open dec =
     bindE (wrapE StIO os_MkdirAll) (\<lambda>_.
     bindE (loadSnapshot dec fmempty) (\<lambda>data w.
       case replayWAL walFileName replay_fn data w of
         ((validOffset, Some e, _), w') \<Rightarrow> (Inl (StReplay e), w')
       | ((validOffset, None, data'), w') \<Rightarrow>
           bindE (wrapE StIO (cutTail walFileName validOffset)) (\<lambda>_.
           bindE (wrapE StIO (OpenWAL walFileName)) (\<lambda>W.
             returnE \<lparr>st_data = data', st_wal = Some W\<rparr>)) w'))"

definition logAndApply :: "Command \<Rightarrow> (sstate, store_error, unit) io" where
  "logAndApply cmd = (\<lambda>(s, w).
     case st_wal s of
       None \<Rightarrow> (Inl NilWal, (s, w))
     | Some W \<Rightarrow>
         (case bindE (Append (encodeCommand cmd)) (\<lambda>_. Sync) (W, w) of
            (Inl e, (W', w')) \<Rightarrow> (Inl (StIO e), (s\<lparr>st_wal := Some W'\<rparr>, w'))
          | (Inr _, (W', w')) \<Rightarrow>
              (Inr (), (s\<lparr>st_wal := Some W', st_data := store_apply cmd (st_data s)\<rparr>, w'))))"

definition Put :: "bytes \<Rightarrow> bytes \<Rightarrow> (sstate, store_error, unit) io" where
  "Put key val = logAndApply \<lparr>Op = OpPut, Key = key, Value = val\<rparr>"

definition Delete :: "bytes \<Rightarrow> (sstate, store_error, unit) io" where
  "Delete key = logAndApply \<lparr>Op = OpDelete, Key = key, Value = []\<rparr>"

definition Get :: "bytes \<Rightarrow> Store \<Rightarrow> bytes option" where
  "Get key s = fmlookup (st_data s) key"

definition Len :: "Store \<Rightarrow> nat" where
  "Len s = fcard (fmdom (st_data s))"

definition store_Close :: "(sstate, store_error, unit) io" where
  "store_Close = (\<lambda>(s, w).
     case st_wal s of
       None \<Rightarrow> (Inr (), (s, w))
     | Some W \<Rightarrow>
         (case Close (W, w) of
            (Inl e, (_, w')) \<Rightarrow> (Inl (StIO e), (s\<lparr>st_wal := None\<rparr>, w'))
          | (Inr _, (_, w')) \<Rightarrow> (Inr (), (s\<lparr>st_wal := None\<rparr>, w'))))"

section \<open>Snapshots\<close>

text \<open>Steps 2 to 4 of \<open>Snapshot\<close>, on the image of the map.\<close>

definition writeImage :: "bytes \<Rightarrow> (world, io_error, unit) io" where
  "writeImage img = installFile snapshotTmpName snapshotFileName img"

text \<open>Step 5: close the log, cut it to nothing and open it again.\<close>

definition compactWal :: "(sstate, store_error, unit) io" where
  "compactWal = (\<lambda>(s, w).
     case st_wal s of
       None \<Rightarrow> (Inl NilWal, (s, w))
     | Some W \<Rightarrow>
         (case Close (W, w) of
            (Inl e, (W', w1)) \<Rightarrow> (Inl (StIO e), (s\<lparr>st_wal := Some W'\<rparr>, w1))
          | (Inr _, (W', w1)) \<Rightarrow>
              (case bindE (os_Truncate walFileName 0) (\<lambda>_. OpenWAL walFileName) w1 of
                 (Inl e, w2) \<Rightarrow> (Inl (StIO e), (s\<lparr>st_wal := Some W'\<rparr>, w2))
               | (Inr W2, w2) \<Rightarrow> (Inr (), (s\<lparr>st_wal := Some W2\<rparr>, w2)))))"

definition Snapshot :: "(kvmap \<Rightarrow> bytes) \<Rightarrow> (sstate, store_error, unit) io" where
  "Snapshot enc = (\<lambda>(s, w).
     case writeImage (enc (st_data s)) w of
       (Inl e, w1) \<Rightarrow> (Inl (StIO e), (s, w1))
     | (Inr _, w1) \<Rightarrow> compactWal (s, w1))"

section \<open>Replaying commands\<close>

text \<open>Applying a list of commands; commands that touch a key overwrite what was there.\<close>

definition run :: "Command list \<Rightarrow> kvmap \<Rightarrow> kvmap" where
  "run cs d = fold store_apply cs d"

definition touches :: "Command \<Rightarrow> bytes \<Rightarrow> bool" where
  "touches c k \<longleftrightarrow> Key c = k \<and> (Op c = OpPut \<or> Op c = OpDelete)"

lemma run_simps [simp]:
  "run [] d = d" "run (c # cs) d = run cs (store_apply c d)" "run (cs @ cs') d = run cs' (run cs d)"
  by (simp_all add: run_def)

lemma store_apply_lookup:
  "fmlookup (store_apply c d) k =
     (if touches c k then (if Op c = OpPut then Some (Value c) else None) else fmlookup d k)"
  by (auto simp: store_apply_def touches_def OpPut_def OpDelete_def)

lemma run_untouched: "\<forall>c \<in> set cs. \<not> touches c k \<Longrightarrow> fmlookup (run cs d) k = fmlookup d k"
  by (induction cs arbitrary: d) (auto simp: store_apply_lookup)

lemma run_agree:
  assumes "\<And>k. (\<exists>c \<in> set cs. touches c k) \<or> fmlookup d k = fmlookup d' k"
  shows "run cs d = run cs d'"
  using assms
proof (induction cs arbitrary: d d')
  case Nil
  then show ?case by (auto intro: fmap_ext)
next
  case (Cons c cs)
  show ?case
    unfolding run_simps
  proof (rule Cons.IH)
    fix k
    show "(\<exists>c \<in> set cs. touches c k) \<or>
      fmlookup (store_apply c d) k = fmlookup (store_apply c d') k"
      using Cons.prems [of k] by (auto simp: store_apply_lookup)
  qed
qed

text \<open>Replaying commands over a state that already reflects some of them changes nothing.\<close>

lemma run_absorb:
  assumes "set as \<subseteq> set cs"
  shows "run cs (run as d) = run cs d"
proof (rule run_agree)
  fix k
  show "(\<exists>c \<in> set cs. touches c k) \<or> fmlookup (run as d) k = fmlookup d k"
    using assms run_untouched [of as k d] by blast
qed

section \<open>Histories\<close>

text \<open>
  A history lists the commands that callers attempted, each with the outcome the caller saw
  (\<open>True\<close> for success). A state is explained by a history when it results from a selection of
  the attempted commands, in order, that leaves out no acknowledged one.
\<close>

type_synonym history = "(Command \<times> bool) list"

definition attempted :: "history \<Rightarrow> Command list" where
  "attempted h = map fst h"

definition acked :: "history \<Rightarrow> Command list" where
  "acked h = map fst (filter snd h)"

definition selection :: "history \<Rightarrow> Command list \<Rightarrow> bool" where
  "selection h cs \<longleftrightarrow> subseq (acked h) cs \<and> subseq cs (attempted h)"

definition loggable :: "Command \<Rightarrow> bool" where
  "loggable c \<longleftrightarrow> 5 + length (Key c) + length (Value c) < 2 ^ 32"

lemma history_simps [simp]:
  "acked [] = []" "attempted [] = []"
  "acked (h @ h') = acked h @ acked h'" "attempted (h @ h') = attempted h @ attempted h'"
  "acked [(c, True)] = [c]" "acked [(c, False)] = []" "attempted [(c, a)] = [c]"
  by (simp_all add: acked_def attempted_def)

lemma acked_subseq [simp]: "subseq (acked h) (attempted h)"
  by (induction h) (auto simp: acked_def attempted_def)

lemma selection_acked [simp]: "selection h (acked h)"
  by (simp add: selection_def)

lemma selection_append:
  "selection h cs \<Longrightarrow> selection h' cs' \<Longrightarrow> selection (h @ h') (cs @ cs')"
  by (simp add: selection_def list_emb_append_mono)

lemma selection_snoc: "selection h cs \<Longrightarrow> selection (h @ [(c, a)]) (cs @ [c])"
  by (rule selection_append) (cases a; simp add: selection_def)+

lemma selection_skip: "selection h cs \<Longrightarrow> selection (h @ [(c, False)]) cs"
  using selection_append [of h cs "[(c, False)]" "[]"] by (simp add: selection_def)

lemma selection_acked_set: "selection h cs \<Longrightarrow> set (acked h) \<subseteq> set cs"
  by (auto simp: selection_def dest: list_emb_set)

text \<open>
  \<open>good d0 h b rs\<close>: recovering from the snapshot \<open>b\<close> and the log records \<open>rs\<close> gives a state that
  the history explains. The history splits at the point where the log begins: the
  commands before it act through \<open>b\<close>, and where \<open>b\<close> is newer than that point, the replayed
  commands hide the difference.
\<close>

definition good :: "kvmap \<Rightarrow> history \<Rightarrow> kvmap \<Rightarrow> bytes list \<Rightarrow> bool" where
  "good d0 h b rs \<longleftrightarrow>
     (\<exists>h0 h1 cs0 cs. h = h0 @ h1 \<and> selection h0 cs0 \<and> selection h1 cs \<and>
        rs = map encodeCommand cs \<and> list_all loggable cs \<and> run cs b = run cs (run cs0 d0))"

definition settled :: "Command list \<Rightarrow> history" where
  "settled cs = map (\<lambda>c. (c, True)) cs"

lemma acked_settled [simp]: "acked (settled cs) = cs"
  by (simp add: settled_def acked_def comp_def)

lemma settled_append [simp]: "settled (cs @ cs') = settled cs @ settled cs'"
  by (simp add: settled_def)

lemma selection_settled [simp]: "selection (settled cs) cs"
  by (metis acked_settled selection_acked)

lemma goodE:
  assumes "good d0 h b rs"
  obtains cs full where "rs = map encodeCommand cs" and "list_all loggable cs"
    and "selection h full" and "run cs b = run full d0" and "good d0 (settled full) b rs"
proof -
  from assms obtain h0 h1 cs0 cs where *: "h = h0 @ h1" "selection h0 cs0" "selection h1 cs"
    "rs = map encodeCommand cs" "list_all loggable cs" "run cs b = run (cs0 @ cs) d0"
    by (auto simp: good_def)
  have "good d0 (settled (cs0 @ cs)) b rs"
    unfolding good_def using *
    by (intro exI [of _ "settled cs0"] exI [of _ "settled cs"] exI [of _ cs0] exI [of _ cs]) simp
  with that * selection_append show thesis by blast
qed

lemma good_snoc:
  assumes "good d0 h b rs" and "loggable c"
  shows "good d0 (h @ [(c, a)]) b (rs @ [encodeCommand c])"
proof -
  from assms(1) obtain h0 h1 cs0 cs where *: "h = h0 @ h1" "selection h0 cs0" "selection h1 cs"
    "rs = map encodeCommand cs" "list_all loggable cs" "run cs b = run cs (run cs0 d0)"
    by (auto simp: good_def)
  show ?thesis
    unfolding good_def using * assms(2) selection_snoc [of h1 cs c a]
    by (intro exI [of _ h0] exI [of _ "h1 @ [(c, a)]"] exI [of _ cs0] exI [of _ "cs @ [c]"]) simp
qed

lemma good_skip:
  assumes "good d0 h b rs"
  shows "good d0 (h @ [(c, False)]) b rs"
proof -
  from assms obtain h0 h1 cs0 cs where *: "h = h0 @ h1" "selection h0 cs0" "selection h1 cs"
    "rs = map encodeCommand cs" "list_all loggable cs" "run cs b = run cs (run cs0 d0)"
    by (auto simp: good_def)
  show ?thesis
    unfolding good_def using * selection_skip [of h1 cs c]
    by (intro exI [of _ h0] exI [of _ "h1 @ [(c, False)]"] exI [of _ cs0] exI [of _ cs]) simp
qed

text \<open>A snapshot of the current state may replace the old one under the same log.\<close>

lemma good_current:
  assumes "good d0 h b rs"
  shows "good d0 h (run (acked h) d0) rs"
proof -
  from assms obtain h0 h1 cs0 cs where *: "h = h0 @ h1" "selection h1 cs"
    "rs = map encodeCommand cs" "list_all loggable cs" by (auto simp: good_def)
  have "run cs (run (acked h1) (run (acked h0) d0)) = run cs (run (acked h0) d0)"
    by (rule run_absorb [OF selection_acked_set [OF *(2)]])
  with * show ?thesis
    unfolding good_def
    by (intro exI [of _ h0] exI [of _ h1] exI [of _ "acked h0"] exI [of _ cs]) simp
qed

lemma good_empty_log: "good d0 h (run (acked h) d0) []"
  unfolding good_def by (intro exI [of _ h] exI [of _ "[]"] exI [of _ "acked h"])
    (simp add: selection_def)

section \<open>The invariant of the store\<close>

text \<open>
  \<open>image_of dec w d b\<close>: in directory \<open>d\<close> the snapshot file is absent and \<open>b\<close> is empty, or it is
  synced and decodes to \<open>b\<close>. \<open>world_ok dec f G w\<close>: in every directory a crash may leave, the log
  is the file \<open>f\<close>, the other two names are other files, and the snapshot decodes to some \<open>b\<close>
  with \<open>G b\<close>.
\<close>

definition image_of :: "(bytes \<Rightarrow> kvmap option) \<Rightarrow> world \<Rightarrow> (string \<rightharpoonup> nat) \<Rightarrow> kvmap \<Rightarrow> bool" where
  "image_of dec w d b \<longleftrightarrow>
     (case d snapshotFileName of
        None \<Rightarrow> b = fmempty
      | Some i \<Rightarrow> \<exists>c. inodes w i = synced_file c \<and> dec c = Some b)"

definition names_ok :: "nat \<Rightarrow> nat \<Rightarrow> (string \<rightharpoonup> nat) \<Rightarrow> bool" where
  "names_ok f n d \<longleftrightarrow>
     d walFileName = Some f \<and>
     (\<forall>j. d snapshotFileName = Some j \<or> d snapshotTmpName = Some j \<longrightarrow> j \<noteq> f \<and> j < n)"

definition world_ok ::
  "(bytes \<Rightarrow> kvmap option) \<Rightarrow> nat \<Rightarrow> (kvmap \<Rightarrow> bool) \<Rightarrow> world \<Rightarrow> bool" where
  "world_ok dec f G w \<longleftrightarrow>
     f < next_ino w \<and>
     (\<forall>d \<in> set (possible_dirs w). names_ok f (next_ino w) d \<and> (\<exists>b. image_of dec w d b \<and> G b)) \<and>
     (\<forall>d \<in> set (possible_dirs w). \<forall>j. d snapshotTmpName = Some j \<longrightarrow>
        d snapshotFileName \<noteq> Some j) \<and>
     (\<forall>d \<in> set (possible_dirs w). \<forall>j. dirents w snapshotTmpName = Some j \<longrightarrow>
        d snapshotFileName \<noteq> Some j)"

text \<open>Whatever survives of the log, a snapshot \<open>b\<close> with \<open>covers\<close> recovers an explained state.\<close>

definition covers ::
  "kvmap \<Rightarrow> history \<Rightarrow> bytes list \<Rightarrow> bytes list \<Rightarrow> bytes list \<Rightarrow> kvmap \<Rightarrow> bool" where
  "covers d0 h os qs ps b \<longleftrightarrow>
     (\<forall>rs. rs = os \<or> (prefix qs rs \<and> prefix rs ps) \<longrightarrow> good d0 h b rs)"

definition store_inv ::
  "(bytes \<Rightarrow> kvmap option) \<Rightarrow> kvmap \<Rightarrow> history \<Rightarrow> sstate \<Rightarrow> bool" where
  "store_inv dec d0 h = (\<lambda>(s, w).
     st_data s = run (acked h) d0 \<and>
     (\<exists>W os qs ps. st_wal s = Some W \<and> wal_rep (W, w) os qs ps \<and>
        world_ok dec (wal_f W) (covers d0 h os qs ps) w))"

lemma file_names [simp]:
  "snapshotTmpName \<noteq> snapshotFileName" "snapshotFileName \<noteq> snapshotTmpName"
  "walFileName \<noteq> snapshotFileName" "walFileName \<noteq> snapshotTmpName"
  "snapshotFileName \<noteq> walFileName" "snapshotTmpName \<noteq> walFileName"
  by (simp_all add: snapshotTmpName_def snapshotFileName_def walFileName_def)

lemma world_ok_mono: "world_ok dec f G w \<Longrightarrow> (\<And>b. G b \<Longrightarrow> G' b) \<Longrightarrow> world_ok dec f G' w"
  unfolding world_ok_def by metis

lemma world_ok_witness:
  assumes "world_ok dec f G w"
  obtains b where "G b"
  using assms by (auto simp: world_ok_def possible_dirs_def)

lemma world_ok_only_file:
  assumes "world_ok dec f G w" and "only_file f w w'"
  shows "world_ok dec f G w'"
proof -
  have dirs: "possible_dirs w' = possible_dirs w" "dirents w' = dirents w" "next_ino w' = next_ino w"
    using assms(2) by (simp_all add: only_file_def possible_dirs_def)
  have "image_of dec w' d b" if "names_ok f (next_ino w) d" "image_of dec w d b" for d b
    using that assms(2) by (auto simp: image_of_def names_ok_def only_file_def split: option.splits)
  then show ?thesis using assms(1) unfolding world_ok_def dirs by metis
qed

text \<open>The installation of a new image keeps the invariant at every step.\<close>

lemma writeImage_world_ok:
  assumes ok: "world_ok dec f G w" and run: "writeImage img w = (r, w')"
    and img: "dec img = Some b'" and G: "G b'"
  shows "world_ok dec f G w'" and "inodes w' f = inodes w f"
    and "r = Inr () \<Longrightarrow> world_ok dec f (\<lambda>b. b = b') w'"
proof -
  have cur: "dirents w \<in> set (possible_dirs w)" by (simp add: possible_dirs_def)
  from ok cur have ent: "entry_ok w snapshotTmpName"
    by (auto simp: world_ok_def names_ok_def entry_ok_def)
  note spec = installFile_spec [OF run [unfolded writeImage_def] ent file_names(1)]
  from spec(2) obtain j where slot: "tmp_slot w snapshotTmpName j"
    and same: "\<And>i. i \<noteq> j \<Longrightarrow> inodes w' i = inodes w i"
    and dirs: "\<And>d. d \<in> set (possible_dirs w') \<Longrightarrow> d \<in> set (possible_dirs w) \<or>
         (j < next_ino w' \<and> d = (dirents w)(snapshotTmpName \<mapsto> j)) \<or>
         (j < next_ino w' \<and> inodes w' j = synced_file img \<and>
          d = installed w snapshotTmpName snapshotFileName j)"
    and tmp': "\<And>i. dirents w' snapshotTmpName = Some i \<Longrightarrow> i = j \<and>
         set (possible_dirs w') \<subseteq> insert ((dirents w)(snapshotTmpName \<mapsto> j)) (set (possible_dirs w))"
    and final: "r = Inr () \<Longrightarrow> j < next_ino w' \<and> inodes w' j = synced_file img \<and>
         possible_dirs w' = [installed w snapshotTmpName snapshotFileName j]"
    by blast
  have fresh: "j \<noteq> f" "\<And>d. d \<in> set (possible_dirs w) \<Longrightarrow> d snapshotFileName \<noteq> Some j"
    using ok cur slot by (auto simp: world_ok_def names_ok_def tmp_slot_def split: option.splits)
  show f: "inodes w' f = inodes w f" using same fresh(1) by metis
  have old: "names_ok f (next_ino w') d \<and> (\<exists>b. image_of dec w' d b \<and> G b) \<and>
      (\<forall>j. d snapshotTmpName = Some j \<longrightarrow> d snapshotFileName \<noteq> Some j)"
    if d: "d \<in> set (possible_dirs w)" for d
  proof -
    from ok d obtain b where b: "image_of dec w d b" "G b" and n: "names_ok f (next_ino w) d"
      and t: "\<forall>j. d snapshotTmpName = Some j \<longrightarrow> d snapshotFileName \<noteq> Some j"
      unfolding world_ok_def by blast
    have "image_of dec w' d b"
      using b(1) fresh(2) [OF d] same by (auto simp: image_of_def split: option.splits)
    moreover have "names_ok f (next_ino w') d" using n spec(1) by (auto simp: names_ok_def)
    ultimately show ?thesis using b(2) t by blast
  qed
  have tmp: "names_ok f (next_ino w') d \<and> (\<exists>b. image_of dec w' d b \<and> G b) \<and>
      d snapshotTmpName = Some j \<and> d snapshotFileName \<noteq> Some j"
    if "d = (dirents w)(snapshotTmpName \<mapsto> j)" "j < next_ino w'" for d
    using old [OF cur] fresh(2) [OF cur] that fresh(1) by (auto simp: names_ok_def image_of_def)
  have new: "names_ok f (next_ino w') d \<and> image_of dec w' d b' \<and> d snapshotTmpName = None"
    if "d = installed w snapshotTmpName snapshotFileName j" "j < next_ino w'"
      "inodes w' j = synced_file img" for d
    using old [OF cur] that fresh(1) img by (auto simp: names_ok_def image_of_def installed_def)
  have each: "names_ok f (next_ino w') d \<and> (\<exists>b. image_of dec w' d b \<and> G b) \<and>
      (\<forall>j. d snapshotTmpName = Some j \<longrightarrow> d snapshotFileName \<noteq> Some j)"
    if "d \<in> set (possible_dirs w')" for d
    using dirs [OF that] old tmp new G by fastforce
  have cur': "dirents w' \<in> set (possible_dirs w')" by (simp add: possible_dirs_def)
  have tmps: "d snapshotFileName \<noteq> Some i"
    if "d \<in> set (possible_dirs w')" "dirents w' snapshotTmpName = Some i" for d i
    using tmp' [OF that(2)] that(1) fresh(2) fresh(2) [OF cur] by auto
  have bound: "f < next_ino w'" using ok spec(1) by (simp add: world_ok_def)
  show "world_ok dec f G w'" unfolding world_ok_def using bound each tmps by blast
  show "world_ok dec f (\<lambda>b. b = b') w'" if "r = Inr ()"
    using final [OF that] new bound by (auto simp: world_ok_def possible_dirs_def)
qed

lemma loggable_frameable: "loggable c \<Longrightarrow> frameable (encodeCommand c)"
  by (simp add: loggable_def frameable_def)

lemma prefix_between_snoc:
  "prefix rs (ps @ [p]) \<longleftrightarrow> prefix rs ps \<or> rs = ps @ [p]"
  by (auto simp: prefix_snoc)

text \<open>A write keeps the invariant, whether it succeeds or fails.\<close>

lemma logAndApply_inv:
  assumes inv: "store_inv dec d0 h (s, w)" and c: "loggable c"
    and run: "logAndApply c (s, w) = (r, (s', w'))"
  shows "store_inv dec d0 (h @ [(c, r = Inr ())]) (s', w')"
proof -
  from inv obtain W os qs ps where W: "st_wal s = Some W" and rep: "wal_rep (W, w) os qs ps"
    and ok: "world_ok dec (wal_f W) (covers d0 h os qs ps) w"
    and data: "st_data s = run (acked h) d0"
    by (auto simp: store_inv_def)
  obtain r1 W1 w1 where log: "bindE (Append (encodeCommand c)) (\<lambda>_. Sync) (W, w) = (r1, (W1, w1))"
    by (metis prod_cases3)
  note fr = log_frame [OF log]
  have f: "wal_f W1 = wal_f W" using fr(2) by (simp add: same_handle_def)
  note ok1 = world_ok_only_file [OF ok fr(1)]
  have pre: "prefix qs ps" using wal_rep_parts(2) [OF rep] .
  show ?thesis
  proof (cases r1)
    case (Inl e)
    then have r: "r = Inl (StIO e)" "s' = s\<lparr>st_wal := Some W1\<rparr>" "w' = w1"
      using run by (auto simp: logAndApply_def W log)
    have rep1: "wal_rep (W1, w1) os qs (ps @ [encodeCommand c])"
      by (rule wal.log_err [OF rep loggable_frameable [OF c]]) (use log Inl in blast)
    have "world_ok dec (wal_f W1) (covers d0 (h @ [(c, False)]) os qs (ps @ [encodeCommand c])) w1"
      unfolding f using ok1
      by (rule world_ok_mono)
         (auto simp: covers_def prefix_between_snoc pre intro: good_skip good_snoc c)
    with rep1 show ?thesis using data by (auto simp: store_inv_def r)
  next
    case (Inr u)
    then have r: "r = Inr ()" "w' = w1"
      "s' = s\<lparr>st_wal := Some W1, st_data := store_apply c (st_data s)\<rparr>"
      using run by (auto simp: logAndApply_def W log)
    let ?ps = "ps @ [encodeCommand c]"
    have rep1: "wal_rep (W1, w1) ?ps ?ps ?ps"
      by (rule wal.log_ok [OF rep loggable_frameable [OF c]]) (use log Inr in blast)
    have "world_ok dec (wal_f W1) (covers d0 (h @ [(c, True)]) ?ps ?ps ?ps) w1"
      unfolding f using ok1
    proof (rule world_ok_mono)
      fix b
      assume "covers d0 h os qs ps b"
      with pre have "good d0 (h @ [(c, True)]) b ?ps" by (intro good_snoc c) (simp add: covers_def)
      then show "covers d0 (h @ [(c, True)]) ?ps ?ps ?ps b"
        unfolding covers_def by (metis prefix_order.antisym)
    qed
    with rep1 show ?thesis using data by (auto simp: store_inv_def r)
  qed
qed

lemma os_Truncate_cases [consumes 2, case_names failed cut]:
  assumes "os_Truncate name n w = (r, w')" and "dirents w name = Some i"
  obtains (failed) e where "r = Inl e" and "w' = tick w"
    | (cut) "r = Inr ()" and "w' = set_inode i ((inodes w i)\<lparr>i_keep := min n (i_keep (inodes w i)),
             i_cur := take n (contents w i)\<rparr>) (tick w)"
  using assms by (auto simp: os_Truncate_def elim: sys_cases)

lemma OpenWAL_cases [consumes 2, case_names failed opened]:
  assumes "OpenWAL name w = (r, w')" and "dirents w name = Some i"
  obtains (failed) e where "r = Inl e" and "w' = tick w"
    | (opened) "r = Inr \<lparr>wal_f = i, wal_closed = False, wal_buf = [], wal_err = None, wal_path = name\<rparr>"
        and "w' = tick w"
  using assms(1) unfolding OpenWAL_def os_OpenAppend_def
proof (cases rule: bindE_cases)
  case (error e)
  from error(1) error(2) that(1) show thesis by (cases rule: sys_cases) auto
next
  case (ok x w1)
  from ok(1) ok(2) that(2) assms(2) show thesis by (cases rule: sys_cases) auto
qed

lemma compactWal_inv:
  assumes inv: "store_inv dec d0 h (s, w)" and cur: "world_ok dec f (\<lambda>b. b = st_data s) w"
    and run: "compactWal (s, w) = (r, (s', w'))"
  shows "store_inv dec d0 h (s', w')"
proof -
  from inv obtain W os qs ps where W: "st_wal s = Some W" and rep: "wal_rep (W, w) os qs ps"
    and ok: "world_ok dec (wal_f W) (covers d0 h os qs ps) w"
    and data: "st_data s = run (acked h) d0"
    by (auto simp: store_inv_def)
  have "f = wal_f W" using ok cur by (auto simp: world_ok_def possible_dirs_def names_ok_def)
  note cur = cur [unfolded this]
  obtain r1 W1 w1 where cl: "Close (W, w) = (r1, (W1, w1))" by (metis prod_cases3)
  note c = wal_rep_Close [OF rep cl]
  note ok1 = world_ok_only_file [OF ok c(2)] and cur1 = world_ok_only_file [OF cur c(2)]
  have keep: "store_inv dec d0 h (s\<lparr>st_wal := Some W1\<rparr>, w1)"
    using c(1,3) ok1 data by (auto simp: store_inv_def)
  have keep_tick: "store_inv dec d0 h (s\<lparr>st_wal := Some W1\<rparr>, tick w1)"
    using c(1,3) world_ok_only_file [OF ok1 only_file_refl(2)] data by (auto simp: store_inv_def)
  show ?thesis
  proof (cases r1)
    case (Inl e)
    then show ?thesis using run keep by (auto simp: compactWal_def W cl)
  next
    case (Inr u)
    have ent: "dirents w1 walFileName = Some (wal_f W)"
      using cur1 by (auto simp: world_ok_def possible_dirs_def names_ok_def)
    obtain r2 w2 where tr: "os_Truncate walFileName 0 w1 = (r2, w2)" by (metis prod.exhaust)
    from tr ent show ?thesis
    proof (cases rule: os_Truncate_cases)
      case (failed e)
      then show ?thesis using run keep_tick Inr by (auto simp: compactWal_def W cl tr)
    next
      case cut
      have of: "only_file (wal_f W) w1 w2" by (auto simp: cut only_file_def)
      obtain b where "covers d0 h os qs ps b" using ok by (rule world_ok_witness)
      then have g: "covers d0 h os [] [] (st_data s)"
        unfolding data covers_def by (auto intro: good_current good_empty_log)
      have wok: "world_ok dec (wal_f W) (covers d0 h os [] []) w2"
        using world_ok_only_file [OF cur1 of] by (rule world_ok_mono) (use g in auto)
      have rep2: "wal_rep (V, w2) os [] []"
        if "wal_f V = wal_f W" "wal_buf V = []" "wal_err V = None" for V
        using wal_rep_parts(6,7) [OF c(1)] c(3) that by (auto simp: wal_rep_def cut durable_def)
      have i1: "store_inv dec d0 h (s\<lparr>st_wal := Some V\<rparr>, tick w2)"
        if "wal_f V = wal_f W" "wal_buf V = []" "wal_err V = None" for V
        using rep2 [OF that] that(1) world_ok_only_file [OF wok only_file_refl(2)] data
        by (auto simp: store_inv_def)
      have ent2: "dirents w2 walFileName = Some (wal_f W)" using ent by (simp add: cut)
      obtain r3 w3 where op: "OpenWAL walFileName w2 = (r3, w3)" by (metis prod.exhaust)
      from op ent2 show ?thesis
      proof (cases rule: OpenWAL_cases)
        case (failed e)
        then show ?thesis using run i1 [of W1] c(3) c(5) [OF Inr] Inr cut(1) by (auto simp: compactWal_def W cl tr op)
      next
        case opened
        then show ?thesis
          using run Inr cut(1) by (auto simp: compactWal_def W cl tr op intro!: i1)
      qed
    qed
  qed
qed

lemma Snapshot_inv:
  assumes inv: "store_inv dec d0 h (s, w)" and gob: "\<And>m. dec (enc m) = Some m"
    and run: "Snapshot enc (s, w) = (r, (s', w'))"
  shows "store_inv dec d0 h (s', w')"
proof -
  from inv obtain W os qs ps where W: "st_wal s = Some W" and rep: "wal_rep (W, w) os qs ps"
    and ok: "world_ok dec (wal_f W) (covers d0 h os qs ps) w"
    and data: "st_data s = run (acked h) d0"
    by (auto simp: store_inv_def)
  obtain r1 w1 where wi: "writeImage (enc (st_data s)) w = (r1, w1)" by (metis prod.exhaust)
  obtain b where "covers d0 h os qs ps b" using ok by (rule world_ok_witness)
  then have "covers d0 h os qs ps (st_data s)"
    unfolding data covers_def by (blast intro: good_current)
  note wi' = writeImage_world_ok [OF ok wi gob this]
  have inv1: "store_inv dec d0 h (s, w1)"
    using wi'(1) rep data W wal_rep_cong [OF wi'(2)] by (auto simp: store_inv_def)
  show ?thesis
  proof (cases r1)
    case (Inl e)
    then show ?thesis using run inv1 by (auto simp: Snapshot_def wi)
  next
    case (Inr u)
    then show ?thesis
      using run compactWal_inv [OF inv1] wi'(3) by (auto simp: Snapshot_def wi)
  qed
qed

section \<open>Recovery\<close>

lemma run_fn_replay:
  "list_all loggable cs \<Longrightarrow> run_fn replay_fn (map encodeCommand cs) d = (None, run cs d)"
  by (induction cs arbitrary: d) (auto simp: replay_fn_def decodeCommand_encode loggable_def)

text \<open>
  \<open>disk_ok dec cs b w\<close>: what a crash leaves. The snapshot decodes to \<open>b\<close>, the log holds the
  commands \<open>cs\<close> and then a torn tail, everything on disk is synced.
\<close>

definition disk_ok :: "(bytes \<Rightarrow> kvmap option) \<Rightarrow> Command list \<Rightarrow> kvmap \<Rightarrow> world \<Rightarrow> bool" where
  "disk_ok dec cs b w \<longleftrightarrow>
     (\<exists>f t. world_ok dec f (\<lambda>x. x = b) w \<and> past_dirents w = [] \<and> torn t \<and>
        list_all loggable cs \<and> inodes w f = synced_file (frames (map encodeCommand cs) @ t))"

lemma crash_disk_ok:
  assumes inv: "store_inv dec d0 h (s, w)" and cr: "crash w w'"
  obtains cs b full where "disk_ok dec cs b w'" and "selection h full" and "run cs b = run full d0"
    and "good d0 (settled full) b (map encodeCommand cs)"
proof -
  from inv obtain W os qs ps where rep: "wal_rep (W, w) os qs ps"
    and ok: "world_ok dec (wal_f W) (covers d0 h os qs ps) w"
    by (auto simp: store_inv_def)
  let ?f = "wal_f W" and ?d = "dirents w'"
  from wal_crash_contents [OF rep crash_contents [OF cr]] obtain rs t
    where c: "contents w' ?f = frames rs @ t" "torn t"
      and rs: "rs = os \<or> (prefix qs rs \<and> prefix rs ps)" by metis
  have d: "?d \<in> set (possible_dirs w)" by (rule crash_dirents [OF cr])
  with ok obtain b where img: "image_of dec w ?d b" and b: "covers d0 h os qs ps b"
    and n: "names_ok ?f (next_ino w) ?d"
    and t: "\<forall>j. ?d snapshotTmpName = Some j \<longrightarrow> ?d snapshotFileName \<noteq> Some j"
    unfolding world_ok_def by blast
  from b rs have "good d0 h b rs" by (auto simp: covers_def)
  then obtain cs full where cs: "rs = map encodeCommand cs" "list_all loggable cs"
    "selection h full" "run cs b = run full d0" "good d0 (settled full) b rs" by (rule goodE)
  have "image_of dec w' ?d b"
    using img crash_contents [OF cr] crash_inodes [OF cr]
    by (auto simp: image_of_def split: option.splits dest!: crash_file_synced)
       (metis crash_file_synced)
  moreover have dirs: "possible_dirs w' = [?d]" "past_dirents w' = []" "next_ino w' = next_ino w"
    using cr by (simp_all add: crash_def possible_dirs_def)
  ultimately have "world_ok dec ?f (\<lambda>x. x = b) w'"
    using n t ok by (auto simp: world_ok_def)
  moreover have "inodes w' ?f = synced_file (frames (map encodeCommand cs) @ t)"
    using crash_inodes [OF cr, of ?f] c(1) cs(1) by simp
  ultimately have "disk_ok dec cs b w'"
    unfolding disk_ok_def using c(2) cs(2) dirs(2) by blast
  with that cs show thesis by blast
qed

text \<open>Opening such a disk without further faults succeeds and establishes the invariant.\<close>

lemma Open_disk_ok:
  assumes disk: "disk_ok dec cs b w" and nf: "faults w = []" and data: "run cs b = run full d0"
    and good: "good d0 (settled full) b (map encodeCommand cs)"
  obtains s' w' where "Open dec w = (Inr s', w')" and "st_data s' = run full d0"
    and "store_inv dec d0 (settled full) (s', w')"
proof -
  let ?rs = "map encodeCommand cs"
  from disk obtain f t where ok: "world_ok dec f (\<lambda>x. x = b) w" and t: "torn t"
    and cs: "list_all loggable cs" and past: "past_dirents w = []"
    and f: "inodes w f = synced_file (frames ?rs @ t)" by (auto simp: disk_ok_def)
  have fr: "list_all frameable ?rs" using cs by (auto simp: list_all_iff loggable_frameable)
  have ent: "dirents w walFileName = Some f" and img: "image_of dec w (dirents w) b"
    using ok by (auto simp: world_ok_def possible_dirs_def names_ok_def)
  have load: "loadSnapshot dec fmempty w = (Inr b, w)"
    using img nf
    by (auto simp: loadSnapshot_def image_of_def os_Open_def contents_def bindE_def wrapE_def
        split: option.splits)
  have con: "contents w f = frames ?rs @ t" using f by (simp add: contents_def)
  have rep: "replayWAL walFileName replay_fn b w = ((length (frames ?rs), None, run cs b), w)"
    using replay_torn_tail [OF fr t run_fn_replay [OF cs]] nf
    by (simp add: replayWAL_def os_Open_def ent con)
  define w1 where "w1 = (if t = [] then w
    else set_inode f ((inodes w f)\<lparr>i_keep := length (frames ?rs), i_cur := frames ?rs\<rparr>) w)"
  have cut: "cutTail walFileName (length (frames ?rs)) w = (Inr (), w1)"
    using nf by (simp add: cutTail_def os_Stat_def os_Truncate_def ent con w1_def f)
  define W where "W = \<lparr>wal_f = f, wal_closed = False, wal_buf = [], wal_err = None,
    wal_path = walFileName\<rparr>"
  have nf1: "faults w1 = []" "dirents w1 walFileName = Some f" using nf ent by (auto simp: w1_def)
  then have op: "OpenWAL walFileName w1 = (Inr W, w1)"
    by (simp add: OpenWAL_def os_OpenAppend_def W_def bindE_def)
  have "Open dec w = (Inr \<lparr>st_data = run cs b, st_wal = Some W\<rparr>, w1)"
    using nf by (simp add: Open_def os_MkdirAll_def bindE_def wrapE_def load rep cut op)
  moreover have "wal_rep (W, w1) ?rs ?rs ?rs"
    using fr t f by (auto simp: wal_rep_def W_def w1_def durable_def contents_def)
  moreover have "world_ok dec f (covers d0 (settled full) ?rs ?rs ?rs) w1"
  proof (rule world_ok_mono)
    show "world_ok dec f (\<lambda>x. x = b) w1"
      by (rule world_ok_only_file [OF ok]) (simp add: w1_def only_file_def)
    show "covers d0 (settled full) ?rs ?rs ?rs x" if "x = b" for x
      using good unfolding covers_def that by (metis prefix_order.antisym)
  qed
  ultimately show thesis
    using that data by (auto simp: store_inv_def W_def)
qed

section \<open>Lifetimes\<close>

text \<open>A sequence of client operations, with the history the client observes.\<close>

datatype store_op = DoPut bytes bytes | DoDelete bytes | DoSnapshot

fun do_op :: "(kvmap \<Rightarrow> bytes) \<Rightarrow> store_op \<Rightarrow> (sstate, store_error, unit) io" where
  "do_op enc (DoPut k v) = Put k v"
| "do_op enc (DoDelete k) = Delete k"
| "do_op enc DoSnapshot = Snapshot enc"

fun op_history :: "store_op \<Rightarrow> bool \<Rightarrow> history" where
  "op_history (DoPut k v) ok = [(\<lparr>Op = OpPut, Key = k, Value = v\<rparr>, ok)]"
| "op_history (DoDelete k) ok = [(\<lparr>Op = OpDelete, Key = k, Value = []\<rparr>, ok)]"
| "op_history DoSnapshot ok = []"

fun op_ok :: "store_op \<Rightarrow> bool" where
  "op_ok (DoPut k v) \<longleftrightarrow> 5 + length k + length v < 2 ^ 32"
| "op_ok (DoDelete k) \<longleftrightarrow> 5 + length k < 2 ^ 32"
| "op_ok DoSnapshot \<longleftrightarrow> True"

fun do_ops :: "(kvmap \<Rightarrow> bytes) \<Rightarrow> store_op list \<Rightarrow> history \<Rightarrow> sstate \<Rightarrow> history \<times> sstate" where
  "do_ops enc [] h st = (h, st)"
| "do_ops enc (op # ops) h st =
     (case do_op enc op st of (r, st') \<Rightarrow> do_ops enc ops (h @ op_history op (r = Inr ())) st')"

lemma do_op_inv:
  assumes "store_inv dec d0 h st" and "\<And>m. dec (enc m) = Some m" and "op_ok op"
    and "do_op enc op st = (r, st')"
  shows "store_inv dec d0 (h @ op_history op (r = Inr ())) st'"
  using assms
  by (cases st; cases st'; cases op)
     (auto simp: Put_def Delete_def loggable_def intro: logAndApply_inv Snapshot_inv)

lemma do_ops_inv:
  assumes "store_inv dec d0 h st" and "\<And>m. dec (enc m) = Some m" and "list_all op_ok ops"
    and "do_ops enc ops h st = (h', st')"
  shows "store_inv dec d0 h' st'"
  using assms(1,3,4)
proof (induction ops arbitrary: h st)
  case Nil
  then show ?case by simp
next
  case (Cons op ops)
  obtain r st1 where op: "do_op enc op st = (r, st1)" by (metis prod.exhaust)
  have "store_inv dec d0 (h @ op_history op (r = Inr ())) st1"
    by (rule do_op_inv [OF Cons.prems(1) assms(2) _ op]) (use Cons.prems(2) in simp)
  then show ?case by (rule Cons.IH) (use Cons.prems op in simp_all)
qed

text \<open>A formatted directory: an empty log whose entry is durable.\<close>

definition formatted :: "fault list \<Rightarrow> world" where
  "formatted fs = \<lparr>inodes = (\<lambda>_. synced_file []), next_ino = 1,
     dirents = [walFileName \<mapsto> 0], past_dirents = [], faults = fs\<rparr>"

definition fresh_store :: Store where
  "fresh_store = \<lparr>st_data = fmempty, st_wal = Some \<lparr>wal_f = 0, wal_closed = False, wal_buf = [],
     wal_err = None, wal_path = walFileName\<rparr>\<rparr>"

lemma fresh_store_inv: "store_inv dec fmempty [] (fresh_store, formatted fs)"
proof -
  have "covers fmempty [] [] [] [] fmempty"
    using good_empty_log [of fmempty "[]"] by (simp add: covers_def)
  then have w: "world_ok dec 0 (covers fmempty [] [] [] []) (formatted fs)"
    by (auto simp: world_ok_def formatted_def possible_dirs_def names_ok_def image_of_def)
  have r: "wal_rep (the (st_wal fresh_store), formatted fs) [] [] []"
    by (simp add: wal_rep_def fresh_store_def formatted_def contents_def durable_def)
  from w r show ?thesis by (auto simp: store_inv_def fresh_store_def)
qed


lemma logAndApply_healthy:
  assumes "st_wal s = Some W" and "healthy (W, w)"
  obtains W' w' where "logAndApply c (s, w) =
      (Inr (), (s\<lparr>st_wal := Some W', st_data := store_apply c (st_data s)\<rparr>, w'))"
    and "healthy (W', w')"
proof -
  obtain s1 where "bindE (Append (encodeCommand c)) (\<lambda>_. Sync) (W, w) = (Inr (), s1)"
    and "healthy s1" using assms(2) by (rule healthy_log)
  with that assms(1) show thesis by (cases s1) (auto simp: logAndApply_def)
qed

lemma fresh_store_healthy:
  "st_wal fresh_store = Some (the (st_wal fresh_store))"
  "healthy (the (st_wal fresh_store), formatted [])"
  by (simp_all add: fresh_store_def formatted_def healthy_def)


text \<open>
  A healthy store accepts writes, and reads see them: on a disk that works, \<open>Put\<close> succeeds,
  the store stays healthy, \<open>Get\<close> returns the value, and no other key changes.
\<close>

theorem store_put_get:
  assumes "st_wal s = Some W" and "healthy (W, w)"
  shows "\<exists>s' w' W'. Put k v (s, w) = (Inr (), (s', w')) \<and> st_wal s' = Some W' \<and> healthy (W', w') \<and>
    (\<forall>k'. Get k' s' = (if k' = k then Some v else Get k' s))"
proof -
  let ?c = "\<lparr>Op = OpPut, Key = k, Value = v\<rparr>"
  obtain W' w' where log: "logAndApply ?c (s, w) =
      (Inr (), (s\<lparr>st_wal := Some W', st_data := store_apply ?c (st_data s)\<rparr>, w'))"
    and h: "healthy (W', w')" using assms by (rule logAndApply_healthy)
  show ?thesis
    using h by (auto simp: Put_def log Get_def store_apply_lookup touches_def)
qed

theorem store_put_get_witness:
  "\<exists>s' w'. Put [1] [2] (fresh_store, formatted []) = (Inr (), (s', w')) \<and>
     Get [1] s' = Some [2] \<and> Get [3] s' = None"
proof -
  have "Get [3] fresh_store = None" by (simp add: Get_def fresh_store_def)
  with store_put_get [OF fresh_store_healthy, of "[1]" "[2]"] show ?thesis by force
qed

lemma be_put_0: "be_put k 0 = replicate k 0"
  by (induction k) (simp_all add: replicate_append_same)

text \<open>
  C32. A log that ends in zero bytes cannot be opened. A file system may extend a file with
  zeros when it crashes; eight of them are a valid frame of length 0, because the checksum
  of nothing is 0. The replay hands that empty payload to the decoder, which rejects it,
  and \<open>Open\<close> returns the error on every attempt instead of cutting the tail.
\<close>

theorem open_zero_tail_fails:
  assumes "dirents w snapshotFileName = None" and "dirents w walFileName = Some f"
    and "contents w f = frames (map encodeCommand cs) @ replicate 8 0 @ rest"
    and "list_all loggable cs" and "faults w = []"
  shows "Open dec w = (Inl (StReplay (FnError (PayloadTooShort 0))), w)"
proof -
  let ?rs = "map encodeCommand cs"
  have fr: "list_all frameable ?rs" using assms(4) by (auto simp: list_all_iff loggable_frameable)
  have z: "replicate 8 (0 :: 8 word) = frame []"
    by (simp add: frame_def frameHeader_def PutUint32_def be_put_0 flip: replicate_add)
  have "replay_loop replay_fn False (frames ?rs @ replicate 8 0 @ rest) 0 fmempty =
      replay_loop replay_fn False (frame [] @ rest) (length (frames ?rs)) (run cs fmempty)"
    unfolding z using replay_loop_frames [OF fr run_fn_replay [OF assms(4)]] by simp
  also have "\<dots> = (length (frames ?rs), Some (FnError (PayloadTooShort 0)), run cs fmempty)"
    by (simp add: replay_loop_frame frameable_def replay_fn_def decodeCommand_def)
  finally have loop: "replay_loop replay_fn False (frames ?rs @ replicate 8 0 @ rest) 0 fmempty = \<dots>" .
  have load: "loadSnapshot dec fmempty w = (Inr fmempty, w)"
    using assms by (simp add: loadSnapshot_def os_Open_def bindE_def wrapE_def)
  have "replayWAL walFileName replay_fn fmempty w =
      ((length (frames ?rs), Some (FnError (PayloadTooShort 0)), run cs fmempty), w)"
    using assms loop by (simp add: replayWAL_def os_Open_def)
  then show ?thesis
    using assms by (simp add: Open_def os_MkdirAll_def bindE_def wrapE_def load)
qed

theorem open_zero_tail_fails_witness:
  "Open get_map ((formatted [])\<lparr>inodes := (\<lambda>_. synced_file (replicate 8 0))\<rparr>) =
     (Inl (StReplay (FnError (PayloadTooShort 0))),
      (formatted [])\<lparr>inodes := (\<lambda>_. synced_file (replicate 8 0))\<rparr>)"
  using open_zero_tail_fails [of "(formatted [])\<lparr>inodes := (\<lambda>_. synced_file (replicate 8 0))\<rparr>"
    0 "[]" "[]" get_map]
  by (simp add: formatted_def contents_def)

definition blank_dir :: world where
  "blank_dir = \<lparr>inodes = (\<lambda>_. synced_file []), next_ino = 0, dirents = Map.empty,
     past_dirents = [], faults = []\<rparr>"

text \<open>
  C33. The log's own directory entry is not synced. In an empty directory \<open>Open\<close> creates the log
  but syncs no directory, so a crash can undo the creation: every write acknowledged before
  the first \<open>Snapshot\<close> can be lost, and the next \<open>Open\<close> starts with an empty store.
\<close>

theorem unsynced_log_entry_loses_writes:
  "\<exists>s w s1 w1 w2 s3 w3. Open dec blank_dir = (Inr s, w) \<and> Put k v (s, w) = (Inr (), (s1, w1)) \<and>
     Get k s1 = Some v \<and> crash w1 w2 \<and> Open dec w2 = (Inr s3, w3) \<and> Get k s3 = None"
proof -
  let ?W = "\<lparr>wal_f = 0, wal_closed = False, wal_buf = [], wal_err = None, wal_path = walFileName\<rparr>"
  let ?s = "\<lparr>st_data = fmempty, st_wal = Some ?W\<rparr>"
  define fresh where "fresh w = snd (fresh_file walFileName w)" for w
  have open_empty: "Open dec w = (Inr \<lparr>st_data = fmempty, st_wal = Some (?W\<lparr>wal_f := next_ino w\<rparr>)\<rparr>, fresh w)"
    if "dirents w = Map.empty" "faults w = []" for w
    using that by (simp add: Open_def os_MkdirAll_def loadSnapshot_def os_Open_def replayWAL_def
        cutTail_def os_Stat_def OpenWAL_def os_OpenAppend_def fresh_file_def fresh_def bindE_def wrapE_def)
  have s: "Open dec blank_dir = (Inr ?s, fresh blank_dir)"
    using open_empty [of blank_dir] by (simp add: blank_dir_def)
  have h: "healthy (?W, fresh blank_dir)" by (simp add: healthy_def fresh_def fresh_file_def blank_dir_def)
  obtain W1 w1 where log: "logAndApply \<lparr>Op = OpPut, Key = k, Value = v\<rparr> (?s, fresh blank_dir) =
      (Inr (), (?s\<lparr>st_wal := Some W1, st_data := store_apply \<lparr>Op = OpPut, Key = k, Value = v\<rparr> (st_data ?s)\<rparr>, w1))"
    by (rule logAndApply_healthy [of ?s ?W "fresh blank_dir"]) (use h in simp_all)
  then have put: "Put k v (?s, fresh blank_dir) =
      (Inr (), (?s\<lparr>st_wal := Some W1, st_data := fmupd k v fmempty\<rparr>, w1))"
    by (simp add: Put_def store_apply_def)
  have "only_file 0 (fresh blank_dir) w1"
    using put log_frame(1) [of _ ?W] by (auto simp: Put_def logAndApply_def split: prod.splits sum.splits)
  then have "Map.empty \<in> set (possible_dirs w1)"
    by (simp add: only_file_def possible_dirs_def fresh_def fresh_file_def blank_dir_def)
  define w2 where "w2 = (clean_crash w1)\<lparr>dirents := Map.empty\<rparr>"
  have cr: "crash w1 w2"
    using crash_clean [of w1] \<open>Map.empty \<in> _\<close>
    by (auto simp: crash_def w2_def clean_crash_def contents_def)
  have "Open dec w2 = (Inr \<lparr>st_data = fmempty, st_wal = Some (?W\<lparr>wal_f := next_ino w2\<rparr>)\<rparr>, fresh w2)"
    by (rule open_empty) (simp_all add: w2_def clean_crash_def)
  with s put cr show ?thesis by (auto simp: Get_def)
qed

end
