(* ===== verification/KvCommand.thy ===== *)
theory KvCommand
  imports Prelude
begin

text \<open>
  \<^verbatim>\<open>src/internal/kv/command.go\<close>: the commands of the replicated key-value machine and their
  byte image \<open>op (1) | clientLen (4) | client | requestId (8) | keyLen (4) | key | expectLen (4) | expect | value\<close>,
  all numbers big-endian. Go strings and byte slices are byte lists; a nil slice is the
  empty list.
\<close>

section \<open>Commands\<close>

type_synonym OpType_kv = "8 word"

definition OpGet :: OpType_kv where
  "OpGet = 1"

definition OpPut_kv :: OpType_kv where
  "OpPut_kv = 2"

definition OpCAS :: OpType_kv where
  "OpCAS = 3"

definition OpCheckpoint :: OpType_kv where
  "OpCheckpoint = 4"

record Command_kv =
  kv_Op :: OpType_kv
  ClientID :: bytes
  RequestID :: u64
  kv_Key :: bytes
  kv_Value :: bytes
  Expect :: bytes

record ApplyResult =
  Found :: bool
  ar_Value :: bytes
  Duplicate :: bool

definition noResult :: ApplyResult where
  "noResult = \<lparr>Found = False, ar_Value = [], Duplicate = False\<rparr>"

text \<open>The bytes of the string \<^verbatim>\<open>"_checkpoint/"\<close>.\<close>

definition checkpointPrefix :: bytes where
  "checkpointPrefix = [95, 99, 104, 101, 99, 107, 112, 111, 105, 110, 116, 47]"

definition checkpointKey :: "bytes \<Rightarrow> bytes" where
  "checkpointKey clientID = checkpointPrefix @ clientID"

section \<open>Encoding and decoding\<close>

definition Encode :: "Command_kv \<Rightarrow> bytes" where
  "Encode cmd =
     kv_Op cmd # PutUint32 (word_of_nat (length (ClientID cmd))) @ ClientID cmd @
     PutUint64 (RequestID cmd) @
     PutUint32 (word_of_nat (length (kv_Key cmd))) @ kv_Key cmd @
     PutUint32 (word_of_nat (length (Expect cmd))) @ Expect cmd @ kv_Value cmd"

datatype decode_error =
    CommandTooShort nat
  | TruncatedClientLen
  | TruncatedClient
  | TruncatedKeyLen
  | TruncatedKey
  | TruncatedExpectLen
  | TruncatedExpect

text \<open>
  The lengths are converted to \<open>int\<close>, which has 64 bits, so the sums do not wrap. \<open>off\<close> is
  the cursor of the code; each stage of the decoder is the code up to the next field.
\<close>

definition decodeExpect :: "bytes \<Rightarrow> nat \<Rightarrow> OpType_kv \<Rightarrow> bytes \<Rightarrow> u64 \<Rightarrow> bytes \<Rightarrow> decode_error + Command_kv" where
  "decodeExpect payload off op clientID requestID key =
     (if off + 4 > length payload then Inl TruncatedExpectLen
      else
        let expectLen = unat (Uint32 (drop off payload)); off2 = off + 4
        in if off2 + expectLen > length payload then Inl TruncatedExpect
           else Inr \<lparr>kv_Op = op, ClientID = clientID, RequestID = requestID, kv_Key = key,
                     kv_Value = drop (off2 + expectLen) payload,
                     Expect = take expectLen (drop off2 payload)\<rparr>)"

definition decodeKey :: "bytes \<Rightarrow> nat \<Rightarrow> OpType_kv \<Rightarrow> bytes \<Rightarrow> u64 \<Rightarrow> decode_error + Command_kv" where
  "decodeKey payload off op clientID requestID =
     (if off + 4 > length payload then Inl TruncatedKeyLen
      else
        let keyLen = unat (Uint32 (drop off payload)); off2 = off + 4
        in if off2 + keyLen + 4 > length payload then Inl TruncatedKey
           else decodeExpect payload (off2 + keyLen) op clientID requestID (take keyLen (drop off2 payload)))"

definition Decode :: "bytes \<Rightarrow> decode_error + Command_kv" where
  "Decode payload =
     (if length payload < 1 + 4 + 8 + 4 + 4 then Inl (CommandTooShort (length payload))
      else
        let op = payload ! 0; off = 1
        in if off + 4 > length payload then Inl TruncatedClientLen
           else
             let clientLen = unat (Uint32 (drop off payload)); off2 = off + 4
             in if off2 + clientLen + 8 + 4 > length payload then Inl TruncatedClient
                else
                  let clientID = take clientLen (drop off2 payload); off3 = off2 + clientLen;
                      requestID = Uint64 (drop off3 payload)
                  in decodeKey payload (off3 + 8) op clientID requestID)"

section \<open>Properties\<close>

text \<open>A command whose variable fields fit their 32-bit lengths.\<close>

definition fits :: "Command_kv \<Rightarrow> bool" where
  "fits cmd \<longleftrightarrow> length (ClientID cmd) < 2 ^ 32 \<and> length (kv_Key cmd) < 2 ^ 32 \<and> length (Expect cmd) < 2 ^ 32"

lemma length_Encode [simp, codec_simps]:
  "length (Encode cmd) =
     21 + length (ClientID cmd) + length (kv_Key cmd) + length (Expect cmd) + length (kv_Value cmd)"
  by (simp add: Encode_def)

lemma drop_exact: "n = length xs \<Longrightarrow> drop n (xs @ ys) = ys"
  by simp

lemma decodeExpect_parts:
  assumes "payload = pre @ PutUint32 (word_of_nat (length ex)) @ ex @ v" and "off = length pre" and "length ex < 2 ^ 32"
  shows "decodeExpect payload off op c r k =
    Inr \<lparr>kv_Op = op, ClientID = c, RequestID = r, kv_Key = k, kv_Value = v, Expect = ex\<rparr>"
proof -
  have e: "unat (Uint32 (drop off payload)) = length ex" using assms by (simp add: unat_u32_of_nat)
  have "drop (off + 4) payload = ex @ v" by (simp add: assms(1,2))
  moreover have "drop (off + 4 + length ex) payload = v" by (simp add: assms(1,2))
  ultimately show ?thesis
    unfolding decodeExpect_def Let_def e using assms by simp
qed

lemma decodeKey_parts:
  assumes "payload = pre @ PutUint32 (word_of_nat (length k)) @ k @ PutUint32 (word_of_nat (length ex)) @ ex @ v"
    and "off = length pre" and "length k < 2 ^ 32" and "length ex < 2 ^ 32"
  shows "decodeKey payload off op c r =
    Inr \<lparr>kv_Op = op, ClientID = c, RequestID = r, kv_Key = k, kv_Value = v, Expect = ex\<rparr>"
proof -
  have e: "unat (Uint32 (drop off payload)) = length k" using assms by (simp add: unat_u32_of_nat)
  have d: "drop (off + 4) payload = k @ PutUint32 (word_of_nat (length ex)) @ ex @ v"
    by (simp add: assms(1,2))
  have "decodeExpect payload (off + 4 + length k) op c r k =
      Inr \<lparr>kv_Op = op, ClientID = c, RequestID = r, kv_Key = k, kv_Value = v, Expect = ex\<rparr>"
    by (rule decodeExpect_parts [of _ "pre @ PutUint32 (word_of_nat (length k)) @ k"]) (use assms in simp_all)
  then show ?thesis
    unfolding decodeKey_def Let_def e d using assms(1,2) by simp
qed

lemma Decode_Encode:
  assumes "fits cmd"
  shows "Decode (Encode cmd) = Inr cmd"
proof -
  let ?p = "Encode cmd" and ?n = "length (ClientID cmd)"
  have p: "?p = (kv_Op cmd # PutUint32 (word_of_nat ?n)) @ ClientID cmd @ PutUint64 (RequestID cmd) @
      PutUint32 (word_of_nat (length (kv_Key cmd))) @ kv_Key cmd @
      PutUint32 (word_of_nat (length (Expect cmd))) @ Expect cmd @ kv_Value cmd"
    by (simp add: Encode_def)
  have e: "unat (Uint32 (drop 1 ?p)) = ?n" using assms by (simp add: Encode_def fits_def unat_u32_of_nat)
  have d: "drop 5 ?p = ClientID cmd @ PutUint64 (RequestID cmd) @
      PutUint32 (word_of_nat (length (kv_Key cmd))) @ kv_Key cmd @
      PutUint32 (word_of_nat (length (Expect cmd))) @ Expect cmd @ kv_Value cmd"
    unfolding p by (rule drop_exact) simp
  have "drop (5 + ?n) ?p = drop ?n (drop 5 ?p)" by (simp add: add.commute)
  then have r: "Uint64 (drop (5 + ?n) ?p) = RequestID cmd" unfolding d by simp
  have k: "decodeKey ?p (5 + ?n + 8) (kv_Op cmd) (ClientID cmd) (RequestID cmd) =
      Inr \<lparr>kv_Op = kv_Op cmd, ClientID = ClientID cmd, RequestID = RequestID cmd, kv_Key = kv_Key cmd,
           kv_Value = kv_Value cmd, Expect = Expect cmd\<rparr>"
    by (rule decodeKey_parts [of _ "(kv_Op cmd # PutUint32 (word_of_nat ?n)) @ ClientID cmd @ PutUint64 (RequestID cmd)"])
      (use assms p in \<open>simp_all add: fits_def\<close>)
  have "?p ! 0 = kv_Op cmd" by (simp add: Encode_def)
  then show ?thesis
    unfolding Decode_def Let_def using e d r k by simp
qed


lemma PutUint64_Uint64: "8 \<le> length bs \<Longrightarrow> PutUint64 (Uint64 bs) = take 8 bs"
proof -
  assume len: "8 \<le> length bs"
  then have "be_get (take 8 bs) < 2 ^ 64" using be_get_bound [of "take 8 bs"] by simp
  then have "unat (Uint64 bs) = be_get (take 8 bs)" by (simp add: Uint64_def unat_of_nat)
  then show ?thesis using be_put_get [of "take 8 bs"] len by (simp add: PutUint64_def)
qed

text \<open>A length field and what it announces, taken off the front of a buffer.\<close>

lemma field_split:
  assumes "4 + unat (Uint32 bs) \<le> length bs"
  shows "bs = PutUint32 (word_of_nat (length (take (unat (Uint32 bs)) (drop 4 bs)))) @
    take (unat (Uint32 bs)) (drop 4 bs) @ drop (4 + unat (Uint32 bs)) bs"
proof -
  let ?n = "unat (Uint32 bs)"
  have "length (take ?n (drop 4 bs)) = ?n" using assms by simp
  then have "PutUint32 (word_of_nat (length (take ?n (drop 4 bs)))) = take 4 bs"
    using PutUint32_Uint32 [of bs] assms by simp
  moreover have "take ?n (drop 4 bs) @ drop (4 + ?n) bs = drop 4 bs"
    by (simp add: append_take_drop_id drop_drop [symmetric] add.commute del: drop_drop)
  ultimately show ?thesis by simp
qed

lemma decodeExpect_Inr:
  assumes "decodeExpect payload off op c r k = Inr cmd"
  shows "kv_Op cmd = op \<and> ClientID cmd = c \<and> RequestID cmd = r \<and> kv_Key cmd = k \<and> length (Expect cmd) < 2 ^ 32 \<and>
    drop off payload = PutUint32 (word_of_nat (length (Expect cmd))) @ Expect cmd @ kv_Value cmd"
proof -
  let ?b = "drop off payload"
  have le: "4 + unat (Uint32 ?b) \<le> length ?b" and
    cmd: "cmd = \<lparr>kv_Op = op, ClientID = c, RequestID = r, kv_Key = k, kv_Value = drop (4 + unat (Uint32 ?b)) ?b,
      Expect = take (unat (Uint32 ?b)) (drop 4 ?b)\<rparr>"
    using assms by (auto simp: decodeExpect_def Let_def add.assoc add.commute [of _ off] split: if_splits)
  show ?thesis using field_split [OF le] unat_Uint32_less [of ?b] by (simp add: cmd)
qed

lemma decodeKey_Inr:
  assumes "decodeKey payload off op c r = Inr cmd"
  shows "kv_Op cmd = op \<and> ClientID cmd = c \<and> RequestID cmd = r \<and> length (kv_Key cmd) < 2 ^ 32 \<and> length (Expect cmd) < 2 ^ 32 \<and>
    drop off payload = PutUint32 (word_of_nat (length (kv_Key cmd))) @ kv_Key cmd @
      PutUint32 (word_of_nat (length (Expect cmd))) @ Expect cmd @ kv_Value cmd"
proof -
  let ?b = "drop off payload"
  have le: "4 + unat (Uint32 ?b) \<le> length ?b" and
    e: "decodeExpect payload (off + 4 + unat (Uint32 ?b)) op c r (take (unat (Uint32 ?b)) (drop 4 ?b)) = Inr cmd"
    using assms by (auto simp: decodeKey_def Let_def add.commute split: if_splits)
  have "drop (off + 4 + unat (Uint32 ?b)) payload = drop (4 + unat (Uint32 ?b)) ?b" by (simp add: ac_simps)
  then show ?thesis
    using field_split [OF le] decodeExpect_Inr [OF e] unat_Uint32_less [of ?b] by auto
qed

lemma Encode_Decode:
  assumes "Decode p = Inr cmd"
  shows "Encode cmd = p" and "fits cmd"
proof -
  let ?n = "unat (Uint32 (drop 1 p))"
  have len: "5 + ?n + 12 \<le> length p" and
    k: "decodeKey p (5 + ?n + 8) (p ! 0) (take ?n (drop 5 p)) (Uint64 (drop (5 + ?n) p)) = Inr cmd"
    using assms by (auto simp: Decode_def Let_def split: if_splits)
  note d = decodeKey_Inr [OF k]
  have le: "4 + ?n \<le> length (drop 1 p)" using len by simp
  have "PutUint64 (Uint64 (drop (5 + ?n) p)) = take 8 (drop (5 + ?n) p)" using len by (intro PutUint64_Uint64) simp
  then have "drop (5 + ?n) p = PutUint64 (RequestID cmd) @ drop (5 + ?n + 8) p"
    using d append_take_drop_id [of 8 "drop (5 + ?n) p"] by (simp add: add.commute)
  moreover have "drop 1 p = PutUint32 (word_of_nat (length (ClientID cmd))) @ ClientID cmd @ drop (5 + ?n) p"
    using field_split [OF le] d by (simp add: ac_simps)
  moreover have "p = kv_Op cmd # drop 1 p" using d len by (cases p) auto
  ultimately show "Encode cmd = p" unfolding Encode_def using d by metis
  have "length (ClientID cmd) < 2 ^ 32" using d unat_Uint32_less [of "drop 1 p"] by simp
  then show "fits cmd" using d by (simp add: fits_def)
qed

text \<open>
  C23. The command codec is exact: a command whose fields fit their length fields decodes to
  itself, a payload decodes only to a command that encodes to exactly that payload, and a
  payload shorter than the fixed fields is refused.
\<close>

theorem command_codec:
  assumes "fits cmd" and "length q < 21"
  shows "Decode (Encode cmd) = Inr cmd \<and> (Decode p = Inr cmd' \<longleftrightarrow> fits cmd' \<and> Encode cmd' = p) \<and>
    Decode q = Inl (CommandTooShort (length q))"
  using assms Decode_Encode Encode_Decode [of p cmd'] by (auto simp: Decode_def)

theorem command_codec_witness:
  "Decode (Encode \<lparr>kv_Op = OpCAS, ClientID = [1], RequestID = 7, kv_Key = [2], kv_Value = [3, 4], Expect = [5]\<rparr>) =
     Inr \<lparr>kv_Op = OpCAS, ClientID = [1], RequestID = 7, kv_Key = [2], kv_Value = [3, 4], Expect = [5]\<rparr> \<and>
   Decode [1, 2] = Inl (CommandTooShort 2)"
  using command_codec [of "\<lparr>kv_Op = OpCAS, ClientID = [1], RequestID = 7, kv_Key = [2], kv_Value = [3, 4], Expect = [5]\<rparr>" "[1, 2]"]
  by (simp add: fits_def)

end
