(* ===== verification/KvMachine.thy ===== *)
theory KvMachine
  imports KvCommand "HOL-Library.Finite_Map"
begin

text \<open>
  \<^verbatim>\<open>src/internal/kv/machine.go\<close>: the deterministic key-value machine every node applies its
  committed commands to, with the table of results that makes retries harmless, the sweep
  that bounds this table, watchers, and snapshots. The mutex is not modelled: every method
  is one atomic step.
\<close>

declare fmfilter_cong [cong del]

section \<open>State\<close>

record DedupKey =
  dk_Client :: bytes
  dk_RequestID :: u64

definition dedupWindow :: u64 where
  "dedupWindow = 128"

definition dedupHighWater :: nat where
  "dedupHighWater = 16384"

definition dedupSweepEvery :: u64 where
  "dedupSweepEvery = 1024"

record WatchEvent =
  we_Key :: bytes
  we_Value :: bytes
  we_Found :: bool

text \<open>A buffered channel: its capacity and what waits in it.\<close>

record channel =
  ch_cap :: nat
  ch_buf :: "WatchEvent list"

text \<open>
  Channels are references in Go; here they are addresses into \<open>chans\<close>.
\<close>

record Machine =
  m_data :: "(bytes, bytes) fmap"
  m_applied :: "(DedupKey, ApplyResult) fmap"
  m_maxReq :: "(bytes, u64) fmap"
  applyCount :: u64
  watchers :: "bytes \<Rightarrow> nat list"
  chans :: "nat \<Rightarrow> channel"

text \<open>The machine is created with no watchers; the channels are those of the process.\<close>

definition NewMachine :: "(nat \<Rightarrow> channel) \<Rightarrow> Machine" where
  "NewMachine cs =
     \<lparr>m_data = fmempty, m_applied = fmempty, m_maxReq = fmempty, applyCount = 0,
      watchers = (\<lambda>_. []), chans = cs\<rparr>"

text \<open>Indexing a Go map of numbers: a missing key reads as zero.\<close>

definition goGet :: "('k, u64) fmap \<Rightarrow> 'k \<Rightarrow> u64" where
  "goGet m k = (case fmlookup m k of None \<Rightarrow> 0 | Some v \<Rightarrow> v)"

section \<open>Applying commands\<close>

text \<open>A send in a \<open>select\<close> with a default: what does not fit is dropped.\<close>

definition trySend :: "WatchEvent \<Rightarrow> channel \<Rightarrow> channel" where
  "trySend ev c = (if length (ch_buf c) < ch_cap c then c\<lparr>ch_buf := ch_buf c @ [ev]\<rparr> else c)"

definition notifyLocked :: "bytes \<Rightarrow> bytes \<Rightarrow> bool \<Rightarrow> Machine \<Rightarrow> Machine" where
  "notifyLocked key value found m =
     m\<lparr>chans := fold (\<lambda>a cs. cs(a := trySend \<lparr>we_Key = key, we_Value = value, we_Found = found\<rparr> (cs a)))
                 (watchers m key) (chans m)\<rparr>"

definition set_data :: "bytes \<Rightarrow> bytes \<Rightarrow> Machine \<Rightarrow> Machine" where
  "set_data k v m = m\<lparr>m_data := fmupd k v (m_data m)\<rparr>"

text \<open>The switch of \<open>Apply\<close>.\<close>

definition execute :: "Command_kv \<Rightarrow> Machine \<Rightarrow> ApplyResult \<times> Machine" where
  "execute cmd m =
     (if kv_Op cmd = OpGet then
        (case fmlookup (m_data m) (kv_Key cmd) of
           None \<Rightarrow> (noResult, m)
         | Some v \<Rightarrow> (noResult\<lparr>Found := True, ar_Value := v\<rparr>, m))
      else if kv_Op cmd = OpPut_kv then
        (noResult\<lparr>Found := True,
           ar_Value := (case fmlookup (m_data m) (kv_Key cmd) of None \<Rightarrow> [] | Some prev \<Rightarrow> prev)\<rparr>,
         notifyLocked (kv_Key cmd) (kv_Value cmd) True (set_data (kv_Key cmd) (kv_Value cmd) m))
      else if kv_Op cmd = OpCAS then
        (case fmlookup (m_data m) (kv_Key cmd) of
           None \<Rightarrow>
             if Expect cmd \<noteq> [] then (noResult, m)
             else (noResult\<lparr>Found := True\<rparr>,
                   notifyLocked (kv_Key cmd) (kv_Value cmd) True (set_data (kv_Key cmd) (kv_Value cmd) m))
         | Some cur \<Rightarrow>
             if cur = Expect cmd
             then (noResult\<lparr>Found := True, ar_Value := cur\<rparr>,
                   notifyLocked (kv_Key cmd) (kv_Value cmd) True (set_data (kv_Key cmd) (kv_Value cmd) m))
             else (noResult\<lparr>ar_Value := cur\<rparr>, m))
      else if kv_Op cmd = OpCheckpoint then
        (noResult\<lparr>Found := True, ar_Value := kv_Value cmd\<rparr>,
         set_data (checkpointKey (ClientID cmd)) (kv_Value cmd) m)
      else (noResult, m))"

definition sweepDedupLocked :: "Machine \<Rightarrow> Machine" where
  "sweepDedupLocked m =
     m\<lparr>m_applied :=
         fmfilter (\<lambda>k. \<not> dk_RequestID k + dedupWindow < goGet (m_maxReq m) (dk_Client k)) (m_applied m)\<rparr>"

definition identified :: "Command_kv \<Rightarrow> bool" where
  "identified cmd \<longleftrightarrow> ClientID cmd \<noteq> [] \<and> RequestID cmd \<noteq> 0"

definition dedupKey :: "Command_kv \<Rightarrow> DedupKey" where
  "dedupKey cmd = \<lparr>dk_Client = ClientID cmd, dk_RequestID = RequestID cmd\<rparr>"

text \<open>The bookkeeping at the end of \<open>Apply\<close>.\<close>

definition remember :: "Command_kv \<Rightarrow> ApplyResult \<Rightarrow> Machine \<Rightarrow> Machine" where
  "remember cmd res m =
     (let m1 = m\<lparr>m_applied := fmupd (dedupKey cmd) (res\<lparr>Duplicate := False\<rparr>) (m_applied m)\<rparr>;
          m2 = (if RequestID cmd > goGet (m_maxReq m1) (ClientID cmd)
                then m1\<lparr>m_maxReq := fmupd (ClientID cmd) (RequestID cmd) (m_maxReq m1)\<rparr> else m1);
          m3 = m2\<lparr>applyCount := applyCount m2 + 1\<rparr>
      in if dedupHighWater \<le> fcard (fmdom (m_applied m3)) \<and> applyCount m3 mod dedupSweepEvery = 0
         then sweepDedupLocked m3 else m3)"

definition Apply :: "Command_kv \<Rightarrow> Machine \<Rightarrow> ApplyResult \<times> Machine" where
  "Apply cmd m =
     (case (if identified cmd then fmlookup (m_applied m) (dedupKey cmd) else None) of
        Some prev \<Rightarrow> (prev\<lparr>Duplicate := True\<rparr>, m)
      | None \<Rightarrow>
          (case execute cmd m of
             (res, m1) \<Rightarrow> (res, if identified cmd then remember cmd res m1 else m1)))"

section \<open>Reads and watchers\<close>

definition machine_Get :: "bytes \<Rightarrow> Machine \<Rightarrow> bytes \<times> bool" where
  "machine_Get key m =
     (case fmlookup (m_data m) key of None \<Rightarrow> ([], False) | Some v \<Rightarrow> (v, True))"

definition Watch :: "bytes \<Rightarrow> nat \<Rightarrow> Machine \<Rightarrow> Machine" where
  "Watch key ch m = m\<lparr>watchers := (watchers m)(key := watchers m key @ [ch])\<rparr>"

definition Unwatch :: "bytes \<Rightarrow> nat \<Rightarrow> Machine \<Rightarrow> Machine" where
  "Unwatch key ch m = m\<lparr>watchers := (watchers m)(key := remove1 ch (watchers m key))\<rparr>"

section \<open>Snapshots\<close>

text \<open>
  The gob codec is a library: a parameter. \<open>None\<close> is its error. A nil map decodes as the
  empty map, which is what \<open>Restore\<close> puts in its place.
\<close>

record snapshotData =
  sd_Data :: "(bytes, bytes) fmap"
  sd_Applied :: "(DedupKey, ApplyResult) fmap"
  sd_MaxReq :: "(bytes, u64) fmap"
  sd_ApplyCount :: u64

record gob =
  gobEncode :: "snapshotData \<Rightarrow> bytes option"
  gobDecode :: "bytes \<Rightarrow> snapshotData option"

definition copyResult :: "ApplyResult \<Rightarrow> ApplyResult" where
  "copyResult v =
     (if ar_Value v \<noteq> [] then \<lparr>Found = Found v, ar_Value = ar_Value v, Duplicate = False\<rparr> else v)"

definition machine_Snapshot :: "gob \<Rightarrow> Machine \<Rightarrow> bytes option" where
  "machine_Snapshot g m =
     gobEncode g \<lparr>sd_Data = m_data m, sd_Applied = fmmap copyResult (m_applied m),
       sd_MaxReq = m_maxReq m, sd_ApplyCount = applyCount m\<rparr>"

definition Restore :: "gob \<Rightarrow> bytes \<Rightarrow> Machine \<Rightarrow> Machine option" where
  "Restore g raw m =
     (case gobDecode g raw of
        None \<Rightarrow> None
      | Some s \<Rightarrow>
          Some (m\<lparr>m_data := sd_Data s, m_applied := sd_Applied s, m_maxReq := sd_MaxReq s,
                  applyCount := sd_ApplyCount s\<rparr>))"

section \<open>Histories\<close>

text \<open>The results of a list of commands, in order, and the machine after them.\<close>

primrec applyAll :: "Command_kv list \<Rightarrow> Machine \<Rightarrow> ApplyResult list \<times> Machine" where
  "applyAll [] m = ([], m)"
| "applyAll (c # cs) m =
     (case Apply c m of (r, m1) \<Rightarrow> (case applyAll cs m1 of (rs, m2) \<Rightarrow> (r # rs, m2)))"

lemma applyAll_append:
  "applyAll (as @ bs) m = (fst (applyAll as m) @ fst (applyAll bs (snd (applyAll as m))),
     snd (applyAll bs (snd (applyAll as m))))"
  by (induction as arbitrary: m) (simp_all add: split_beta)

lemma applyAll_Cons:
  "applyAll (c # cs) m = (fst (Apply c m) # fst (applyAll cs (snd (Apply c m))), snd (applyAll cs (snd (Apply c m))))"
  by (simp add: split_beta)

section \<open>The replicated part of the state\<close>

text \<open>
  Watchers are local to a node; everything else is replicated. Two machines agree when
  their replicated parts are equal.
\<close>

definition agree :: "Machine \<Rightarrow> Machine \<Rightarrow> bool" where
  "agree m m' \<longleftrightarrow> m_data m = m_data m' \<and> m_applied m = m_applied m' \<and> m_maxReq m = m_maxReq m' \<and>
     applyCount m = applyCount m'"

lemma notify_simps [simp]:
  "m_data (notifyLocked k v f m) = m_data m" "m_applied (notifyLocked k v f m) = m_applied m"
  "m_maxReq (notifyLocked k v f m) = m_maxReq m" "applyCount (notifyLocked k v f m) = applyCount m"
  "watchers (notifyLocked k v f m) = watchers m"
  by (simp_all add: notifyLocked_def)

lemma set_data_simps [simp]:
  "m_data (set_data k v m) = fmupd k v (m_data m)" "m_applied (set_data k v m) = m_applied m"
  "m_maxReq (set_data k v m) = m_maxReq m" "applyCount (set_data k v m) = applyCount m"
  "watchers (set_data k v m) = watchers m" "chans (set_data k v m) = chans m"
  by (simp_all add: set_data_def)

lemma execute_frame [simp]:
  "m_applied (snd (execute cmd m)) = m_applied m" "m_maxReq (snd (execute cmd m)) = m_maxReq m"
  "applyCount (snd (execute cmd m)) = applyCount m" "watchers (snd (execute cmd m)) = watchers m"
  by (simp_all add: execute_def split: option.split)

lemma execute_Duplicate [simp]: "\<not> Duplicate (fst (execute cmd m))"
  by (simp add: execute_def noResult_def split: option.split)

lemma sweep_simps [simp]:
  "m_data (sweepDedupLocked m) = m_data m" "m_maxReq (sweepDedupLocked m) = m_maxReq m"
  "applyCount (sweepDedupLocked m) = applyCount m" "watchers (sweepDedupLocked m) = watchers m"
  by (simp_all add: sweepDedupLocked_def)

lemma remember_simps [simp]:
  "m_data (remember cmd r m) = m_data m" "applyCount (remember cmd r m) = applyCount m + 1"
  "watchers (remember cmd r m) = watchers m"
  by (simp_all add: remember_def Let_def)

lemma goGet_upd [simp]: "goGet (fmupd k v m) x = (if x = k then v else goGet m x)"
  by (simp add: goGet_def)

lemma remember_maxReq:
  "goGet (m_maxReq (remember cmd r m)) c =
     (if c = ClientID cmd then max (goGet (m_maxReq m) c) (RequestID cmd) else goGet (m_maxReq m) c)"
  by (auto simp: remember_def Let_def max_def)

text \<open>The pure effect of a command on the data, and its result.\<close>

definition effect :: "Command_kv \<Rightarrow> (bytes, bytes) fmap \<Rightarrow> ApplyResult \<times> (bytes, bytes) fmap" where
  "effect cmd d = (fst (execute cmd ((NewMachine (\<lambda>_. \<lparr>ch_cap = 0, ch_buf = []\<rparr>))\<lparr>m_data := d\<rparr>)),
     m_data (snd (execute cmd ((NewMachine (\<lambda>_. \<lparr>ch_cap = 0, ch_buf = []\<rparr>))\<lparr>m_data := d\<rparr>))))"

lemma effect_Duplicate [simp]: "\<not> Duplicate (fst (effect cmd d))"
  by (simp add: effect_def)

lemma execute_effect:
  "fst (execute cmd m) = fst (effect cmd (m_data m))" "m_data (snd (execute cmd m)) = snd (effect cmd (m_data m))"
  by (simp_all add: effect_def execute_def split: option.split)

lemma agree_refl [simp]: "agree m m"
  by (simp add: agree_def)

lemma agree_remember: "agree m m' \<Longrightarrow> agree (remember cmd r m) (remember cmd r m')"
  by (simp add: agree_def remember_def Let_def sweepDedupLocked_def)

lemma agree_execute:
  assumes "agree m m'"
  shows "fst (execute cmd m) = fst (execute cmd m')" and "agree (snd (execute cmd m)) (snd (execute cmd m'))"
  using assms by (simp_all add: agree_def execute_effect)

lemma agree_Apply:
  assumes "agree m m'"
  shows "fst (Apply cmd m) = fst (Apply cmd m')" and "agree (snd (Apply cmd m)) (snd (Apply cmd m'))"
proof -
  have a: "m_applied m = m_applied m'" using assms by (simp add: agree_def)
  show "fst (Apply cmd m) = fst (Apply cmd m')"
    unfolding Apply_def a using agree_execute(1) [OF assms, of cmd] by (simp add: split_beta split: option.split)
  show "agree (snd (Apply cmd m)) (snd (Apply cmd m'))"
    unfolding Apply_def a using assms agree_execute [OF assms, of cmd]
    by (auto simp: split_beta intro: agree_remember split: option.split)
qed

lemma agree_applyAll:
  assumes "agree m m'"
  shows "fst (applyAll cs m) = fst (applyAll cs m') \<and> agree (snd (applyAll cs m)) (snd (applyAll cs m'))"
  using assms
proof (induction cs arbitrary: m m')
  case (Cons c cs)
  show ?case
    using Cons.IH [OF agree_Apply(2) [OF Cons.prems, of c]] agree_Apply(1) [OF Cons.prems, of c]
    by (simp only: applyAll_Cons fst_conv snd_conv)
qed simp

end
