(* ===== verification/KvSessions.thy ===== *)
theory KvSessions
  imports KvMachine
begin

text \<open>
  What the replicated machine promises its clients: an abstract service that runs every
  request once and answers its retries from a memory that never forgets, the refinement of
  this service by the machine with its bounded table, the bound on the table, and the
  equality of a machine restored from a snapshot with the one that took it.
\<close>

section \<open>The abstract service\<close>

type_synonym service = "(bytes, bytes) fmap \<times> (DedupKey \<rightharpoonup> ApplyResult)"

definition serve :: "Command_kv \<Rightarrow> service \<Rightarrow> ApplyResult \<times> service" where
  "serve cmd = (\<lambda>(d, R).
     if identified cmd then
       (case R (dedupKey cmd) of
          Some r \<Rightarrow> (r\<lparr>Duplicate := True\<rparr>, (d, R))
        | None \<Rightarrow> (fst (effect cmd d), (snd (effect cmd d), R(dedupKey cmd \<mapsto> fst (effect cmd d)))))
     else (fst (effect cmd d), (snd (effect cmd d), R)))"

primrec serveAll :: "Command_kv list \<Rightarrow> service \<Rightarrow> ApplyResult list \<times> service" where
  "serveAll [] s = ([], s)"
| "serveAll (c # cs) s =
     (case serve c s of (r, s1) \<Rightarrow> (case serveAll cs s1 of (rs, s2) \<Rightarrow> (r # rs, s2)))"

text \<open>
  \<open>windowed mx cs\<close>: no request of \<open>cs\<close> comes more than the window behind the newest request
  its client has made so far, and no request number is within the window of \<open>2^64\<close>.
\<close>

primrec windowed :: "(bytes \<Rightarrow> u64) \<Rightarrow> Command_kv list \<Rightarrow> bool" where
  "windowed mx [] \<longleftrightarrow> True"
| "windowed mx (c # cs) \<longleftrightarrow>
     (if identified c
      then unat (mx (ClientID c)) \<le> unat (RequestID c) + 128 \<and> unat (RequestID c) + 128 < 2 ^ 64 \<and>
        windowed (mx(ClientID c := max (mx (ClientID c)) (RequestID c))) cs
      else windowed mx cs)"

section \<open>Refinement\<close>

text \<open>
  The table holds what the service remembers, except for requests that fell behind the
  window.
\<close>

definition behind :: "Machine \<Rightarrow> DedupKey \<Rightarrow> bool" where
  "behind m k \<longleftrightarrow> unat (dk_RequestID k) + 128 < unat (goGet (m_maxReq m) (dk_Client k))"

definition serves :: "Machine \<Rightarrow> service \<Rightarrow> bool" where
  "serves m s \<longleftrightarrow> m_data m = fst s \<and>
     (\<forall>k. fmlookup (m_applied m) k = snd s k \<or> fmlookup (m_applied m) k = None \<and> behind m k) \<and>
     (\<forall>k r. snd s k = Some r \<longrightarrow>
        unat (dk_RequestID k) + 128 < 2 ^ 64 \<and> dk_RequestID k \<le> goGet (m_maxReq m) (dk_Client k))"

lemma servesD:
  assumes "serves m s"
  shows "m_data m = fst s" and "fmlookup (m_applied m) k = snd s k \<or> fmlookup (m_applied m) k = None \<and> behind m k"
    and "snd s k = Some r \<Longrightarrow> unat (dk_RequestID k) + 128 < 2 ^ 64"
    and "snd s k = Some r \<Longrightarrow> dk_RequestID k \<le> goGet (m_maxReq m) (dk_Client k)"
  using assms by (auto simp: serves_def)

lemma unat_window:
  assumes "unat (x :: u64) + 128 < 2 ^ 64"
  shows "unat (x + dedupWindow) = unat x + 128"
  using assms unat_add_lem [of x dedupWindow] by (simp add: dedupWindow_def)

lemma serves_sweep:
  assumes "serves m s"
  shows "serves (sweepDedupLocked m) s"
proof -
  have "fmlookup (m_applied (sweepDedupLocked m)) k = snd s k \<or>
      fmlookup (m_applied (sweepDedupLocked m)) k = None \<and> behind (sweepDedupLocked m) k" for k
  proof (cases "fmlookup (m_applied m) k")
    case None
    then show ?thesis using servesD(2) [OF assms, of k] by (simp add: sweepDedupLocked_def behind_def)
  next
    case (Some r)
    then have k: "snd s k = Some r" using servesD(2) [OF assms, of k] by simp
    have "unat (dk_RequestID k + dedupWindow) = unat (dk_RequestID k) + 128"
      using servesD(3) [OF assms k] by (rule unat_window)
    then show ?thesis using Some k by (simp add: sweepDedupLocked_def behind_def word_less_nat_alt)
  qed
  then show ?thesis using assms by (simp add: serves_def)
qed

lemma behind_mono: "behind m k \<Longrightarrow> goGet (m_maxReq m) (dk_Client k) \<le> goGet (m_maxReq m') (dk_Client k) \<Longrightarrow> behind m' k"
  by (simp add: behind_def word_le_nat_alt)

lemma serves_remember:
  assumes "serves m s" and "unat (RequestID cmd) + 128 < 2 ^ 64" and "\<not> Duplicate r"
  shows "serves (remember cmd r m) (fst s, (snd s)(dedupKey cmd \<mapsto> r))"
proof -
  let ?s = "(fst s, (snd s)(dedupKey cmd \<mapsto> r))"
  define m1 where "m1 = m\<lparr>m_applied := fmupd (dedupKey cmd) (r\<lparr>Duplicate := False\<rparr>) (m_applied m)\<rparr>"
  define m2 where "m2 = (if RequestID cmd > goGet (m_maxReq m1) (ClientID cmd)
    then m1\<lparr>m_maxReq := fmupd (ClientID cmd) (RequestID cmd) (m_maxReq m1)\<rparr> else m1)"
  define m3 where "m3 = m2\<lparr>applyCount := applyCount m2 + 1\<rparr>"
  have r: "r\<lparr>Duplicate := False\<rparr> = r" using assms(3) by (cases r) simp
  have "behind m3 k" if "behind m k" for k
    by (rule behind_mono [OF that]) (auto simp: m3_def m2_def m1_def)
  then have "serves m3 ?s"
    using assms(1,2) r by (auto simp: serves_def m3_def m2_def m1_def dedupKey_def split: if_splits)
  then show ?thesis
    using serves_sweep [of m3 ?s] unfolding remember_def Let_def m1_def [symmetric] m2_def [symmetric] m3_def [symmetric]
    by simp
qed

lemma serves_execute:
  assumes "serves m s"
  shows "serves (snd (execute cmd m)) (snd (effect cmd (fst s)), snd s)" and "fst (execute cmd m) = fst (effect cmd (fst s))"
  using assms by (simp_all add: serves_def execute_effect behind_def)

lemma serves_step:
  assumes "serves m s" and "windowed (goGet (m_maxReq m)) (c # cs)"
  shows "fst (Apply c m) = fst (serve c s) \<and> serves (snd (Apply c m)) (snd (serve c s)) \<and>
    windowed (goGet (m_maxReq (snd (Apply c m)))) cs"
proof (cases "identified c")
  case False
  then show ?thesis
    using assms(2) serves_execute [OF assms(1), of c] by (simp add: Apply_def serve_def split_beta)
next
  case True
  have w: "unat (goGet (m_maxReq m) (ClientID c)) \<le> unat (RequestID c) + 128" "unat (RequestID c) + 128 < 2 ^ 64"
    and cs: "windowed ((goGet (m_maxReq m))(ClientID c := max (goGet (m_maxReq m) (ClientID c)) (RequestID c))) cs"
    using assms(2) True by simp_all
  have look: "fmlookup (m_applied m) (dedupKey c) = snd s (dedupKey c)"
    using servesD(2) [OF assms(1), of "dedupKey c"] w(1) by (simp add: behind_def dedupKey_def)
  show ?thesis
  proof (cases "snd s (dedupKey c)")
    case None
    let ?m = "remember c (fst (execute c m)) (snd (execute c m))"
    have "goGet (m_maxReq ?m) = (goGet (m_maxReq m))(ClientID c := max (goGet (m_maxReq m) (ClientID c)) (RequestID c))"
      by (rule ext) (simp add: remember_maxReq)
    moreover have "serves ?m (snd (effect c (fst s)), (snd s)(dedupKey c \<mapsto> fst (execute c m)))"
      using serves_remember [OF serves_execute(1) [OF assms(1), of c] w(2) execute_Duplicate] by simp
    ultimately show ?thesis
      using None look True cs serves_execute(2) [OF assms(1), of c] by (simp add: Apply_def serve_def split_beta)
  next
    case (Some r)
    have "RequestID c \<le> goGet (m_maxReq m) (ClientID c)"
      using servesD(4) [OF assms(1) Some] by (simp add: dedupKey_def)
    then have "(goGet (m_maxReq m))(ClientID c := max (goGet (m_maxReq m) (ClientID c)) (RequestID c)) = goGet (m_maxReq m)"
      by (intro ext) (simp add: max_absorb1)
    then show ?thesis
      using Some look True cs assms(1) by (simp add: Apply_def serve_def split_beta)
  qed
qed

lemma serves_all:
  assumes "serves m s" and "windowed (goGet (m_maxReq m)) (cs @ ds)"
  shows "fst (applyAll cs m) = fst (serveAll cs s) \<and> serves (snd (applyAll cs m)) (snd (serveAll cs s)) \<and>
    windowed (goGet (m_maxReq (snd (applyAll cs m)))) ds"
  using assms
proof (induction cs arbitrary: m s)
  case (Cons c cs)
  note step = serves_step [OF Cons.prems(1) Cons.prems(2) [unfolded append_Cons]]
  from step Cons.IH [of "snd (Apply c m)" "snd (serve c s)"] show ?case by (simp add: split_beta)
qed simp

lemma serve_remembers: "snd s k = Some r \<Longrightarrow> snd (snd (serve c s)) k = Some r"
  by (auto simp: serve_def split_beta split: option.split)

lemma serveAll_remembers: "snd s k = Some r \<Longrightarrow> snd (snd (serveAll cs s)) k = Some r"
proof (induction cs arbitrary: s)
  case (Cons c cs)
  from Cons.IH [OF serve_remembers [OF Cons.prems], of c] show ?case by (simp add: split_beta)
qed simp

lemma serve_records:
  assumes "identified c"
  obtains r where "snd (snd (serve c s)) (dedupKey c) = Some r" and "r\<lparr>Duplicate := True\<rparr> = (fst (serve c s))\<lparr>Duplicate := True\<rparr>"
  using assms by (cases "snd s (dedupKey c)") (auto simp: serve_def split_beta)

lemma serves_NewMachine [simp]: "serves (NewMachine cs) (fmempty, Map.empty)"
  by (simp add: serves_def NewMachine_def)

lemma goGet_NewMachine [simp]: "goGet (m_maxReq (NewMachine cs)) = (\<lambda>_. 0)"
  by (rule ext) (simp add: NewMachine_def goGet_def)

text \<open>
  C10. Exactly once. A history in which no client goes back more than the window gives, on the
  machine with its bounded table, the results and the data of the service that remembers
  every request: each request has its effect once, and every retry gets the answer of the
  first execution, marked as a duplicate.
\<close>

theorem machine_serves_once:
  assumes "windowed (\<lambda>_. 0) cmds"
  shows "fst (applyAll cmds (NewMachine cs)) = fst (serveAll cmds (fmempty, Map.empty)) \<and>
    m_data (snd (applyAll cmds (NewMachine cs))) = fst (snd (serveAll cmds (fmempty, Map.empty)))"
  using serves_all [OF serves_NewMachine, of cs cmds "[]"] assms servesD(1) by auto

definition put_cmd :: "nat \<Rightarrow> byte \<Rightarrow> Command_kv" where
  "put_cmd r v = \<lparr>kv_Op = OpPut_kv, ClientID = [65], RequestID = word_of_nat r, kv_Key = [1], kv_Value = [v], Expect = []\<rparr>"

definition no_chan :: "nat \<Rightarrow> channel" where
  "no_chan a = \<lparr>ch_cap = 0, ch_buf = []\<rparr>"

lemma serve_puts:
  "serveAll [put_cmd 1 7, put_cmd 2 8, put_cmd 1 7] (fmempty, Map.empty) =
     ([\<lparr>Found = True, ar_Value = [], Duplicate = False\<rparr>, \<lparr>Found = True, ar_Value = [7], Duplicate = False\<rparr>,
       \<lparr>Found = True, ar_Value = [], Duplicate = True\<rparr>],
      (fmupd [1] [8] (fmupd [1] [7] fmempty),
       [dedupKey (put_cmd 1 7) \<mapsto> \<lparr>Found = True, ar_Value = [], Duplicate = False\<rparr>,
        dedupKey (put_cmd 2 8) \<mapsto> \<lparr>Found = True, ar_Value = [7], Duplicate = False\<rparr>]))"
  by (simp add: put_cmd_def serve_def identified_def effect_def execute_def dedupKey_def OpPut_kv_def OpGet_def
      noResult_def NewMachine_def)

theorem machine_serves_once_witness:
  "fmlookup (m_data (snd (applyAll [put_cmd 1 7, put_cmd 2 8, put_cmd 1 7] (NewMachine no_chan)))) [1] = Some [8]"
proof -
  have "windowed (\<lambda>_. 0) [put_cmd 1 7, put_cmd 2 8, put_cmd 1 7]" by (simp add: put_cmd_def identified_def)
  from machine_serves_once [OF this, of no_chan] show ?thesis unfolding serve_puts by simp
qed

text \<open>
  C11. A retry within the window is answered from the table: whatever was applied in between,
  the repeated request changes nothing at all and gets the first answer again.
\<close>

theorem retry_changes_nothing:
  assumes "windowed (\<lambda>_. 0) (pre @ cmd # post @ [cmd])" and "identified cmd"
    and "m = snd (applyAll (pre @ cmd # post) (NewMachine cs))"
  shows "Apply cmd m = ((fst (Apply cmd (snd (applyAll pre (NewMachine cs)))))\<lparr>Duplicate := True\<rparr>, m)"
proof -
  let ?m0 = "snd (applyAll pre (NewMachine cs))" and ?s0 = "snd (serveAll pre (fmempty, Map.empty))"
  let ?m1 = "snd (Apply cmd ?m0)" and ?s1 = "snd (serve cmd ?s0)"
  have 0: "serves ?m0 ?s0" "windowed (goGet (m_maxReq ?m0)) (cmd # post @ [cmd])"
    using serves_all [OF serves_NewMachine, of cs pre "cmd # post @ [cmd]"] assms(1) by auto
  note 1 = serves_step [OF 0]
  have m: "m = snd (applyAll post ?m1)" by (simp add: assms(3) applyAll_append split_beta)
  have 2: "serves m (snd (serveAll post ?s1))" "windowed (goGet (m_maxReq m)) [cmd]"
    unfolding m using serves_all [of ?m1 ?s1 post "[cmd]"] 1 by auto
  obtain r where r: "snd ?s1 (dedupKey cmd) = Some r" "r\<lparr>Duplicate := True\<rparr> = (fst (serve cmd ?s0))\<lparr>Duplicate := True\<rparr>"
    by (rule serve_records [OF assms(2)])
  have "\<not> behind m (dedupKey cmd)" using 2(2) assms(2) by (simp add: behind_def dedupKey_def)
  then have "fmlookup (m_applied m) (dedupKey cmd) = Some r"
    using servesD(2) [OF 2(1), of "dedupKey cmd"] serveAll_remembers [OF r(1)] by simp
  then show ?thesis using r(2) 1 assms(2) by (simp add: Apply_def)
qed

theorem retry_changes_nothing_witness:
  "Apply (put_cmd 1 7) (snd (applyAll [put_cmd 1 7, put_cmd 2 8] (NewMachine no_chan))) =
     (\<lparr>Found = True, ar_Value = [], Duplicate = True\<rparr>, snd (applyAll [put_cmd 1 7, put_cmd 2 8] (NewMachine no_chan)))"
proof -
  have w: "windowed (\<lambda>_. 0) ([] @ put_cmd 1 7 # [put_cmd 2 8] @ [put_cmd 1 7])" "identified (put_cmd 1 7)"
    by (simp_all add: put_cmd_def identified_def)
  have r: "(fst (Apply (put_cmd 1 7) (NewMachine no_chan)))\<lparr>Duplicate := True\<rparr> = \<lparr>Found = True, ar_Value = [], Duplicate = True\<rparr>"
    by (simp add: Apply_def put_cmd_def execute_def OpPut_kv_def OpGet_def noResult_def NewMachine_def split_beta identified_def)
  from retry_changes_nothing [OF w refl, of no_chan] show ?thesis
    by (simp only: append_Nil applyAll.simps(1) snd_conv r)
qed

section \<open>The bound on the table\<close>

definition tidy :: "bytes set \<Rightarrow> Machine \<Rightarrow> bool" where
  "tidy C m \<longleftrightarrow> (\<forall>k. k |\<in>| fmdom (m_applied m) \<longrightarrow> dk_Client k \<in> C \<and> dk_RequestID k \<le> goGet (m_maxReq m) (dk_Client k))"

text \<open>What a sweep leaves of a client is within the window, even where the sum wraps around.\<close>

lemma not_swept:
  assumes "(q :: u64) \<le> mx" and "\<not> q + dedupWindow < mx"
  shows "unat mx - unat q \<le> 128"
proof (cases "unat q + 128 < 2 ^ 64")
  case True
  then show ?thesis using assms(2) unat_window [OF True] by (simp add: word_less_nat_alt)
next
  case False
  have "unat (q + dedupWindow) = (unat q + 128) mod 2 ^ 64" by (simp add: unat_word_ariths dedupWindow_def)
  also have "\<dots> = unat q + 128 - 2 ^ 64"
    using False unat_bound [of q] by (simp add: mod_if)
  finally show ?thesis using assms False unat_bound [of q] by (simp add: word_less_nat_alt word_le_nat_alt)
qed

lemma card_swept:
  assumes "tidy C m" and "finite C"
  shows "fcard (fmdom (m_applied (sweepDedupLocked m))) \<le> 129 * card C"
proof -
  let ?D = "fset (fmdom (m_applied (sweepDedupLocked m)))"
  let ?f = "\<lambda>k. (dk_Client k, unat (goGet (m_maxReq m) (dk_Client k)) - unat (dk_RequestID k))"
  have D: "k \<in> ?D \<Longrightarrow> dk_Client k \<in> C \<and> dk_RequestID k \<le> goGet (m_maxReq m) (dk_Client k) \<and>
      unat (goGet (m_maxReq m) (dk_Client k)) - unat (dk_RequestID k) \<le> 128" for k
    using assms(1) not_swept by (auto simp: tidy_def sweepDedupLocked_def)
  have "inj_on ?f ?D"
  proof (rule inj_onI)
    fix k l assume k: "k \<in> ?D" and l: "l \<in> ?D" and eq: "?f k = ?f l"
    then have c: "dk_Client k = dk_Client l" by simp
    moreover have "unat (dk_RequestID k) = unat (dk_RequestID l)"
      using D [OF k] D [OF l] eq c unfolding word_le_nat_alt by (metis diff_diff_cancel prod.inject)
    ultimately show "k = l" by (cases k; cases l) (simp add: word_unat_eq_iff)
  qed
  moreover have "?f ` ?D \<subseteq> C \<times> {..128}" using D by auto
  ultimately have "card ?D \<le> card (C \<times> {..(128 :: nat)})" using assms(2) by (intro card_inj_on_le) auto
  then show ?thesis by (simp add: fcard.rep_eq card_cartesian_product)
qed

definition bounded :: "bytes set \<Rightarrow> Machine \<Rightarrow> bool" where
  "bounded C m \<longleftrightarrow> tidy C m \<and>
     fcard (fmdom (m_applied m)) \<le> max 16383 (129 * card C) + unat (applyCount m) mod 1024"

lemma unat_mod_1024: "unat ((x :: u64) mod dedupSweepEvery) = unat x mod 1024"
  by (simp add: unat_mod_distrib dedupSweepEvery_def)

lemma unat_Suc_mod: "unat ((x :: u64) + 1) mod 1024 = (unat x + 1) mod 1024"
proof -
  have "unat (x + 1) = (unat x + 1) mod 2 ^ 64" by (simp add: unat_word_ariths)
  also have "\<dots> mod 1024 = (unat x + 1) mod 1024" by (rule mod_mod_cancel) simp
  finally show ?thesis .
qed

lemma bounded_remember:
  assumes "bounded C m" and "finite C" and "ClientID cmd \<in> C"
  shows "bounded C (remember cmd r m)"
proof -
  define m1 where "m1 = m\<lparr>m_applied := fmupd (dedupKey cmd) (r\<lparr>Duplicate := False\<rparr>) (m_applied m)\<rparr>"
  define m2 where "m2 = (if RequestID cmd > goGet (m_maxReq m1) (ClientID cmd)
    then m1\<lparr>m_maxReq := fmupd (ClientID cmd) (RequestID cmd) (m_maxReq m1)\<rparr> else m1)"
  define m3 where "m3 = m2\<lparr>applyCount := applyCount m2 + 1\<rparr>"
  have t: "tidy C m3"
    using assms(1,3) by (auto simp: bounded_def tidy_def m3_def m2_def m1_def dedupKey_def)
  have a: "applyCount m3 = applyCount m + 1" by (simp add: m3_def m2_def m1_def)
  have "fcard (fmdom (m_applied m3)) \<le> Suc (fcard (fmdom (m_applied m)))"
    by (simp add: m3_def m2_def m1_def fcard_finsert_if)
  then have c: "fcard (fmdom (m_applied m3)) \<le> max 16383 (129 * card C) + unat (applyCount m) mod 1024 + 1"
    using assms(1) by (simp add: bounded_def)
  let ?swept = "dedupHighWater \<le> fcard (fmdom (m_applied m3)) \<and> applyCount m3 mod dedupSweepEvery = 0"
  have rem: "remember cmd r m = (if ?swept then sweepDedupLocked m3 else m3)"
    unfolding remember_def Let_def m1_def [symmetric] m2_def [symmetric] m3_def [symmetric] ..
  show ?thesis
  proof (cases ?swept)
    case True
    have "tidy C (sweepDedupLocked m3)" using t by (auto simp: tidy_def sweepDedupLocked_def)
    then show ?thesis using True card_swept [OF t assms(2)] unfolding rem by (simp add: bounded_def)
  next
    case False
    have "fcard (fmdom (m_applied m3)) \<le> max 16383 (129 * card C) + unat (applyCount m3) mod 1024"
    proof (cases "unat (applyCount m3) mod 1024 = 0")
      case True
      then have "applyCount m3 mod dedupSweepEvery = 0" using unat_mod_1024 [of "applyCount m3"] unat_eq_zero by metis
      then show ?thesis using False by (simp add: dedupHighWater_def)
    next
      case False
      then have "unat (applyCount m3) mod 1024 = unat (applyCount m) mod 1024 + 1"
        using unat_Suc_mod [of "applyCount m"] a by (simp add: mod_Suc split: if_splits)
      then show ?thesis using c by simp
    qed
    then show ?thesis using t unfolding rem if_not_P [OF False] by (simp add: bounded_def)
  qed
qed

lemma bounded_Apply:
  assumes "bounded C m" and "finite C" and "ClientID cmd \<in> C"
  shows "bounded C (snd (Apply cmd m))"
proof -
  have "bounded C (snd (execute cmd m))" using assms(1) by (simp add: bounded_def tidy_def)
  then show ?thesis
    using assms bounded_remember by (auto simp: Apply_def split_beta split: option.split)
qed

text \<open>
  C21. The table of results is bounded for good: after any history of any length, with any
  request numbers, it holds fewer than 1024 results over the larger of the high-water mark
  and 129 for each client.
\<close>

theorem dedup_table_bounded:
  assumes "finite C" and "\<forall>c \<in> set cmds. ClientID c \<in> C"
  shows "fcard (fmdom (m_applied (snd (applyAll cmds (NewMachine cs))))) \<le> max 16383 (129 * card C) + 1023"
proof -
  have "bounded C m \<Longrightarrow> bounded C (snd (applyAll cmds m))" for m
    using assms(2)
  proof (induction cmds arbitrary: m)
    case (Cons c cmds)
    have "bounded C (snd (Apply c m))" using bounded_Apply [OF Cons.prems(1) assms(1)] Cons.prems(2) by simp
    with Cons.IH Cons.prems(2) show ?case by (simp add: split_beta)
  qed simp
  moreover have "bounded C (NewMachine cs)" by (simp add: bounded_def tidy_def NewMachine_def fcard.rep_eq)
  ultimately have "bounded C (snd (applyAll cmds (NewMachine cs)))" by blast
  moreover have "unat n mod 1024 \<le> (1023 :: nat)" for n :: u64 using mod_less_divisor [of 1024 "unat n"] by simp
  ultimately show ?thesis unfolding bounded_def by (meson add_left_mono order_trans)
qed

lemma put_clients: "\<forall>c \<in> set (map (\<lambda>i. put_cmd i 0) xs). ClientID c \<in> {[65]}"
  by (auto simp: put_cmd_def)

theorem dedup_table_bounded_witness:
  "fcard (fmdom (m_applied (snd (applyAll (map (\<lambda>i. put_cmd i 0) [0 ..< 1000000]) (NewMachine no_chan))))) \<le> 17406"
proof -
  have b: "max 16383 (129 * card {[65 :: byte]}) + 1023 = 17406" by simp
  show ?thesis by (rule dedup_table_bounded [OF _ put_clients, of "[0 ..< 1000000]" no_chan, unfolded b]) simp
qed

text \<open>
  Within the window of the largest request number the sweep's sum wraps around: the
  newest request of a client is dropped by the sweep its own application triggers, and its
  retry runs a second time instead of being answered from the table.
\<close>

theorem retry_near_wraparound_runs_again:
  assumes "identified cmd" and "2 ^ 64 \<le> unat (RequestID cmd) + 128"
    and "fmlookup (m_applied m) (dedupKey cmd) = None" and "goGet (m_maxReq m) (ClientID cmd) \<le> RequestID cmd"
    and "16383 \<le> fcard (fmdom (m_applied m))" and "(applyCount m + 1) mod 1024 = 0"
  shows "\<not> Duplicate (fst (Apply cmd (snd (Apply cmd m)))) \<and>
    m_data (snd (Apply cmd (snd (Apply cmd m)))) = snd (effect cmd (snd (effect cmd (m_data m))))"
proof -
  let ?n = "snd (execute cmd m)" and ?r = "fst (execute cmd m)"
  define m1 where "m1 = ?n\<lparr>m_applied := fmupd (dedupKey cmd) (?r\<lparr>Duplicate := False\<rparr>) (m_applied ?n)\<rparr>"
  define m2 where "m2 = (if RequestID cmd > goGet (m_maxReq m1) (ClientID cmd)
    then m1\<lparr>m_maxReq := fmupd (ClientID cmd) (RequestID cmd) (m_maxReq m1)\<rparr> else m1)"
  define m3 where "m3 = m2\<lparr>applyCount := applyCount m2 + 1\<rparr>"
  have mx: "goGet (m_maxReq m3) (ClientID cmd) = RequestID cmd"
    using assms(4) by (simp add: m3_def m2_def m1_def)
  have "m_applied m3 = fmupd (dedupKey cmd) (?r\<lparr>Duplicate := False\<rparr>) (m_applied m)" "applyCount m3 = applyCount m + 1"
    by (simp_all add: m3_def m2_def m1_def)
  moreover have "dedupKey cmd |\<notin>| fmdom (m_applied m)" using assms(3) by (simp add: fmdom_notI)
  ultimately have sw: "dedupHighWater \<le> fcard (fmdom (m_applied m3)) \<and> applyCount m3 mod dedupSweepEvery = 0"
    using assms(5,6) by (simp add: dedupHighWater_def dedupSweepEvery_def fcard_finsert_disjoint)
  have "remember cmd ?r ?n = sweepDedupLocked m3"
    using sw unfolding remember_def Let_def m1_def [symmetric] m2_def [symmetric] m3_def [symmetric] by simp
  then have once: "snd (Apply cmd m) = sweepDedupLocked m3" using assms(1,3) by (simp add: Apply_def split_beta)
  have "unat (RequestID cmd + dedupWindow) = (unat (RequestID cmd) + 128) mod 2 ^ 64"
    by (simp add: unat_word_ariths dedupWindow_def)
  then have "RequestID cmd + dedupWindow < RequestID cmd"
    using assms(2) unat_bound [of "RequestID cmd"] by (simp add: word_less_nat_alt mod_if)
  then have "fmlookup (m_applied (sweepDedupLocked m3)) (dedupKey cmd) = None"
    using mx by (simp add: sweepDedupLocked_def dedupKey_def)
  moreover have "m_data (sweepDedupLocked m3) = snd (effect cmd (m_data m))"
    by (simp add: m3_def m2_def m1_def execute_effect)
  ultimately show ?thesis
    using assms(1) unfolding once by (simp add: Apply_def split_beta execute_effect)
qed

text \<open>A machine with a full table one step before a sweep.\<close>

definition full_machine :: "nat \<Rightarrow> Machine" where
  "full_machine n = (NewMachine no_chan)\<lparr>
     m_applied := fmap_of_list (map (\<lambda>i. (\<lparr>dk_Client = [66], dk_RequestID = word_of_nat i\<rparr>, noResult)) [0 ..< n]),
     applyCount := 1023\<rparr>"

lemma full_machine_size:
  assumes "n < 2 ^ 64"
  shows "fcard (fmdom (m_applied (full_machine n))) = n"
proof -
  have "inj_on (\<lambda>i. \<lparr>dk_Client = [66], dk_RequestID = word_of_nat i\<rparr>) {0 ..< n}"
    using assms by (intro inj_onI) (simp add: word_unat_eq_iff unat_of_nat)
  moreover have "fset (fmdom (m_applied (full_machine n))) = (\<lambda>i. \<lparr>dk_Client = [66], dk_RequestID = word_of_nat i\<rparr>) ` {0 ..< n}"
    by (auto simp: full_machine_def image_image fset_of_list.rep_eq)
  ultimately show ?thesis by (simp add: fcard.rep_eq card_image)
qed

lemma full_machine_simps:
  "dk_Client k \<noteq> [66] \<Longrightarrow> fmlookup (m_applied (full_machine n)) k = None" "goGet (m_maxReq (full_machine n)) c = 0"
  "applyCount (full_machine n) = 1023"
  by (auto simp: full_machine_def fmlookup_of_list map_of_eq_None_iff NewMachine_def goGet_def)

theorem retry_near_wraparound_runs_again_witness:
  "\<not> Duplicate (fst (Apply (put_cmd (2 ^ 64 - 1) 7) (snd (Apply (put_cmd (2 ^ 64 - 1) 7) (full_machine 16383)))))"
proof -
  let ?c = "put_cmd (2 ^ 64 - 1) 7" and ?m = "full_machine 16383"
  have u: "unat (RequestID ?c) = 2 ^ 64 - 1" by (simp add: put_cmd_def unat_of_nat)
  have 1: "identified ?c" using u by (auto simp: identified_def put_cmd_def)
  have 2: "2 ^ 64 \<le> unat (RequestID ?c) + 128" unfolding u by simp
  have 3: "fmlookup (m_applied ?m) (dedupKey ?c) = None"
    by (rule full_machine_simps(1)) (simp add: dedupKey_def put_cmd_def)
  have 4: "goGet (m_maxReq ?m) (ClientID ?c) \<le> RequestID ?c" by (simp add: full_machine_simps(2))
  have 5: "16383 \<le> fcard (fmdom (m_applied ?m))" by (simp add: full_machine_size)
  have 6: "(applyCount ?m + 1) mod 1024 = 0" by (simp add: full_machine_simps(3))
  from retry_near_wraparound_runs_again [OF 1 2 3 4 5 6] show ?thesis by blast
qed

section \<open>Snapshots\<close>

text \<open>What the code relies on of the gob library: what was encoded decodes to itself.\<close>

definition gob_ok :: "gob \<Rightarrow> bool" where
  "gob_ok g \<longleftrightarrow> (\<forall>s raw. gobEncode g s = Some raw \<longrightarrow> gobDecode g raw = Some s)"

definition clean_results :: "Machine \<Rightarrow> bool" where
  "clean_results m \<longleftrightarrow> (\<forall>k r. fmlookup (m_applied m) k = Some r \<longrightarrow> \<not> Duplicate r)"

lemma clean_results_remember: "clean_results m \<Longrightarrow> clean_results (remember cmd r m)"
  by (auto simp: clean_results_def remember_def Let_def sweepDedupLocked_def split: if_splits)

lemma clean_results_Apply: "clean_results m \<Longrightarrow> clean_results (snd (Apply cmd m))"
proof -
  assume m: "clean_results m"
  then have "clean_results (snd (execute cmd m))" by (simp add: clean_results_def)
  with m show ?thesis by (auto simp: Apply_def split_beta intro: clean_results_remember split: option.split)
qed

lemma clean_results_all: "clean_results m \<Longrightarrow> clean_results (snd (applyAll cs m))"
proof (induction cs arbitrary: m)
  case (Cons c cs)
  from Cons.IH [OF clean_results_Apply [OF Cons.prems, of c]] show ?case by (simp add: split_beta)
qed simp

lemma copyResult_id: "\<not> Duplicate v \<Longrightarrow> copyResult v = v"
  by (cases v) (simp add: copyResult_def)

lemma copy_clean:
  assumes "clean_results m"
  shows "fmmap copyResult (m_applied m) = m_applied m"
proof (rule fmap_ext)
  fix k
  show "fmlookup (fmmap copyResult (m_applied m)) k = fmlookup (m_applied m) k"
    using assms by (cases "fmlookup (m_applied m) k") (auto simp: clean_results_def copyResult_id)
qed

text \<open>
  C22. A snapshot is as good as the log it replaces: a node that restores it, whatever its own
  machine was, gives from then on the same results as the node that took it, and keeps the
  same data, table, counters and sweeps.
\<close>

theorem restored_machine_continues:
  assumes "gob_ok g" and "machine_Snapshot g (snd (applyAll pre (NewMachine cs))) = Some raw"
  shows "\<exists>m'. Restore g raw m0 = Some m' \<and>
    fst (applyAll post m') = fst (applyAll post (snd (applyAll pre (NewMachine cs)))) \<and>
    agree (snd (applyAll post m')) (snd (applyAll (pre @ post) (NewMachine cs)))"
proof -
  let ?m = "snd (applyAll pre (NewMachine cs))"
  have "clean_results (NewMachine cs)" by (simp add: clean_results_def NewMachine_def)
  note c = copy_clean [OF clean_results_all [OF this, of pre]]
  let ?m' = "m0\<lparr>m_data := m_data ?m, m_applied := m_applied ?m, m_maxReq := m_maxReq ?m, applyCount := applyCount ?m\<rparr>"
  have "Restore g raw m0 = Some ?m'"
    using assms c by (auto simp: gob_ok_def machine_Snapshot_def Restore_def)
  moreover have "agree ?m' ?m" by (simp add: agree_def)
  ultimately show ?thesis using agree_applyAll [of ?m' ?m post] by (simp add: applyAll_append)
qed

definition one_gob :: "snapshotData \<Rightarrow> gob" where
  "one_gob s = \<lparr>gobEncode = (\<lambda>t. if t = s then Some [1] else None), gobDecode = (\<lambda>b. if b = [1] then Some s else None)\<rparr>"

theorem restored_machine_continues_witness:
  "\<exists>g raw m'. machine_Snapshot g (snd (applyAll [put_cmd 1 7] (NewMachine no_chan))) = Some raw \<and>
     Restore g raw (NewMachine no_chan) = Some m' \<and>
     agree (snd (applyAll [put_cmd 1 7] m')) (snd (applyAll [put_cmd 1 7, put_cmd 1 7] (NewMachine no_chan)))"
proof -
  let ?m = "snd (applyAll [put_cmd 1 7] (NewMachine no_chan))"
  let ?g = "one_gob \<lparr>sd_Data = m_data ?m, sd_Applied = fmmap copyResult (m_applied ?m), sd_MaxReq = m_maxReq ?m, sd_ApplyCount = applyCount ?m\<rparr>"
  have "gob_ok ?g" by (auto simp: gob_ok_def one_gob_def)
  moreover have r: "machine_Snapshot ?g ?m = Some [1]" by (simp only: machine_Snapshot_def one_gob_def gob.simps simp_thms if_True)
  ultimately have "\<exists>m'. Restore ?g [1] (NewMachine no_chan) = Some m' \<and>
      agree (snd (applyAll [put_cmd 1 7] m')) (snd (applyAll ([put_cmd 1 7] @ [put_cmd 1 7]) (NewMachine no_chan)))"
    using restored_machine_continues [of ?g "[put_cmd 1 7]" no_chan "[1]" "NewMachine no_chan" "[put_cmd 1 7]"] by blast
  with r show ?thesis by (metis append_Cons append_Nil)
qed

end
