(* ===== verification/RaftLog.thy ===== *)
theory RaftLog
  imports Prelude
begin

text \<open>
  \<^verbatim>\<open>src/internal/raft/log.go\<close>: the in-memory suffix of the replicated log. Position 0 of the
  slice is the sentinel that stands for the last compacted entry. Indexes and terms are
  natural numbers: the code never comes near \<^verbatim>\<open>2^64\<close> of them, and it subtracts only where the
  difference is not negative.
\<close>

section \<open>The log and its operations\<close>

record LogEntry =
  Index :: nat
  Term :: nat
  Data :: bytes

record raftLog =
  entries :: "LogEntry list"

definition sentinel :: "nat \<Rightarrow> nat \<Rightarrow> LogEntry" where
  "sentinel i t = \<lparr>Index = i, Term = t, Data = []\<rparr>"

definition newRaftLog :: "nat \<Rightarrow> nat \<Rightarrow> raftLog" where
  "newRaftLog lastIncludedIndex lastIncludedTerm =
     \<lparr>entries = [sentinel lastIncludedIndex lastIncludedTerm]\<rparr>"

definition firstIndex :: "raftLog \<Rightarrow> nat" where
  "firstIndex l = Index (entries l ! 0)"

definition lastIndex :: "raftLog \<Rightarrow> nat" where
  "lastIndex l = Index (entries l ! (length (entries l) - 1))"

definition lastTerm :: "raftLog \<Rightarrow> nat" where
  "lastTerm l = Term (entries l ! (length (entries l) - 1))"

text \<open>\<open>term\<close>\<close>

definition log_term :: "raftLog \<Rightarrow> nat \<Rightarrow> nat \<times> bool" where
  "log_term l i =
     (if i < firstIndex l \<or> i > lastIndex l then (0, False)
      else (Term (entries l ! (i - firstIndex l)), True))"

text \<open>\<open>entry\<close>: \<open>None\<close> is the panic of an index out of range.\<close>

definition log_entry :: "raftLog \<Rightarrow> nat \<Rightarrow> LogEntry option" where
  "log_entry l i =
     (if firstIndex l \<le> i \<and> i - firstIndex l < length (entries l)
      then Some (entries l ! (i - firstIndex l)) else None)"

text \<open>\<open>suffix\<close>\<close>

definition log_suffix :: "raftLog \<Rightarrow> nat \<Rightarrow> LogEntry list" where
  "log_suffix l from =
     (if from \<le> firstIndex l \<or> from > lastIndex l then []
      else drop (from - firstIndex l) (entries l))"

text \<open>\<open>append\<close>\<close>

definition log_append :: "LogEntry list \<Rightarrow> raftLog \<Rightarrow> raftLog" where
  "log_append es l = l\<lparr>entries := entries l @ es\<rparr>"

text \<open>\<open>truncateFrom\<close>\<close>

definition log_truncateFrom :: "nat \<Rightarrow> raftLog \<Rightarrow> raftLog" where
  "log_truncateFrom i l =
     (let i' = (if i \<le> firstIndex l then firstIndex l + 1 else i)
      in l\<lparr>entries := take (i' - firstIndex l) (entries l)\<rparr>)"

definition firstIndexOfTerm :: "raftLog \<Rightarrow> nat \<Rightarrow> nat" where
  "firstIndexOfTerm l t =
     (let reals = tl (entries l);
          i = sort_Search (length reals) (\<lambda>j. Term (reals ! j) \<ge> t)
      in if i < length reals \<and> Term (reals ! i) = t then Index (reals ! i) else 0)"

definition lastIndexOfTerm :: "raftLog \<Rightarrow> nat \<Rightarrow> nat" where
  "lastIndexOfTerm l t =
     (let reals = tl (entries l);
          i = sort_Search (length reals) (\<lambda>j. Term (reals ! j) > t)
      in if i > 0 \<and> Term (reals ! (i - 1)) = t then Index (reals ! (i - 1)) else 0)"

definition compactTo :: "nat \<Rightarrow> nat \<Rightarrow> raftLog \<Rightarrow> raftLog" where
  "compactTo index t l =
     (if index \<le> firstIndex l then l
      else if index < lastIndex l
      then l\<lparr>entries := sentinel index t # drop (index - firstIndex l + 1) (entries l)\<rparr>
      else l\<lparr>entries := [sentinel index t]\<rparr>)"

definition allEntries :: "raftLog \<Rightarrow> LogEntry list" where
  "allEntries l = tl (entries l)"

section \<open>The invariant\<close>

text \<open>
  \<open>consecutive i es\<close>: the entries carry the indexes \<open>i\<close>, \<open>i + 1\<close> and so on. A log is well-formed
  when it has a sentinel and consecutive indexes; \<open>monotone_terms\<close> is the second part of what
  Raft promises, that terms never decrease.
\<close>

fun consecutive :: "nat \<Rightarrow> LogEntry list \<Rightarrow> bool" where
  "consecutive i [] \<longleftrightarrow> True"
| "consecutive i (e # es) \<longleftrightarrow> Index e = i \<and> consecutive (Suc i) es"

definition wf_log :: "raftLog \<Rightarrow> bool" where
  "wf_log l \<longleftrightarrow> entries l \<noteq> [] \<and> consecutive (firstIndex l) (entries l)"

definition monotone_terms :: "raftLog \<Rightarrow> bool" where
  "monotone_terms l \<longleftrightarrow> sorted (map Term (entries l))"

lemma consecutive_nth: "consecutive i es \<Longrightarrow> k < length es \<Longrightarrow> Index (es ! k) = i + k"
proof (induction es arbitrary: i k)
  case (Cons e es)
  then show ?case by (cases k) auto
qed simp

lemma consecutive_append [simp]:
  "consecutive i (es @ fs) \<longleftrightarrow> consecutive i es \<and> consecutive (i + length es) fs"
  by (induction es arbitrary: i) auto

lemma consecutive_take: "consecutive i es \<Longrightarrow> consecutive i (take k es)"
  by (metis append_take_drop_id consecutive_append)

lemma consecutive_drop: "consecutive i es \<Longrightarrow> k \<le> length es \<Longrightarrow> consecutive (i + k) (drop k es)"
  by (metis append_take_drop_id consecutive_append length_take min.absorb2)

lemma lastIndex_wf: "wf_log l \<Longrightarrow> lastIndex l + 1 = firstIndex l + length (entries l)"
  using consecutive_nth [of "firstIndex l" "entries l" "length (entries l) - 1"]
  by (auto simp: wf_log_def lastIndex_def Suc_le_eq)

lemma first_le_last: "wf_log l \<Longrightarrow> firstIndex l \<le> lastIndex l"
  using lastIndex_wf [of l] by (cases "entries l") (auto simp: wf_log_def)

lemma wf_log_nth: "wf_log l \<Longrightarrow> k < length (entries l) \<Longrightarrow> Index (entries l ! k) = firstIndex l + k"
  by (simp add: wf_log_def consecutive_nth)

lemma log_entry_wf:
  "wf_log l \<Longrightarrow> log_entry l i =
     (if firstIndex l \<le> i \<and> i \<le> lastIndex l then Some (entries l ! (i - firstIndex l)) else None)"
  using lastIndex_wf [of l] by (auto simp: log_entry_def)

lemma log_entry_Index: "wf_log l \<Longrightarrow> log_entry l i = Some e \<Longrightarrow> Index e = i"
  using wf_log_nth [of l "i - firstIndex l"] by (auto simp: log_entry_def split: if_splits)

lemma log_term_entry:
  "wf_log l \<Longrightarrow> log_term l i = (case log_entry l i of Some e \<Rightarrow> (Term e, True) | None \<Rightarrow> (0, False))"
  by (auto simp: log_term_def log_entry_wf)

lemma wf_newRaftLog [simp]:
  "wf_log (newRaftLog i t)" "firstIndex (newRaftLog i t) = i" "lastIndex (newRaftLog i t) = i"
  "lastTerm (newRaftLog i t) = t" "monotone_terms (newRaftLog i t)"
  by (simp_all add: wf_log_def newRaftLog_def firstIndex_def lastIndex_def lastTerm_def sentinel_def
      monotone_terms_def)

section \<open>The operations keep it\<close>

lemma entries_append [simp]: "entries (log_append es l) = entries l @ es"
  by (simp add: log_append_def)

lemma entries_truncate [simp]:
  "firstIndex l < i \<Longrightarrow> entries (log_truncateFrom i l) = take (i - firstIndex l) (entries l)"
  by (simp add: log_truncateFrom_def)

lemma firstIndex_append [simp]: "wf_log l \<Longrightarrow> firstIndex (log_append es l) = firstIndex l"
  by (cases "entries l") (auto simp: firstIndex_def log_append_def wf_log_def)

lemma wf_append:
  assumes "wf_log l" and "consecutive (lastIndex l + 1) es"
  shows "wf_log (log_append es l)"
  using assms lastIndex_wf [OF assms(1)]
  by (auto simp: wf_log_def log_append_def firstIndex_def nth_append add.commute)

lemma lastIndex_append:
  assumes "wf_log l" and "consecutive (lastIndex l + 1) es"
  shows "lastIndex (log_append es l) = lastIndex l + length es"
  using lastIndex_wf [OF wf_append [OF assms]] lastIndex_wf [OF assms(1)] assms(1) by simp

lemma firstIndex_truncate [simp]: "wf_log l \<Longrightarrow> firstIndex (log_truncateFrom i l) = firstIndex l"
  by (cases "entries l") (auto simp: firstIndex_def log_truncateFrom_def Let_def wf_log_def)

lemma wf_truncate: "wf_log l \<Longrightarrow> wf_log (log_truncateFrom i l)"
  using firstIndex_truncate [of l i]
  by (auto simp: wf_log_def log_truncateFrom_def Let_def intro: consecutive_take)

lemma lastIndex_truncate:
  assumes "wf_log l" and "firstIndex l < i" and "i \<le> lastIndex l + 1"
  shows "lastIndex (log_truncateFrom i l) = i - 1"
  using lastIndex_wf [OF wf_truncate [OF assms(1), of i]] lastIndex_wf [OF assms(1)] assms by auto

lemma firstIndex_compactTo:
  "wf_log l \<Longrightarrow> firstIndex (compactTo i t l) = max i (firstIndex l)"
  by (auto simp: compactTo_def firstIndex_def sentinel_def)

lemma wf_compactTo:
  assumes "wf_log l"
  shows "wf_log (compactTo i t l)"
proof -
  have "consecutive (Suc i) (drop (i - firstIndex l + 1) (entries l))"
    if "firstIndex l < i" "i < lastIndex l"
  proof -
    have "i - firstIndex l + 1 \<le> length (entries l)" using that lastIndex_wf [OF assms] by linarith
    from consecutive_drop [OF _ this, of "firstIndex l"] that(1) assms show ?thesis
      by (simp add: wf_log_def)
  qed
  then show ?thesis
    using assms by (auto simp: wf_log_def compactTo_def firstIndex_def sentinel_def)
qed

lemma lastIndex_compactTo: "wf_log l \<Longrightarrow> lastIndex (compactTo i t l) = max i (lastIndex l)"
  using lastIndex_wf [of l] lastIndex_wf [OF wf_compactTo [of l i t]] firstIndex_compactTo [of l i t]
    first_le_last [of l]
  by (auto simp: compactTo_def split: if_splits)

lemma monotone_truncate: "monotone_terms l \<Longrightarrow> monotone_terms (log_truncateFrom i l)"
  by (auto simp: monotone_terms_def log_truncateFrom_def Let_def take_map [symmetric]
      intro: sorted_wrt_take)

lemma monotone_append:
  assumes "wf_log l" and "monotone_terms l" and "sorted (map Term es)"
    and "es \<noteq> [] \<Longrightarrow> lastTerm l \<le> Term (hd es)"
  shows "monotone_terms (log_append es l)"
proof -
  have "Term e \<le> Term f" if "e \<in> set (entries l)" "f \<in> set es" for e f
  proof -
    from that(1) obtain k where k: "k < length (entries l)" "e = entries l ! k" by (auto simp: in_set_conv_nth)
    have "Term e \<le> lastTerm l"
      using sorted_nth_mono [of "map Term (entries l)" k "length (entries l) - 1"] assms(2) k
      by (auto simp: monotone_terms_def lastTerm_def)
    also have "\<dots> \<le> Term (hd es)" using assms(4) that(2) by (cases es) auto
    also have "\<dots> \<le> Term f" using assms(3) that(2) by (cases es) auto
    finally show ?thesis .
  qed
  then show ?thesis
    using assms(2,3) by (auto simp: monotone_terms_def log_append_def sorted_append)
qed

section \<open>Looking entries up\<close>

lemma log_entry_append:
  assumes "wf_log l" and "consecutive (lastIndex l + 1) es"
  shows "log_entry (log_append es l) i =
    (if i \<le> lastIndex l then log_entry l i
     else if i \<le> lastIndex l + length es then Some (es ! (i - lastIndex l - 1)) else None)"
  using lastIndex_wf [OF assms(1)] lastIndex_append [OF assms] wf_append [OF assms] assms(1)
    first_le_last [OF assms(1)]
  by (auto simp: log_entry_wf nth_append)

lemma log_entry_truncate:
  assumes "wf_log l" and "firstIndex l < i" and "i \<le> lastIndex l + 1"
  shows "log_entry (log_truncateFrom i l) j = (if j < i then log_entry l j else None)"
  using assms lastIndex_truncate [OF assms] wf_truncate [OF assms(1), of i]
  by (auto simp: log_entry_wf)

lemma log_entry_compactTo:
  assumes "wf_log l" and "firstIndex l < i"
  shows "log_entry (compactTo i t l) j =
    (if j < i then None else if j = i then Some (sentinel i t) else log_entry l j)"
  using assms lastIndex_compactTo [OF assms(1), of i t] firstIndex_compactTo [OF assms(1), of i t]
    wf_compactTo [OF assms(1), of i t] lastIndex_wf [OF assms(1)]
  by (auto simp: log_entry_wf compactTo_def nth_Cons' intro!: arg_cong [where f = "(!) (entries l)"])

section \<open>The term searches\<close>

text \<open>The reference: a linear scan from the front, and one from the back.\<close>

definition scan :: "nat \<Rightarrow> LogEntry list \<Rightarrow> nat" where
  "scan t es = (case List.find (\<lambda>e. Term e = t) es of Some e \<Rightarrow> Index e | None \<Rightarrow> 0)"

lemma scan_first:
  assumes "i < length es" and "Term (es ! i) = t" and "\<And>k. k < i \<Longrightarrow> Term (es ! k) \<noteq> t"
  shows "scan t es = Index (es ! i)"
  using assms by (auto simp: scan_def find_Some_iff find_None_iff split: option.split)
     (metis nth_mem, metis linorder_neqE_nat)

lemma scan_none: "(\<And>e. e \<in> set es \<Longrightarrow> Term e \<noteq> t) \<Longrightarrow> scan t es = 0"
  by (auto simp: scan_def find_Some_iff split: option.split) (metis nth_mem)

lemma monotone_tl: "monotone_terms l \<Longrightarrow> sorted (map Term (tl (entries l)))"
  by (cases "entries l") (auto simp: monotone_terms_def)

lemma firstIndexOfTerm_scan:
  assumes "monotone_terms l"
  shows "firstIndexOfTerm l t = scan t (allEntries l)"
proof -
  let ?es = "tl (entries l)"
  have mono: "Term (?es ! j) \<le> Term (?es ! k)" if "j \<le> k" "k < length ?es" for j k
    using sorted_nth_mono [OF monotone_tl [OF assms], of j k] that by simp
  define i where "i = sort_Search (length ?es) (\<lambda>j. Term (?es ! j) \<ge> t)"
  note spec = sort_Search_spec [of "length ?es" "\<lambda>j. Term (?es ! j) \<ge> t", folded i_def]
  have below: "Term (?es ! k) < t" if "k < i" for k
    using spec(2) [OF _ that] mono by (meson le_trans not_le)
  have above: "t \<le> Term (?es ! k)" if "i \<le> k" "k < length ?es" for k
    using spec(3) [OF _ that] mono by (meson le_trans)
  show ?thesis
  proof (cases "i < length ?es \<and> Term (?es ! i) = t")
    case True
    then have "scan t ?es = Index (?es ! i)"
      using below by (intro scan_first) fastforce+
    with True show ?thesis
      unfolding firstIndexOfTerm_def Let_def i_def [symmetric] allEntries_def by simp
  next
    case False
    have "Term (?es ! k) \<noteq> t" if "k < length ?es" for k
      using below [of k] above [of k] above [of i] mono [of i k] False that by (cases "k < i") fastforce+
    then have "scan t ?es = 0" by (intro scan_none) (auto simp: in_set_conv_nth)
    with False show ?thesis
      unfolding firstIndexOfTerm_def Let_def i_def [symmetric] allEntries_def by (simp only: if_False)
  qed
qed

lemma rev_nth_back: "0 < i \<Longrightarrow> i \<le> length xs \<Longrightarrow> rev xs ! (length xs - i) = xs ! (i - 1)"
  by (simp add: rev_nth)

lemma lastIndexOfTerm_scan:
  assumes "monotone_terms l"
  shows "lastIndexOfTerm l t = scan t (rev (allEntries l))"
proof -
  let ?es = "tl (entries l)"
  have mono: "Term (?es ! j) \<le> Term (?es ! k)" if "j \<le> k" "k < length ?es" for j k
    using sorted_nth_mono [OF monotone_tl [OF assms], of j k] that by simp
  define i where "i = sort_Search (length ?es) (\<lambda>j. Term (?es ! j) > t)"
  note spec = sort_Search_spec [of "length ?es" "\<lambda>j. Term (?es ! j) > t", folded i_def]
  have le: "i \<le> length ?es" using spec(1) mono by (meson less_le_trans)
  have below: "Term (?es ! k) \<le> t" if "k < i" for k
    using spec(2) [OF _ that] mono by (meson less_le_trans not_le)
  have above: "t < Term (?es ! k)" if "i \<le> k" "k < length ?es" for k
    using spec(3) [OF _ that] mono by (meson less_le_trans)
  show ?thesis
  proof (cases "i > 0 \<and> Term (?es ! (i - 1)) = t")
    case True
    have "scan t (rev ?es) = Index (rev ?es ! (length ?es - i))"
    proof (rule scan_first)
      show "length ?es - i < length (rev ?es)" using True le unfolding length_rev by linarith
      show "Term (rev ?es ! (length ?es - i)) = t" using True le by (simp only: rev_nth_back)
      show "Term (rev ?es ! k) \<noteq> t" if "k < length ?es - i" for k
      proof -
        have "i \<le> length ?es - Suc k" "length ?es - Suc k < length ?es" "k < length ?es"
          using that by linarith+
        with above show ?thesis by (metis nat_neq_iff rev_nth)
      qed
    qed
    also have "rev ?es ! (length ?es - i) = ?es ! (i - 1)" using True le by (simp only: rev_nth_back)
    finally show ?thesis
      using True unfolding lastIndexOfTerm_def Let_def i_def [symmetric] allEntries_def by simp
  next
    case False
    have "Term (?es ! k) \<noteq> t" if k: "k < length ?es" for k
    proof (cases "k < i")
      case True
      with mono [of k "i - 1"] le below [of k] below [of "i - 1"] False show ?thesis by fastforce
    next
      case False
      with above [of k] k show ?thesis by fastforce
    qed
    then have "scan t (rev ?es) = 0" by (intro scan_none) (auto simp: in_set_conv_nth)
    with False show ?thesis
      unfolding lastIndexOfTerm_def Let_def i_def [symmetric] allEntries_def by (simp only: if_False)
  qed
qed

text \<open>
  C34. The binary searches are correct: on a log whose terms never decrease, \<open>firstIndexOfTerm\<close>
  and \<open>lastIndexOfTerm\<close> return what a linear scan from the front and from the back returns.
\<close>

theorem term_search_linear:
  assumes "monotone_terms l"
  shows "firstIndexOfTerm l t = scan t (allEntries l) \<and>
    lastIndexOfTerm l t = scan t (rev (allEntries l))"
  using assms by (simp add: firstIndexOfTerm_scan lastIndexOfTerm_scan)

definition example_log :: raftLog where
  "example_log = \<lparr>entries = [sentinel 4 1, \<lparr>Index = 5, Term = 2, Data = []\<rparr>,
     \<lparr>Index = 6, Term = 2, Data = []\<rparr>, \<lparr>Index = 7, Term = 5, Data = []\<rparr>]\<rparr>"

theorem term_search_linear_witness:
  "firstIndexOfTerm example_log 2 = 5 \<and> lastIndexOfTerm example_log 2 = 6 \<and>
   firstIndexOfTerm example_log 3 = 0"
  using term_search_linear [of example_log 2] term_search_linear [of example_log 3]
  by (simp add: example_log_def monotone_terms_def sentinel_def scan_def allEntries_def)

text \<open>
  Compaction keeps the log well-formed and changes no lookup above the compaction point:
  after \<open>compactTo\<close> the sentinel answers for the point itself, older indexes are gone, and
  every later index has the same entry as before.
\<close>

theorem compactTo_keeps_suffix:
  assumes "wf_log l" and "firstIndex l < i"
  shows "wf_log (compactTo i t l) \<and> firstIndex (compactTo i t l) = i \<and>
    lastIndex (compactTo i t l) = max i (lastIndex l) \<and>
    log_term (compactTo i t l) i = (t, True) \<and>
    (\<forall>j < i. log_term (compactTo i t l) j = (0, False)) \<and>
    (\<forall>j > i. log_entry (compactTo i t l) j = log_entry l j)"
  using assms wf_compactTo [OF assms(1), of i t]
  by (auto simp: firstIndex_compactTo lastIndex_compactTo log_term_entry log_entry_compactTo sentinel_def)

theorem compactTo_keeps_suffix_witness:
  "log_entry (compactTo 5 2 example_log) 7 = log_entry example_log 7 \<and>
   log_term (compactTo 5 2 example_log) 5 = (2, True)"
proof -
  have "wf_log example_log" "firstIndex example_log < 5"
    by (simp_all add: wf_log_def example_log_def firstIndex_def sentinel_def)
  from compactTo_keeps_suffix [OF this, of 2] show ?thesis by simp
qed

end
