(* ===== verification/Persist.thy ===== *)
theory Persist
  imports Install RaftLog
begin

text \<open>
  \<^verbatim>\<open>src/internal/raft/persist.go\<close>: the durable part of a Raft node. Term, vote and log entries
  go to one write-ahead log as three kinds of records, the snapshot to a file of its own.
  The protobuf codec of log entries is a parameter.
\<close>

section \<open>The persister\<close>

definition raftWALName :: string where
  "raftWALName = ''raft.wal''"

definition raftWALTmpName :: string where
  "raftWALTmpName = ''raft.wal.tmp''"

definition raftSnapName :: string where
  "raftSnapName = ''raft.snapshot''"

definition raftSnapTmpName :: string where
  "raftSnapTmpName = ''raft.snapshot.tmp''"

definition recHardState :: byte where
  "recHardState = 1"

definition recEntry :: byte where
  "recEntry = 2"

definition recTruncate :: byte where
  "recTruncate = 3"

definition noVote :: nat where
  "noVote = 0"

record pbcodec =
  Marshal :: "LogEntry \<Rightarrow> bytes option"
  Unmarshal :: "bytes \<Rightarrow> LogEntry option"

record persister =
  p_wal :: "WAL option"

type_synonym pstate = "persister \<times> world"

record persistedState =
  ps_term :: nat
  ps_votedFor :: nat
  ps_entries :: "LogEntry list"
  ps_snapIndex :: nat
  ps_snapTerm :: nat
  ps_snapData :: bytes

datatype raft_record_error =
    EmptyRecord
  | BadHardState nat
  | UnmarshalEntry
  | BadTruncate nat
  | UnknownRecord byte

text \<open>\<open>PNil\<close> is the panic of a method call on the nil log of a closed persister.\<close>

datatype persist_error =
    PIO io_error
  | SnapTooShort nat
  | PReplay "raft_record_error replay_error"
  | PMarshal
  | PNil

section \<open>Records\<close>

definition hardStateRecord :: "nat \<Rightarrow> nat \<Rightarrow> bytes" where
  "hardStateRecord t v = recHardState # PutUint64 (word_of_nat t) @ PutUint64 (word_of_nat v)"

definition entryRecord :: "bytes \<Rightarrow> bytes" where
  "entryRecord body = recEntry # body"

definition truncateRecord :: "nat \<Rightarrow> bytes" where
  "truncateRecord from = recTruncate # PutUint64 (word_of_nat from)"

text \<open>The loop that pops entries from the end while their index is at least \<open>from\<close>.\<close>

definition popFrom :: "nat \<Rightarrow> LogEntry list \<Rightarrow> LogEntry list" where
  "popFrom from es = rev (dropWhile (\<lambda>e. Index e \<ge> from) (rev es))"

text \<open>The callback of the replay in \<open>openPersister\<close>.\<close>

definition raft_replay_fn ::
  "pbcodec \<Rightarrow> bytes \<Rightarrow> persistedState \<Rightarrow> raft_record_error option \<times> persistedState" where
  "raft_replay_fn pb payload st =
     (case payload of
        [] \<Rightarrow> (Some EmptyRecord, st)
      | ty # body \<Rightarrow>
          if ty = recHardState then
            if length payload \<noteq> 17 then (Some (BadHardState (length payload)), st)
            else (None, st\<lparr>ps_term := unat (Uint64 (take 8 body)),
                           ps_votedFor := unat (Uint64 (take 8 (drop 8 body)))\<rparr>)
          else if ty = recEntry then
            (case Unmarshal pb body of
               None \<Rightarrow> (Some UnmarshalEntry, st)
             | Some e \<Rightarrow> (None, st\<lparr>ps_entries := ps_entries st @ [e]\<rparr>))
          else if ty = recTruncate then
            if length payload \<noteq> 9 then (Some (BadTruncate (length payload)), st)
            else (None, st\<lparr>ps_entries := popFrom (unat (Uint64 (take 8 body))) (ps_entries st)\<rparr>)
          else (Some (UnknownRecord ty), st))"

section \<open>Opening\<close>

definition emptyState :: persistedState where
  "emptyState = \<lparr>ps_term = 0, ps_votedFor = noVote, ps_entries = [],
     ps_snapIndex = 0, ps_snapTerm = 0, ps_snapData = []\<rparr>"

definition withSnapshot :: "bytes \<Rightarrow> persistedState \<Rightarrow> persistedState" where
  "withSnapshot raw st =
     st\<lparr>ps_snapIndex := unat (Uint64 (take 8 raw)), ps_snapTerm := unat (Uint64 (take 8 (drop 8 raw))),
        ps_snapData := drop 16 raw\<rparr>"

definition loadRaftSnapshot :: "persistedState \<Rightarrow> (world, persist_error, persistedState) io" where
  "loadRaftSnapshot st =
     bindE (wrapE PIO (os_ReadFile raftSnapName)) (\<lambda>f. case f of
         None \<Rightarrow> returnE st
       | Some raw \<Rightarrow>
           if length raw < 16 then throwE (SnapTooShort (length raw))
           else returnE (withSnapshot raw st))"

text \<open>Entries at or below the snapshot are dropped after the replay.\<close>

definition dropCompacted :: "persistedState \<Rightarrow> persistedState" where
  "dropCompacted st =
     (if ps_snapIndex st > 0
      then st\<lparr>ps_entries := dropWhile (\<lambda>e. Index e \<le> ps_snapIndex st) (ps_entries st)\<rparr>
      else st)"

definition openPersister :: "pbcodec \<Rightarrow> (world, persist_error, persister \<times> persistedState) io" where
  "openPersister pb =
     bindE (wrapE PIO os_MkdirAll) (\<lambda>_.
     bindE (loadRaftSnapshot emptyState) (\<lambda>st w.
       case replayWAL raftWALName (raft_replay_fn pb) st w of
         ((validOffset, Some e, _), w') \<Rightarrow> (Inl (PReplay e), w')
       | ((validOffset, None, st'), w') \<Rightarrow>
           bindE (wrapE PIO (cutTail raftWALName validOffset)) (\<lambda>_.
           bindE (wrapE PIO (OpenWAL raftWALName)) (\<lambda>W.
             returnE (\<lparr>p_wal = Some W\<rparr>, dropCompacted st'))) w'))"

section \<open>Writing\<close>

text \<open>An operation on the log of the persister.\<close>

definition on_wal :: "(wstate, io_error, unit) io \<Rightarrow> (pstate, persist_error, unit) io" where
  "on_wal m = (\<lambda>(p, w).
     case p_wal p of
       None \<Rightarrow> (Inl PNil, (p, w))
     | Some W \<Rightarrow>
         (case m (W, w) of
            (Inl e, (W', w')) \<Rightarrow> (Inl (PIO e), (p\<lparr>p_wal := Some W'\<rparr>, w'))
          | (Inr _, (W', w')) \<Rightarrow> (Inr (), (p\<lparr>p_wal := Some W'\<rparr>, w'))))"

definition saveHardState :: "nat \<Rightarrow> nat \<Rightarrow> (pstate, persist_error, unit) io" where
  "saveHardState t v = bindE (on_wal (Append (hardStateRecord t v))) (\<lambda>_. on_wal Sync)"

fun appendLoop :: "pbcodec \<Rightarrow> LogEntry list \<Rightarrow> (pstate, persist_error, unit) io" where
  "appendLoop pb [] = returnE ()"
| "appendLoop pb (e # es) =
     (case Marshal pb e of
        None \<Rightarrow> throwE PMarshal
      | Some body \<Rightarrow> bindE (on_wal (Append (entryRecord body))) (\<lambda>_. appendLoop pb es))"

definition appendEntries :: "pbcodec \<Rightarrow> LogEntry list \<Rightarrow> (pstate, persist_error, unit) io" where
  "appendEntries pb es = bindE (appendLoop pb es) (\<lambda>_. on_wal Sync)"

definition truncateFrom :: "nat \<Rightarrow> (pstate, persist_error, unit) io" where
  "truncateFrom from = bindE (on_wal (Append (truncateRecord from))) (\<lambda>_. on_wal Sync)"

text \<open>
  \<open>saveSnapshot\<close>. The replacement log is built through a handle of its own, here a second
  persister state \<open>q\<close>; an error closes that handle.
\<close>

definition snapshotImage :: "nat \<Rightarrow> nat \<Rightarrow> bytes \<Rightarrow> bytes" where
  "snapshotImage index t data = PutUint64 (word_of_nat index) @ PutUint64 (word_of_nat t) @ data"

definition closeWal :: "(pstate, persist_error, unit) io" where
  "closeWal = on_wal Close"

definition buildWal :: "pbcodec \<Rightarrow> nat \<Rightarrow> nat \<Rightarrow> LogEntry list \<Rightarrow> (world, persist_error, unit) io" where
  "buildWal pb hardTerm votedFor keep w =
     bindE (ignoreE (os_Remove raftWALTmpName)) (\<lambda>_.
     bindE (wrapE PIO (OpenWAL raftWALTmpName)) (\<lambda>W w1.
       case bindE (onerrE (on_wal (Append (hardStateRecord hardTerm votedFor))) closeWal) (\<lambda>_.
            bindE (onerrE (appendLoop pb keep) closeWal) (\<lambda>_.
            bindE (onerrE (on_wal Sync) closeWal) (\<lambda>_.
            closeWal))) (\<lparr>p_wal = Some W\<rparr>, w1) of
         (r, (_, w2)) \<Rightarrow> (r, w2))) w"

definition saveSnapshot ::
  "pbcodec \<Rightarrow> nat \<Rightarrow> nat \<Rightarrow> bytes \<Rightarrow> nat \<Rightarrow> nat \<Rightarrow> LogEntry list \<Rightarrow> (pstate, persist_error, unit) io"
where
  "saveSnapshot pb index t data hardTerm votedFor keep = (\<lambda>(p, w).
     case bindE (wrapE PIO (installFile raftSnapTmpName raftSnapName (snapshotImage index t data)))
            (\<lambda>_. buildWal pb hardTerm votedFor keep) w of
       (Inl e, w1) \<Rightarrow> (Inl e, (p, w1))
     | (Inr _, w1) \<Rightarrow>
         (case closeWal (p, w1) of
            (Inl e, s2) \<Rightarrow> (Inl e, s2)
          | (Inr _, (p2, w2)) \<Rightarrow>
              (case bindE (wrapE PIO (os_Rename raftWALTmpName raftWALName)) (\<lambda>_.
                    bindE (wrapE PIO syncDir) (\<lambda>_.
                    wrapE PIO (OpenWAL raftWALName))) w2 of
                 (Inl e, w3) \<Rightarrow> (Inl e, (p2, w3))
               | (Inr W, w3) \<Rightarrow> (Inr (), (p2\<lparr>p_wal := Some W\<rparr>, w3)))))"

definition readSnapshot :: "(world, persist_error, nat \<times> nat \<times> bytes) io" where
  "readSnapshot =
     bindE (wrapE PIO (os_ReadFile raftSnapName)) (\<lambda>f. case f of
         None \<Rightarrow> returnE (0, 0, [])
       | Some raw \<Rightarrow>
           if length raw < 16 then throwE (SnapTooShort (length raw))
           else returnE (unat (Uint64 (take 8 raw)), unat (Uint64 (take 8 (drop 8 raw))), drop 16 raw))"

definition persist_close :: "(pstate, persist_error, unit) io" where
  "persist_close = (\<lambda>(p, w).
     case p_wal p of
       None \<Rightarrow> (Inr (), (p, w))
     | Some W \<Rightarrow>
         (case Close (W, w) of
            (Inl e, (_, w')) \<Rightarrow> (Inl (PIO e), (p\<lparr>p_wal := None\<rparr>, w'))
          | (Inr _, (_, w')) \<Rightarrow> (Inr (), (p\<lparr>p_wal := None\<rparr>, w'))))"

section \<open>The contract of a journal\<close>

text \<open>
  What a journal promises to a client that keeps a state \<open>'v\<close> in it as a sequence of records.
  \<open>holds V C s\<close>: whatever a crash leaves in state \<open>s\<close>, replaying it gives a member of \<open>V\<close>, and
  if everything written so far reaches the disk, a member of \<open>C\<close>. A successful flush makes
  the second set the only outcome.
\<close>

locale journal =
  fixes holds :: "'v set \<Rightarrow> 'v set \<Rightarrow> 's \<Rightarrow> bool"
    and put :: "bytes \<Rightarrow> ('s, 'e, unit) io"
    and flush :: "('s, 'e, unit) io"
    and apply_rec :: "bytes \<Rightarrow> 'v \<Rightarrow> 'v option"
  assumes put_holds:
      "holds V C s \<Longrightarrow> frameable r \<Longrightarrow> (\<And>v. v \<in> C \<Longrightarrow> apply_rec r v = Some (g v)) \<Longrightarrow>
       put r s = (x, s') \<Longrightarrow> holds (V \<union> g ` C) (g ` C) s'"
    and flush_ok: "holds V C s \<Longrightarrow> flush s = (Inr u, s') \<Longrightarrow> holds C C s'"
    and flush_err: "holds V C s \<Longrightarrow> flush s = (Inl e, s') \<Longrightarrow> holds V C s'"
    and holds_mono: "holds V C s \<Longrightarrow> V \<subseteq> V' \<Longrightarrow> holds V' C s"
begin

lemma put_flush:
  assumes "holds V {v} s" and "frameable r" and "apply_rec r v = Some v'"
    and run: "bindE (put r) (\<lambda>_. flush) s = (x, s')"
  shows "x = Inr () \<Longrightarrow> holds {v'} {v'} s'" and "holds (insert v' V) {v'} s'"
proof -
  have put: "holds (insert v' V) {v'} s1" if "put r s = (y, s1)" for y s1
    using put_holds [OF assms(1,2) _ that, of "\<lambda>_. v'"] assms(3) by simp
  show "holds {v'} {v'} s'" if "x = Inr ()"
    using run put flush_ok that by (auto simp: bindE_eq_Inr)
  from run show "holds (insert v' V) {v'} s'"
  proof (cases rule: bindE_cases)
    case (error e)
    from put [OF error(1)] show ?thesis .
  next
    case (ok y s1)
    show ?thesis
    proof (cases x)
      case (Inl e)
      show ?thesis by (rule flush_err [OF put [OF ok(1)]]) (use ok(2) Inl in simp)
    next
      case (Inr u)
      have "holds {v'} {v'} s'" by (rule flush_ok [OF put [OF ok(1)]]) (use ok(2) Inr in simp)
      then show ?thesis by (rule holds_mono) simp
    qed
  qed
qed

end

text \<open>The persister is such a journal.\<close>

definition raft_image :: "world \<Rightarrow> (string \<rightharpoonup> nat) \<Rightarrow> persistedState \<Rightarrow> bool" where
  "raft_image w d S \<longleftrightarrow>
     (case d raftSnapName of
        None \<Rightarrow> S = emptyState
      | Some i \<Rightarrow> \<exists>raw. inodes w i = synced_file raw \<and> 16 \<le> length raw \<and> S = withSnapshot raw emptyState)"

definition survivor :: "bytes list \<Rightarrow> bytes list \<Rightarrow> bytes list \<Rightarrow> bytes list \<Rightarrow> bool" where
  "survivor os qs ps rs \<longleftrightarrow> rs = os \<or> (prefix qs rs \<and> prefix rs ps)"

definition dir_recovers :: "pbcodec \<Rightarrow> persistedState set \<Rightarrow> persistedState set \<Rightarrow> nat \<Rightarrow>
  (bytes list \<Rightarrow> bool) \<Rightarrow> bytes list \<Rightarrow> world \<Rightarrow> (string \<rightharpoonup> nat) \<Rightarrow> bool" where
  "dir_recovers pb V C f survives ps w d \<longleftrightarrow>
     d raftWALName = Some f \<and> d raftSnapName \<noteq> Some f \<and>
     (\<exists>S. raft_image w d S \<and>
        (\<forall>rs. survives rs \<longrightarrow> (\<exists>v \<in> V. run_fn (raft_replay_fn pb) rs S = (None, v))) \<and>
        (\<exists>v \<in> C. run_fn (raft_replay_fn pb) ps S = (None, v)))"

definition recovers ::
  "pbcodec \<Rightarrow> persistedState set \<Rightarrow> persistedState set \<Rightarrow> pstate \<Rightarrow> bool" where
  "recovers pb V C = (\<lambda>(p, w). \<exists>W os qs ps. p_wal p = Some W \<and> wal_rep (W, w) os qs ps \<and>
     (\<forall>d \<in> set (possible_dirs w). dir_recovers pb V C (wal_f W) (survivor os qs ps) ps w d))"

lemma recoversE:
  assumes "recovers pb V C (p, w)"
  obtains W os qs ps where "p_wal p = Some W" and "wal_rep (W, w) os qs ps"
    and "\<forall>d \<in> set (possible_dirs w). dir_recovers pb V C (wal_f W) (survivor os qs ps) ps w d"
  using assms unfolding recovers_def by blast

lemma recoversI:
  assumes "p_wal p = Some W" and "wal_rep (W, w) os qs ps"
    and "\<And>d. d \<in> set (possible_dirs w) \<Longrightarrow> dir_recovers pb V C (wal_f W) (survivor os qs ps) ps w d"
  shows "recovers pb V C (p, w)"
  using assms unfolding recovers_def by blast

definition apply_record :: "pbcodec \<Rightarrow> bytes \<Rightarrow> persistedState \<Rightarrow> persistedState option" where
  "apply_record pb r v = (case raft_replay_fn pb r v of (None, v') \<Rightarrow> Some v' | _ \<Rightarrow> None)"

lemma run_fn_snoc:
  "run_fn fn ps s = (None, v) \<Longrightarrow> run_fn fn (ps @ [p]) s = run_fn fn [p] v"
  by (induction ps arbitrary: s) (auto split: prod.splits option.splits)

lemma raft_image_only_file:
  assumes "only_file f w w'" and "d raftSnapName \<noteq> Some f"
  shows "raft_image w' d S = raft_image w d S"
  using assms by (auto simp: raft_image_def only_file_def split: option.splits)

lemma dir_recovers_snoc:
  assumes dr: "dir_recovers pb V C f (survivor os qs ps) ps w d" and of: "only_file f w w'"
    and g: "\<And>v. v \<in> C \<Longrightarrow> apply_record pb r v = Some (g v)"
  shows "dir_recovers pb (V \<union> g ` C) (g ` C) f (survivor os qs (ps @ [r])) (ps @ [r]) w' d"
proof -
  from dr obtain S v where S: "d raftWALName = Some f" "d raftSnapName \<noteq> Some f" "raft_image w d S"
      "\<And>rs. survivor os qs ps rs \<Longrightarrow> \<exists>v \<in> V. run_fn (raft_replay_fn pb) rs S = (None, v)"
    and v: "v \<in> C" "run_fn (raft_replay_fn pb) ps S = (None, v)"
    unfolding dir_recovers_def by blast
  have "run_fn (raft_replay_fn pb) [r] v = (None, g v)"
    using g [OF v(1)] by (auto simp: apply_record_def split: prod.splits option.splits)
  then have full: "run_fn (raft_replay_fn pb) (ps @ [r]) S = (None, g v)"
    using run_fn_snoc [OF v(2)] by simp
  have "\<exists>v \<in> V \<union> g ` C. run_fn (raft_replay_fn pb) rs S = (None, v)"
    if "survivor os qs (ps @ [r]) rs" for rs
    using that S(4) [of rs] full v(1) by (auto simp: survivor_def prefix_snoc)
  moreover have "raft_image w' d S" using raft_image_only_file [OF of, of d] S(2,3) by simp
  ultimately show ?thesis unfolding dir_recovers_def using S(1,2) full v(1) by blast
qed

lemma dir_recovers_synced:
  assumes dr: "dir_recovers pb V C f (survivor os qs ps) ps w d" and of: "only_file f w w'"
  shows "dir_recovers pb C C f (survivor ps ps ps) ps w' d"
    and "dir_recovers pb V C f (survivor os qs ps) ps w' d"
proof -
  have surv: "survivor ps ps ps rs \<longleftrightarrow> rs = ps" for rs
    by (auto simp: survivor_def intro: prefix_order.antisym)
  from dr have img: "raft_image w' d S = raft_image w d S" for S
    using raft_image_only_file [OF of, of d] unfolding dir_recovers_def by blast
  show "dir_recovers pb C C f (survivor ps ps ps) ps w' d"
    using dr unfolding dir_recovers_def img surv by blast
  show "dir_recovers pb V C f (survivor os qs ps) ps w' d"
    using dr unfolding dir_recovers_def img by blast
qed

lemma on_wal_cases:
  assumes "on_wal m (p, w) = (x, (p', w'))" and "p_wal p = Some W"
  obtains y W1 where "m (W, w) = (y, (W1, w'))" and "p' = p\<lparr>p_wal := Some W1\<rparr>"
    and "x = (case y of Inl e \<Rightarrow> Inl (PIO e) | Inr _ \<Rightarrow> Inr ())"
  using assms by (auto simp: on_wal_def split: sum.splits prod.splits)

lemma recovers_Append:
  assumes rec: "recovers pb V C (p, w)" and fr: "frameable r"
    and g: "\<And>v. v \<in> C \<Longrightarrow> apply_record pb r v = Some (g v)"
    and run: "on_wal (Append r) (p, w) = (x, (p', w'))"
  shows "recovers pb (V \<union> g ` C) (g ` C) (p', w')"
proof -
  obtain W os qs ps where W: "p_wal p = Some W" and rep: "wal_rep (W, w) os qs ps"
    and dirs: "\<forall>d \<in> set (possible_dirs w).
      dir_recovers pb V C (wal_f W) (survivor os qs ps) ps w d"
    by (rule recoversE [OF rec])
  obtain y W1 where a: "Append r (W, w) = (y, (W1, w'))" and p': "p' = p\<lparr>p_wal := Some W1\<rparr>"
    using on_wal_cases [OF run W] by blast
  note fr1 = Append_frame [OF a]
  have f: "wal_f W1 = wal_f W" using fr1(2) by (simp add: same_handle_def)
  have same: "possible_dirs w' = possible_dirs w" using fr1(1) by (simp add: only_file_def possible_dirs_def)
  show ?thesis
  proof (rule recoversI [where os = os and qs = qs])
    show "p_wal p' = Some W1" by (simp add: p')
    show "wal_rep (W1, w') os qs (ps @ [r])" by (rule wal_rep_Append [OF rep fr a])
    show "dir_recovers pb (V \<union> g ` C) (g ` C) (wal_f W1) (survivor os qs (ps @ [r])) (ps @ [r]) w' d"
      if "d \<in> set (possible_dirs w')" for d
      unfolding f using dir_recovers_snoc [OF bspec [OF dirs] fr1(1)] that same g by metis
  qed
qed

lemma recovers_Sync:
  assumes rec: "recovers pb V C (p, w)" and run: "on_wal Sync (p, w) = (x, (p', w'))"
  shows "case x of Inr _ \<Rightarrow> recovers pb C C (p', w') | Inl _ \<Rightarrow> recovers pb V C (p', w')"
proof -
  obtain W os qs ps where W: "p_wal p = Some W" and rep: "wal_rep (W, w) os qs ps"
    and dirs: "\<forall>d \<in> set (possible_dirs w).
      dir_recovers pb V C (wal_f W) (survivor os qs ps) ps w d"
    by (rule recoversE [OF rec])
  obtain y W1 where a: "Sync (W, w) = (y, (W1, w'))" and p': "p' = p\<lparr>p_wal := Some W1\<rparr>"
    and x: "x = (case y of Inl e \<Rightarrow> Inl (PIO e) | Inr _ \<Rightarrow> Inr ())"
    using on_wal_cases [OF run W] by blast
  note fr1 = Sync_frame [OF a]
  have f: "wal_f W1 = wal_f W" using fr1(2) by (simp add: same_handle_def)
  have same: "possible_dirs w' = possible_dirs w" using fr1(1) by (simp add: only_file_def possible_dirs_def)
  have d1: "dir_recovers pb C C (wal_f W1) (survivor ps ps ps) ps w' d"
    and d2: "dir_recovers pb V C (wal_f W1) (survivor os qs ps) ps w' d"
    if "d \<in> set (possible_dirs w')" for d
    unfolding f using dir_recovers_synced [OF bspec [OF dirs] fr1(1)] that same by metis+
  have pw: "p_wal p' = Some W1" by (simp add: p')
  show ?thesis
  proof (cases y)
    case (Inl e)
    then have "wal_rep (W1, w') os qs ps" using wal_rep_Sync [OF rep a] by simp
    from recoversI [OF pw this d2] show ?thesis by (simp add: x Inl)
  next
    case (Inr u)
    then have "wal_rep (W1, w') ps ps ps" using wal_rep_Sync [OF rep a] by simp
    from recoversI [OF pw this d1] show ?thesis by (simp add: x Inr)
  qed
qed

lemma recovers_mono:
  assumes "recovers pb V C s" and "V \<subseteq> V'"
  shows "recovers pb V' C s"
proof -
  obtain p w where s: "s = (p, w)" by (cases s)
  obtain W os qs ps where W: "p_wal p = Some W" and rep: "wal_rep (W, w) os qs ps"
    and dirs: "\<forall>d \<in> set (possible_dirs w).
      dir_recovers pb V C (wal_f W) (survivor os qs ps) ps w d"
    by (rule recoversE [OF assms(1) [unfolded s]])
  have "dir_recovers pb V' C f S ps w d" if "dir_recovers pb V C f S ps w d" for f S d
    using that assms(2) unfolding dir_recovers_def by (meson subsetD)
  with recoversI [OF W rep] dirs show ?thesis by (simp add: s)
qed

interpretation pj: journal "recovers pb" "\<lambda>r. on_wal (Append r)" "on_wal Sync" "apply_record pb" for pb
proof
  fix V C s r g x s'
  assume "recovers pb V C s" "frameable r" "\<And>v. v \<in> C \<Longrightarrow> apply_record pb r v = Some (g v)"
    "on_wal (Append r) s = (x, s')"
  then show "recovers pb (V \<union> g ` C) (g ` C) s'"
    using recovers_Append by (cases s; cases s') blast
next
  fix V C s u s'
  assume "recovers pb V C s" "on_wal Sync s = (Inr u, s')"
  then show "recovers pb C C s'" by (cases s; cases s') (use recovers_Sync in fastforce)
next
  fix V C s e s'
  assume "recovers pb V C s" "on_wal Sync s = (Inl e, s')"
  then show "recovers pb V C s'" by (cases s; cases s') (use recovers_Sync in fastforce)
next
  fix V C s V'
  assume "recovers pb V C s" "V \<subseteq> V'"
  then show "recovers pb V' C s" by (rule recovers_mono)
qed

section \<open>What the records do\<close>

lemma apply_hardState:
  assumes "t < 2 ^ 64" and "v < 2 ^ 64"
  shows "apply_record pb (hardStateRecord t v) st = Some (st\<lparr>ps_term := t, ps_votedFor := v\<rparr>)"
  using assms
  by (simp add: apply_record_def raft_replay_fn_def hardStateRecord_def recHardState_def unat_u64_of_nat)

lemma apply_entry:
  "Unmarshal pb b = Some e \<Longrightarrow>
   apply_record pb (entryRecord b) st = Some (st\<lparr>ps_entries := ps_entries st @ [e]\<rparr>)"
  by (simp add: apply_record_def raft_replay_fn_def entryRecord_def recHardState_def recEntry_def)

lemma apply_truncate:
  "i < 2 ^ 64 \<Longrightarrow>
   apply_record pb (truncateRecord i) st = Some (st\<lparr>ps_entries := popFrom i (ps_entries st)\<rparr>)"
  by (simp add: apply_record_def raft_replay_fn_def truncateRecord_def recHardState_def recEntry_def
      recTruncate_def unat_u64_of_nat)

lemma frameable_records: "frameable (hardStateRecord t v)" "frameable (truncateRecord i)"
  by (simp_all add: frameable_def hardStateRecord_def truncateRecord_def)

lemma saveHardState_recovers:
  assumes "recovers pb V {v} s" and "t < 2 ^ 64" and "u < 2 ^ 64" and "saveHardState t u s = (x, s')"
  defines "v' \<equiv> v\<lparr>ps_term := t, ps_votedFor := u\<rparr>"
  shows "x = Inr () \<Longrightarrow> recovers pb {v'} {v'} s'" and "recovers pb (insert v' V) {v'} s'"
  using pj.put_flush [OF assms(1) frameable_records(1) apply_hardState [OF assms(2,3)]
      assms(4) [unfolded saveHardState_def]] unfolding v'_def by auto

lemma truncateFrom_recovers:
  assumes "recovers pb V {v} s" and "i < 2 ^ 64" and "truncateFrom i s = (x, s')"
  defines "v' \<equiv> v\<lparr>ps_entries := popFrom i (ps_entries v)\<rparr>"
  shows "x = Inr () \<Longrightarrow> recovers pb {v'} {v'} s'" and "recovers pb (insert v' V) {v'} s'"
  using pj.put_flush [OF assms(1) frameable_records(2) apply_truncate [OF assms(2)]
      assms(3) [unfolded truncateFrom_def]] unfolding v'_def by auto

text \<open>What the protobuf codec must do on an entry for the entry to be stored and read back.\<close>

definition codec_ok :: "pbcodec \<Rightarrow> LogEntry \<Rightarrow> bool" where
  "codec_ok pb e \<longleftrightarrow>
     (\<exists>b. Marshal pb e = Some b \<and> Unmarshal pb b = Some e \<and> frameable (entryRecord b))"

definition grow :: "persistedState \<Rightarrow> LogEntry list \<Rightarrow> persistedState" where
  "grow v es = v\<lparr>ps_entries := ps_entries v @ es\<rparr>"

lemma grow_simps [simp]:
  "grow v [] = v" "grow (grow v es) fs = grow v (es @ fs)" "ps_entries (grow v es) = ps_entries v @ es"
  "ps_term (grow v es) = ps_term v" "ps_votedFor (grow v es) = ps_votedFor v"
  "ps_snapIndex (grow v es) = ps_snapIndex v"
  by (simp_all add: grow_def)

lemma appendLoop_recovers:
  assumes "recovers pb V {v} s" and "list_all (codec_ok pb) es" and "appendLoop pb es s = (x, s')"
  shows "\<exists>fs V'. prefix fs es \<and> V' \<subseteq> V \<union> grow v ` {gs. prefix gs es} \<and>
    recovers pb V' {grow v fs} s' \<and> (x = Inr () \<longrightarrow> fs = es)"
  using assms
proof (induction es arbitrary: V v s)
  case Nil
  then show ?case by (intro exI [of _ "[]"] exI [of _ V]) (simp add: subset_insertI)
next
  case (Cons e es)
  from Cons.prems(2) obtain b where b: "Marshal pb e = Some b" "Unmarshal pb b = Some e"
    "frameable (entryRecord b)" by (auto simp: codec_ok_def)
  have put: "recovers pb (V \<union> {grow v [e]}) {grow v [e]} s1"
    if "on_wal (Append (entryRecord b)) s = (y, s1)" for y s1
    using pj.put_holds [OF Cons.prems(1) b(3) _ that, of "\<lambda>_. grow v [e]"] apply_entry [OF b(2)]
    by (simp add: grow_def)
  from Cons.prems(3) have run: "bindE (on_wal (Append (entryRecord b))) (\<lambda>_. appendLoop pb es) s = (x, s')"
    by (simp add: b(1))
  from run show ?case
  proof (cases rule: bindE_cases)
    case (error er)
    have "recovers pb (V \<union> {grow v [e]}) {grow v [e]} s'" by (rule put [OF error(1)])
    moreover have "grow v [e] \<in> grow v ` {gs. prefix gs (e # es)}" by (intro imageI) simp
    ultimately show ?thesis
      using error(2) by (intro exI [of _ "[e]"] exI [of _ "V \<union> {grow v [e]}"]) auto
  next
    case (ok y s1)
    have "list_all (codec_ok pb) es" using Cons.prems(2) by simp
    from Cons.IH [OF put [OF ok(1)] this ok(2)] obtain fs V' where
      *: "prefix fs es" "V' \<subseteq> V \<union> {grow v [e]} \<union> grow (grow v [e]) ` {gs. prefix gs es}"
        "recovers pb V' {grow (grow v [e]) fs} s'" "x = Inr () \<longrightarrow> fs = es" by blast
    have "grow v [e] \<in> grow v ` {gs. prefix gs (e # es)}" by (intro imageI) simp
    moreover have "grow (grow v [e]) gs \<in> grow v ` {gs. prefix gs (e # es)}" if "prefix gs es" for gs
      using that by (intro image_eqI [of _ _ "e # gs"]) simp_all
    ultimately have "V' \<subseteq> V \<union> grow v ` {gs. prefix gs (e # es)}"
      using *(2) by blast
    with * show ?thesis by (intro exI [of _ "e # fs"] exI [of _ V']) simp
  qed
qed

lemma appendEntries_recovers:
  assumes "recovers pb V {v} s" and "list_all (codec_ok pb) es" and "appendEntries pb es s = (Inr u, s')"
  shows "recovers pb {grow v es} {grow v es} s'"
proof -
  from assms(3) obtain s1 where l: "appendLoop pb es s = (Inr (), s1)" and f: "on_wal Sync s1 = (Inr u, s')"
    by (auto simp: appendEntries_def bindE_eq_Inr)
  from appendLoop_recovers [OF assms(1,2) l] obtain V' where "recovers pb V' {grow v es} s1" by blast
  then show ?thesis using f by (rule pj.flush_ok)
qed

section \<open>Recovery\<close>

definition p_healthy :: "pstate \<Rightarrow> bool" where
  "p_healthy = (\<lambda>(p, w). \<exists>W. p_wal p = Some W \<and> healthy (W, w))"

lemma recover_dir:
  assumes rec: "recovers pb V C (p, w)" and cr: "crash w w'"
  obtains S rs t v f where "raft_image w' (dirents w') S" and "dirents w' raftWALName = Some f"
    and "dirents w' raftSnapName \<noteq> Some f"
    and "inodes w' f = synced_file (frames rs @ t)" and "torn t" and "list_all frameable rs"
    and "v \<in> V" and "run_fn (raft_replay_fn pb) rs S = (None, v)"
proof -
  obtain W os qs ps where W: "p_wal p = Some W" and rep: "wal_rep (W, w) os qs ps"
    and dirs: "\<forall>d \<in> set (possible_dirs w).
      dir_recovers pb V C (wal_f W) (survivor os qs ps) ps w d"
    by (rule recoversE [OF rec])
  obtain rs t where c: "contents w' (wal_f W) = frames rs @ t" "torn t" "list_all frameable rs"
    and "rs = os \<or> (prefix qs rs \<and> prefix rs ps)"
    by (rule wal_crash_contents [OF rep crash_contents [OF cr]])
  then have rs: "survivor os qs ps rs" by (simp add: survivor_def)
  from bspec [OF dirs crash_dirents [OF cr]] obtain S where S: "raft_image w (dirents w') S"
    "dirents w' raftWALName = Some (wal_f W)" "dirents w' raftSnapName \<noteq> Some (wal_f W)"
    and "\<forall>rs. survivor os qs ps rs \<longrightarrow> (\<exists>v \<in> V. run_fn (raft_replay_fn pb) rs S = (None, v))"
    unfolding dir_recovers_def by blast
  with rs obtain v where v: "v \<in> V" "run_fn (raft_replay_fn pb) rs S = (None, v)" by blast
  have "raft_image w' (dirents w') S"
  proof (cases "dirents w' raftSnapName")
    case None
    then show ?thesis using S(1) by (simp add: raft_image_def)
  next
    case (Some i)
    with S(1) obtain raw where raw: "inodes w i = synced_file raw" "16 \<le> length raw"
      "S = withSnapshot raw emptyState" by (auto simp: raft_image_def)
    then have "inodes w' i = synced_file raw"
      using crash_contents [OF cr, of i] crash_inodes [OF cr, of i] by (auto dest: crash_file_synced)
    with Some raw show ?thesis by (auto simp: raft_image_def)
  qed
  moreover have "inodes w' (wal_f W) = synced_file (frames rs @ t)"
    using crash_inodes [OF cr, of "wal_f W"] c(1) by simp
  ultimately show thesis by (rule that [OF _ S(2,3) _ c(2,3) v])
qed

lemma openPersister_ok:
  assumes img: "raft_image w (dirents w) S" and ent: "dirents w raftWALName = Some f"
    and f: "inodes w f = synced_file (frames rs @ t)" and t: "torn t" "list_all frameable rs"
    and run: "run_fn (raft_replay_fn pb) rs S = (None, v)" and nf: "faults w = []"
    and ne: "dirents w raftSnapName \<noteq> Some f" and past: "past_dirents w = []"
  obtains p' w' where "openPersister pb w = (Inr (p', dropCompacted v), w')"
    and "recovers pb {v} {v} (p', w')" and "p_healthy (p', w')"
proof -
  have load: "loadRaftSnapshot emptyState w = (Inr S, w)"
    using img nf
    by (auto simp: loadRaftSnapshot_def raft_image_def os_ReadFile_def os_Open_def contents_def
        bindE_def wrapE_def split: option.splits)
  have con: "contents w f = frames rs @ t" using f by (simp add: contents_def)
  have rep: "replayWAL raftWALName (raft_replay_fn pb) S w = ((length (frames rs), None, v), w)"
    using replay_torn_tail [OF t(2,1) run] nf by (simp add: replayWAL_def os_Open_def ent con)
  define w1 where "w1 = (if t = [] then w
    else set_inode f ((inodes w f)\<lparr>i_keep := length (frames rs), i_cur := frames rs\<rparr>) w)"
  have cut: "cutTail raftWALName (length (frames rs)) w = (Inr (), w1)"
    using nf by (simp add: cutTail_def os_Stat_def os_Truncate_def ent con w1_def f)
  define W where "W = \<lparr>wal_f = f, wal_closed = False, wal_buf = [], wal_err = None,
    wal_path = raftWALName\<rparr>"
  have nf1: "faults w1 = []" "dirents w1 raftWALName = Some f" using nf ent by (auto simp: w1_def)
  then have op: "OpenWAL raftWALName w1 = (Inr W, w1)"
    by (simp add: OpenWAL_def os_OpenAppend_def W_def bindE_def)
  have "openPersister pb w = (Inr (\<lparr>p_wal = Some W\<rparr>, dropCompacted v), w1)"
    using nf by (simp add: openPersister_def os_MkdirAll_def bindE_def wrapE_def load rep cut op)
  moreover have "recovers pb {v} {v} (\<lparr>p_wal = Some W\<rparr>, w1)"
  proof (rule recoversI [where W = W and os = rs and qs = rs and ps = rs])
    show "wal_rep (W, w1) rs rs rs"
      using t f by (auto simp: wal_rep_def W_def w1_def durable_def contents_def)
    show "dir_recovers pb {v} {v} (wal_f W) (survivor rs rs rs) rs w1 d"
      if "d \<in> set (possible_dirs w1)" for d
    proof -
      have d: "d = dirents w" using that past by (auto simp: w1_def possible_dirs_def split: if_splits)
      have "only_file f w w1" by (simp add: w1_def only_file_def)
      then have "raft_image w1 d S" using raft_image_only_file [of f w w1 d] img ne d by simp
      moreover have "survivor rs rs rs qs \<longleftrightarrow> qs = rs" for qs
        by (auto simp: survivor_def intro: prefix_order.antisym)
      ultimately show ?thesis using ent ne run d unfolding dir_recovers_def by (auto simp: W_def)
    qed
  qed simp
  moreover have "p_healthy (\<lparr>p_wal = Some W\<rparr>, w1)" by (simp add: p_healthy_def healthy_def W_def nf1)
  ultimately show thesis using that by blast
qed

lemma crash_past: "crash w w' \<Longrightarrow> past_dirents w' = []"
  by (simp add: crash_def)

lemma recovery:
  assumes "recovers pb V C (p, w)" and "crash w w'" and "faults w' = []"
  obtains v p' w'' where "v \<in> V" and "openPersister pb w' = (Inr (p', dropCompacted v), w'')"
    and "recovers pb {v} {v} (p', w'')" and "p_healthy (p', w'')"
proof -
  obtain S rs t v f where
    *: "raft_image w' (dirents w') S" "dirents w' raftWALName = Some f" "dirents w' raftSnapName \<noteq> Some f"
      "inodes w' f = synced_file (frames rs @ t)" "torn t" "list_all frameable rs" "v \<in> V"
      "run_fn (raft_replay_fn pb) rs S = (None, v)"
    by (rule recover_dir [OF assms(1,2)])
  show thesis
    by (rule openPersister_ok [OF *(1,2,4-6,8) assms(3) *(3) crash_past [OF assms(2)]])
       (rule that [OF *(7)])
qed

section \<open>Progress without faults\<close>

definition p_succeeds :: "(pstate, persist_error, unit) io \<Rightarrow> bool" where
  "p_succeeds m \<longleftrightarrow> (\<forall>s. p_healthy s \<longrightarrow> fst (m s) = Inr () \<and> p_healthy (snd (m s)))"

lemma p_succeedsD: "p_succeeds m \<Longrightarrow> p_healthy s \<Longrightarrow> fst (m s) = Inr () \<and> p_healthy (snd (m s))"
  unfolding p_succeeds_def by blast

lemma p_succeeds_on_wal:
  assumes "succeeds m"
  shows "p_succeeds (on_wal m)"
  unfolding p_succeeds_def
proof (intro allI impI)
  fix s
  assume "p_healthy s"
  then obtain p w W where s: "s = (p, w)" and W: "p_wal p = Some W" and h: "healthy (W, w)"
    by (auto simp: p_healthy_def)
  from succeedsD [OF assms h] obtain W' w' where "m (W, w) = (Inr (), (W', w'))" "healthy (W', w')"
    by (cases "m (W, w)") auto
  then show "fst (on_wal m s) = Inr () \<and> p_healthy (snd (on_wal m s))"
    by (simp add: s on_wal_def W p_healthy_def)
qed

lemma p_succeeds_bindE: "p_succeeds m \<Longrightarrow> p_succeeds (f ()) \<Longrightarrow> p_succeeds (bindE m f)"
  unfolding p_succeeds_def bindE_def
  by (metis (mono_tags, lifting) case_prod_conv old.sum.simps(6) prod.collapse)

lemma p_succeeds_saveHardState: "p_succeeds (saveHardState t v)"
  unfolding saveHardState_def
  by (intro p_succeeds_bindE p_succeeds_on_wal succeeds_Append succeeds_Sync)

lemma p_succeeds_truncateFrom: "p_succeeds (truncateFrom i)"
  unfolding truncateFrom_def
  by (intro p_succeeds_bindE p_succeeds_on_wal succeeds_Append succeeds_Sync)

lemma p_succeeds_appendLoop: "list_all (codec_ok pb) es \<Longrightarrow> p_succeeds (appendLoop pb es)"
proof (induction es)
  case Nil
  then show ?case by (simp add: p_succeeds_def)
next
  case (Cons e es)
  then obtain b where "Marshal pb e = Some b" by (auto simp: codec_ok_def)
  with Cons show ?case
    by (auto intro!: p_succeeds_bindE p_succeeds_on_wal succeeds_Append)
qed

lemma p_succeeds_appendEntries: "list_all (codec_ok pb) es \<Longrightarrow> p_succeeds (appendEntries pb es)"
  unfolding appendEntries_def
  by (intro p_succeeds_bindE p_succeeds_appendLoop p_succeeds_on_wal succeeds_Sync)

text \<open>A directory with an empty log whose entry is durable.\<close>

definition raft_disk :: "fault list \<Rightarrow> world" where
  "raft_disk fs = \<lparr>inodes = (\<lambda>_. synced_file []), next_ino = 1,
     dirents = [raftWALName \<mapsto> 0], past_dirents = [], faults = fs\<rparr>"

definition fresh_persist :: "fault list \<Rightarrow> pstate" where
  "fresh_persist fs = (\<lparr>p_wal = Some \<lparr>wal_f = 0, wal_closed = False, wal_buf = [],
     wal_err = None, wal_path = raftWALName\<rparr>\<rparr>, raft_disk fs)"

lemma raft_names [simp]:
  "raftSnapName \<noteq> raftWALName" "raftWALName \<noteq> raftSnapName"
  "raftSnapTmpName \<noteq> raftSnapName" "raftSnapName \<noteq> raftSnapTmpName"
  "raftSnapTmpName \<noteq> raftWALName" "raftWALName \<noteq> raftSnapTmpName"
  "raftWALTmpName \<noteq> raftSnapName" "raftSnapName \<noteq> raftWALTmpName"
  "raftWALTmpName \<noteq> raftWALName" "raftWALName \<noteq> raftWALTmpName"
  "raftWALTmpName \<noteq> raftSnapTmpName" "raftSnapTmpName \<noteq> raftWALTmpName"
  by (simp_all add: raftSnapName_def raftWALName_def raftSnapTmpName_def raftWALTmpName_def)

lemma fresh_persist_recovers: "recovers pb {emptyState} {emptyState} (fresh_persist fs)"
  unfolding fresh_persist_def
proof (rule recoversI [where os = "[]" and qs = "[]" and ps = "[]"])
  show "dir_recovers pb {emptyState} {emptyState} (wal_f \<lparr>wal_f = 0, wal_closed = False, wal_buf = [],
      wal_err = None, wal_path = raftWALName\<rparr>) (survivor [] [] []) [] (raft_disk fs) d"
    if "d \<in> set (possible_dirs (raft_disk fs))" for d
    using that by (auto simp: dir_recovers_def raft_disk_def possible_dirs_def raft_image_def survivor_def)
qed (simp_all add: wal_rep_def raft_disk_def contents_def durable_def)

lemma fresh_persist_healthy: "p_healthy (fresh_persist [])"
  by (simp add: p_healthy_def fresh_persist_def healthy_def raft_disk_def)

end
