(* ===== verification/Node.thy ===== *)
theory Node
  imports Persist
begin

text \<open>
  \<^verbatim>\<open>src/internal/raft/node.go\<close>: the state of a Raft node, elections, the three RPC handlers,
  snapshots and the applier. Every function here runs under the node's mutex in the code, so
  each is one atomic step. What a step reads from outside (the clock and the random number
  generator) is an argument. The channels are not modelled: a step returns the messages to
  be sent and takes the responses that arrived.
\<close>

section \<open>Timings\<close>

text \<open>Durations and points in time are in nanoseconds; the zero time is 0.\<close>

record Timings =
  ElectionTimeoutMin :: int
  ElectionTimeoutMax :: int
  HeartbeatInterval :: int
  TickInterval :: int
  CommitStallTimeout :: int

definition Millisecond :: int where
  "Millisecond = 1000000"

definition DefaultTimings :: Timings where
  "DefaultTimings = \<lparr>ElectionTimeoutMin = 750 * Millisecond, ElectionTimeoutMax = 1500 * Millisecond,
     HeartbeatInterval = 150 * Millisecond, TickInterval = 25 * Millisecond,
     CommitStallTimeout = 30000 * Millisecond\<rparr>"

definition withDefaults :: "Timings \<Rightarrow> Timings" where
  "withDefaults t0 =
     (let d = DefaultTimings;
          t1 = (if ElectionTimeoutMin t0 \<le> 0
                then t0\<lparr>ElectionTimeoutMin := ElectionTimeoutMin d\<rparr> else t0);
          t2 = (if ElectionTimeoutMax t1 \<le> ElectionTimeoutMin t1
                then let m = ElectionTimeoutMin t1 + ElectionTimeoutMin t1 div 2
                     in if m \<le> ElectionTimeoutMin t1
                        then t1\<lparr>ElectionTimeoutMax := ElectionTimeoutMin t1 + Millisecond\<rparr>
                        else t1\<lparr>ElectionTimeoutMax := m\<rparr>
                else t1);
          t3 = (if HeartbeatInterval t2 \<le> 0
                then t2\<lparr>HeartbeatInterval := HeartbeatInterval d\<rparr> else t2);
          t4 = (if TickInterval t3 \<le> 0 then t3\<lparr>TickInterval := TickInterval d\<rparr> else t3)
      in if CommitStallTimeout t4 = 0
         then t4\<lparr>CommitStallTimeout := CommitStallTimeout d\<rparr> else t4)"

section \<open>The node\<close>

datatype Role = Follower | Candidate | Leader

record ApplyMsg =
  CommandValid :: bool
  ApCommand :: bytes
  CommandIndex :: nat
  CommandTerm :: nat
  SnapshotValid :: bool
  ApSnapshot :: bytes
  SnapshotIndex :: nat
  SnapshotTerm :: nat

definition snapshotMsg :: "bytes \<Rightarrow> nat \<Rightarrow> nat \<Rightarrow> ApplyMsg" where
  "snapshotMsg data i t = \<lparr>CommandValid = False, ApCommand = [], CommandIndex = 0, CommandTerm = 0,
     SnapshotValid = True, ApSnapshot = data, SnapshotIndex = i, SnapshotTerm = t\<rparr>"

definition commandMsg :: "LogEntry \<Rightarrow> ApplyMsg" where
  "commandMsg e = \<lparr>CommandValid = True, ApCommand = Data e, CommandIndex = Index e, CommandTerm = Term e,
     SnapshotValid = False, ApSnapshot = [], SnapshotIndex = 0, SnapshotTerm = 0\<rparr>"

record snapshotCache =
  sc_index :: nat
  sc_term :: nat
  sc_data :: bytes

text \<open>\<open>rs_notify\<close>: whether the one-slot channel holds a wake-up.\<close>

record replState =
  rs_peer :: nat
  rs_term :: nat
  rs_notify :: bool

record Node =
  nid :: nat
  peers :: "nat list"
  persist :: pstate
  tm :: Timings
  snapshotRetain :: nat
  snapCache :: snapshotCache
  currentTerm :: nat
  votedFor :: nat
  nlog :: raftLog
  role :: Role
  leaderID :: nat
  commitIndex :: nat
  lastApplied :: nat
  electionReset :: int
  electionTimeout :: int
  electionAttempts :: nat
  preVoteRound :: nat
  nextIndex :: "nat \<Rightarrow> nat"
  matchIndex :: "nat \<Rightarrow> nat"
  lastContact :: "(nat \<Rightarrow> int) option"
  lastQuorumCheck :: int
  lastCommitProgress :: int
  lastProgressIndex :: nat
  commitStallStepdowns :: nat
  repls :: "replState list"
  pendingSnapshot :: "ApplyMsg option"
  readLeaseUntil :: int
  stopped :: bool

text \<open>\<open>Int63n k\<close> is the number that \<^verbatim>\<open>rand.Int63n(k)\<close> draws, documented to lie in \<open>[0, k)\<close>.\<close>

record env =
  now :: int
  Int63n :: "int \<Rightarrow> int"
  pb :: pbcodec

definition since :: "env \<Rightarrow> int \<Rightarrow> int" where
  "since ev t = now ev - t"

definition majority :: "Node \<Rightarrow> nat" where
  "majority n = (length (peers n) + 1) div 2 + 1"

section \<open>Messages\<close>

record RequestVoteRequest =
  rvTerm :: nat
  CandidateId :: nat
  LastLogIndex :: nat
  LastLogTerm :: nat
  PreVote :: bool

record RequestVoteResponse =
  rvrTerm :: nat
  VoteGranted :: bool

record AppendEntriesRequest =
  aeTerm :: nat
  LeaderId :: nat
  PrevLogIndex :: nat
  PrevLogTerm :: nat
  Entries :: "LogEntry list"
  LeaderCommit :: nat

record AppendEntriesResponse =
  aerTerm :: nat
  Success :: bool
  ConflictIndex :: nat
  ConflictTerm :: nat

record InstallSnapshotRequest =
  isTerm :: nat
  isLeaderId :: nat
  LastIncludedIndex :: nat
  LastIncludedTerm :: nat
  isData :: bytes

record InstallSnapshotResponse =
  isrTerm :: nat

section \<open>Starting a node\<close>

definition resetElectionTimerLocked :: "env \<Rightarrow> Node \<Rightarrow> Node" where
  "resetElectionTimerLocked ev n =
     (let spread = ElectionTimeoutMax (tm n) - ElectionTimeoutMin (tm n);
          shift = min (electionAttempts n) 3
      in n\<lparr>electionReset := now ev,
           electionTimeout := ElectionTimeoutMin (tm n) + Int63n ev (spread * 2 ^ shift)\<rparr>)"

record Config =
  cfgID :: nat
  cfgPeers :: "nat list"
  cfgTimings :: Timings
  cfgSnapshotRetain :: int

definition retainOf :: "int \<Rightarrow> nat" where
  "retainOf r = (if r > 0 then nat r else if r = 0 then 1024 else 0)"

definition nodeOf :: "env \<Rightarrow> Config \<Rightarrow> pstate \<Rightarrow> persistedState \<Rightarrow> Node" where
  "nodeOf ev cfg p st =
     resetElectionTimerLocked ev
       \<lparr>nid = cfgID cfg, peers = cfgPeers cfg, persist = p, tm = withDefaults (cfgTimings cfg),
        snapshotRetain = retainOf (cfgSnapshotRetain cfg),
        snapCache = \<lparr>sc_index = 0, sc_term = 0, sc_data = []\<rparr>,
        currentTerm = ps_term st, votedFor = ps_votedFor st,
        nlog = log_append (ps_entries st) (newRaftLog (ps_snapIndex st) (ps_snapTerm st)),
        role = Follower, leaderID = 0,
        commitIndex = ps_snapIndex st, lastApplied = ps_snapIndex st,
        electionReset = 0, electionTimeout = 0, electionAttempts = 0, preVoteRound = 0,
        nextIndex = (\<lambda>_. 0), matchIndex = (\<lambda>_. 0), lastContact = None, lastQuorumCheck = 0,
        lastCommitProgress = 0, lastProgressIndex = 0, commitStallStepdowns = 0, repls = [],
        pendingSnapshot =
          (if ps_snapIndex st > 0
           then Some (snapshotMsg (ps_snapData st) (ps_snapIndex st) (ps_snapTerm st)) else None),
        readLeaseUntil = 0, stopped = False\<rparr>"

definition NewNode :: "env \<Rightarrow> Config \<Rightarrow> (world, persist_error, Node) io" where
  "NewNode ev cfg w =
     (case openPersister (pb ev) w of
        (Inl e, w') \<Rightarrow> (Inl e, w')
      | (Inr (p, st), w') \<Rightarrow> (Inr (nodeOf ev cfg (p, w') st), w'))"

text \<open>\<open>Stop\<close>: the flag is set first; the log is closed once the goroutines have ended.\<close>

definition Stop :: "Node \<Rightarrow> Node" where
  "Stop n =
     (if stopped n then n
      else n\<lparr>stopped := True, persist := snd (persist_close (persist n))\<rparr>)"

definition Status :: "Node \<Rightarrow> nat \<times> bool" where
  "Status n = (currentTerm n, role n = Leader)"

section \<open>Term changes\<close>

definition stepDownLocked :: "env \<Rightarrow> Node \<Rightarrow> Node" where
  "stepDownLocked ev n =
     resetElectionTimerLocked ev (n\<lparr>role := Follower, leaderID := 0, readLeaseUntil := 0\<rparr>)"

text \<open>\<open>n.persist.saveHardState(n.currentTerm, n.votedFor)\<close>\<close>

definition persistHardState :: "Node \<Rightarrow> (persist_error + unit) \<times> Node" where
  "persistHardState n =
     (case saveHardState (currentTerm n) (votedFor n) (persist n) of (r, p') \<Rightarrow> (r, n\<lparr>persist := p'\<rparr>))"

definition becomeFollowerLocked :: "env \<Rightarrow> nat \<Rightarrow> Node \<Rightarrow> Node" where
  "becomeFollowerLocked ev t n =
     resetElectionTimerLocked ev
       (snd (persistHardState
         (n\<lparr>currentTerm := t, role := Follower, votedFor := noVote, readLeaseUntil := 0\<rparr>)))"

definition becomeLeaderLocked :: "env \<Rightarrow> Node \<Rightarrow> Node" where
  "becomeLeaderLocked ev n =
     n\<lparr>role := Leader, leaderID := nid n, electionAttempts := 0,
       nextIndex := (\<lambda>p. if p \<in> set (peers n) then lastIndex (nlog n) + 1 else 0),
       matchIndex := (\<lambda>_. 0),
       lastContact := Some (\<lambda>p. if p \<in> set (peers n) then now ev else 0),
       lastQuorumCheck := now ev, lastCommitProgress := now ev,
       lastProgressIndex := commitIndex n, readLeaseUntil := 0,
       repls := map (\<lambda>p. \<lparr>rs_peer = p, rs_term = currentTerm n, rs_notify = False\<rparr>) (peers n)\<rparr>"

definition heardLeaderRecentlyLocked :: "env \<Rightarrow> Node \<Rightarrow> bool" where
  "heardLeaderRecentlyLocked ev n \<longleftrightarrow>
     leaderID n \<noteq> 0 \<and> since ev (electionReset n) < ElectionTimeoutMin (tm n)"

section \<open>Elections\<close>

text \<open>
  A poll is what the goroutines of one round share: the term (and for a pre-vote the round)
  they were started for, and the counter of votes. Each goroutine asks one peer and
  processes at most one response. A step that starts a poll returns it; \<open>pollRequest\<close> is the
  message each peer of the node is sent.
\<close>

record poll =
  pl_pre :: bool
  pl_term :: nat
  pl_round :: nat
  pl_lastIdx :: nat
  pl_lastTerm :: nat
  pl_votes :: nat

definition pollRequest :: "Node \<Rightarrow> poll \<Rightarrow> RequestVoteRequest" where
  "pollRequest n q =
     \<lparr>rvTerm = (if pl_pre q then pl_term q + 1 else pl_term q), CandidateId = nid n,
      LastLogIndex = pl_lastIdx q, LastLogTerm = pl_lastTerm q, PreVote = pl_pre q\<rparr>"

definition startElectionLocked :: "env \<Rightarrow> Node \<Rightarrow> Node \<times> poll option" where
  "startElectionLocked ev n0 =
     (let n1 = resetElectionTimerLocked ev
                 (n0\<lparr>role := Candidate, currentTerm := currentTerm n0 + 1, votedFor := nid n0,
                     leaderID := 0\<rparr>)
      in case persistHardState n1 of
           (Inl _, n2) \<Rightarrow> (n2\<lparr>role := Follower\<rparr>, None)
         | (Inr _, n2) \<Rightarrow>
             if 1 \<ge> majority n2 then (becomeLeaderLocked ev n2, None)
             else (n2, Some \<lparr>pl_pre = False, pl_term = currentTerm n2, pl_round = preVoteRound n2,
                     pl_lastIdx = lastIndex (nlog n2), pl_lastTerm = lastTerm (nlog n2),
                     pl_votes = 1\<rparr>))"

definition startPreVoteLocked :: "env \<Rightarrow> Node \<Rightarrow> Node \<times> poll option" where
  "startPreVoteLocked ev n0 =
     (let n1 = resetElectionTimerLocked ev
                 (n0\<lparr>electionAttempts := electionAttempts n0 + 1, preVoteRound := preVoteRound n0 + 1\<rparr>)
      in if 1 \<ge> majority n1 then startElectionLocked ev n1
         else (n1, Some \<lparr>pl_pre = True, pl_term = currentTerm n1, pl_round = preVoteRound n1,
                 pl_lastIdx = lastIndex (nlog n1), pl_lastTerm = lastTerm (nlog n1),
                 pl_votes = 1\<rparr>))"

text \<open>The response to a pre-vote: the node, the poll, and the real poll if one starts.\<close>

definition onPreVoteResponse ::
  "env \<Rightarrow> poll \<Rightarrow> RequestVoteResponse \<Rightarrow> Node \<Rightarrow> Node \<times> poll \<times> poll option" where
  "onPreVoteResponse ev q resp n =
     (if stopped n then (n, q, None)
      else if rvrTerm resp > currentTerm n then (becomeFollowerLocked ev (rvrTerm resp) n, q, None)
      else if role n \<noteq> Follower \<or> currentTerm n \<noteq> pl_term q \<or> preVoteRound n \<noteq> pl_round q \<or>
              \<not> VoteGranted resp then (n, q, None)
      else
        let q' = q\<lparr>pl_votes := pl_votes q + 1\<rparr>
        in if pl_votes q' = majority n
           then case startElectionLocked ev n of (n', started) \<Rightarrow> (n', q', started)
           else (n, q', None))"

definition onVoteResponse ::
  "env \<Rightarrow> poll \<Rightarrow> RequestVoteResponse \<Rightarrow> Node \<Rightarrow> Node \<times> poll" where
  "onVoteResponse ev q resp n =
     (if stopped n then (n, q)
      else if rvrTerm resp > currentTerm n then (becomeFollowerLocked ev (rvrTerm resp) n, q)
      else if role n \<noteq> Candidate \<or> currentTerm n \<noteq> pl_term q \<or> \<not> VoteGranted resp then (n, q)
      else
        let q' = q\<lparr>pl_votes := pl_votes q + 1\<rparr>
        in if pl_votes q' = majority n then (becomeLeaderLocked ev n, q') else (n, q'))"

section \<open>The election timer\<close>

definition noteContactLocked :: "env \<Rightarrow> nat \<Rightarrow> Node \<Rightarrow> Node" where
  "noteContactLocked ev peer n = n\<lparr>lastContact := map_option (\<lambda>c. c(peer := now ev)) (lastContact n)\<rparr>"

text \<open>Reading a nil map or a missing key gives the zero time.\<close>

definition contactTime :: "Node \<Rightarrow> nat \<Rightarrow> int" where
  "contactTime n peer = (case lastContact n of None \<Rightarrow> 0 | Some c \<Rightarrow> c peer)"

definition quorumActiveLocked :: "env \<Rightarrow> Node \<Rightarrow> bool" where
  "quorumActiveLocked ev n \<longleftrightarrow>
     majority n \<le>
       1 + length (filter (\<lambda>p. since ev (contactTime n p) < ElectionTimeoutMax (tm n)) (peers n))"

definition noteCommitProgressLocked :: "env \<Rightarrow> Node \<Rightarrow> Node" where
  "noteCommitProgressLocked ev n =
     n\<lparr>lastCommitProgress := now ev, lastProgressIndex := commitIndex n\<rparr>"

definition checkCommitStallLocked :: "env \<Rightarrow> Node \<Rightarrow> Node" where
  "checkCommitStallLocked ev n =
     (if CommitStallTimeout (tm n) < 0 then n
      else if lastIndex (nlog n) \<le> commitIndex n then noteCommitProgressLocked ev n
      else if lastCommitProgress n = 0 \<or> commitIndex n \<noteq> lastProgressIndex n
      then noteCommitProgressLocked ev n
      else if since ev (lastCommitProgress n) < CommitStallTimeout (tm n) then n
      else if \<not> quorumActiveLocked ev n then n
      else stepDownLocked ev (n\<lparr>commitStallStepdowns := commitStallStepdowns n + 1\<rparr>))"

text \<open>One tick of \<open>runElectionTimer\<close>.\<close>

definition electionTick :: "env \<Rightarrow> Node \<Rightarrow> Node \<times> poll option" where
  "electionTick ev n =
     (if stopped n then (n, None)
      else if role n = Leader then
        if since ev (lastQuorumCheck n) \<ge> ElectionTimeoutMax (tm n) then
          let n1 = n\<lparr>lastQuorumCheck := now ev\<rparr>
          in if \<not> quorumActiveLocked ev n1 then (stepDownLocked ev n1, None)
             else (checkCommitStallLocked ev n1, None)
        else (checkCommitStallLocked ev n, None)
      else if since ev (electionReset n) < electionTimeout n then (n, None)
      else startPreVoteLocked ev n)"

section \<open>RPC handlers\<close>

definition upToDate :: "RequestVoteRequest \<Rightarrow> Node \<Rightarrow> bool" where
  "upToDate req n \<longleftrightarrow>
     LastLogTerm req > lastTerm (nlog n) \<or>
     (LastLogTerm req = lastTerm (nlog n) \<and> LastLogIndex req \<ge> lastIndex (nlog n))"

definition refuse :: "Node \<Rightarrow> RequestVoteResponse" where
  "refuse n = \<lparr>rvrTerm = currentTerm n, VoteGranted = False\<rparr>"

definition HandleRequestVote :: "env \<Rightarrow> RequestVoteRequest \<Rightarrow> Node \<Rightarrow> RequestVoteResponse \<times> Node" where
  "HandleRequestVote ev req n0 =
     (if stopped n0 then (refuse n0, n0)
      else if PreVote req then
        (\<lparr>rvrTerm = currentTerm n0,
          VoteGranted = (\<not> rvTerm req \<le> currentTerm n0 \<and> \<not> heardLeaderRecentlyLocked ev n0 \<and>
            upToDate req n0)\<rparr>, n0)
      else if rvTerm req > currentTerm n0 \<and> heardLeaderRecentlyLocked ev n0 then (refuse n0, n0)
      else
        let n = (if rvTerm req > currentTerm n0 then becomeFollowerLocked ev (rvTerm req) n0 else n0)
        in if rvTerm req < currentTerm n then (refuse n, n)
           else if votedFor n \<noteq> noVote \<and> votedFor n \<noteq> CandidateId req then (refuse n, n)
           else if \<not> upToDate req n then (refuse n, n)
           else case persistHardState (n\<lparr>votedFor := CandidateId req\<rparr>) of
                  (Inl _, n') \<Rightarrow> (refuse n', n'\<lparr>votedFor := noVote\<rparr>)
                | (Inr _, n') \<Rightarrow>
                    (\<lparr>rvrTerm = currentTerm n', VoteGranted = True\<rparr>, resetElectionTimerLocked ev n'))"

text \<open>
  The walk over the incoming entries: it skips the compacted ones and the ones already held
  and stops at the first that is new or conflicts. The result is what is left to append,
  and the index to cut at where there is a conflict.
\<close>

fun reconcile :: "raftLog \<Rightarrow> LogEntry list \<Rightarrow> LogEntry list \<times> nat option" where
  "reconcile l [] = ([], None)"
| "reconcile l (e # es) =
     (if Index e \<le> firstIndex l then reconcile l es
      else if Index e > lastIndex l then (e # es, None)
      else if fst (log_term l (Index e)) \<noteq> Term e then (e # es, Some (Index e))
      else reconcile l es)"

definition conflictHint :: "nat \<Rightarrow> Node \<Rightarrow> AppendEntriesResponse" where
  "conflictHint ourTerm n =
     (let ci = firstIndexOfTerm (nlog n) ourTerm
      in \<lparr>aerTerm = currentTerm n, Success = False,
          ConflictIndex = (if ci = 0 then firstIndex (nlog n) + 1 else ci), ConflictTerm = ourTerm\<rparr>)"

definition reject :: "Node \<Rightarrow> AppendEntriesResponse" where
  "reject n = \<lparr>aerTerm = currentTerm n, Success = False, ConflictIndex = 0, ConflictTerm = 0\<rparr>"

definition hearLeader :: "env \<Rightarrow> nat \<Rightarrow> Node \<Rightarrow> Node" where
  "hearLeader ev leader n =
     resetElectionTimerLocked ev (n\<lparr>role := Follower, leaderID := leader, electionAttempts := 0\<rparr>)"

text \<open>Cutting the conflicting suffix, in memory and on disk.\<close>

definition cutConflict :: "nat option \<Rightarrow> Node \<Rightarrow> (persist_error + unit) \<times> Node" where
  "cutConflict conflict n =
     (case conflict of
        None \<Rightarrow> (Inr (), n)
      | Some i \<Rightarrow>
          (case truncateFrom i (persist n) of
             (r, p') \<Rightarrow> (r, n\<lparr>nlog := log_truncateFrom i (nlog n), persist := p'\<rparr>)))"

definition storeEntries :: "env \<Rightarrow> LogEntry list \<Rightarrow> Node \<Rightarrow> (persist_error + unit) \<times> Node" where
  "storeEntries ev es n =
     (if es = [] then (Inr (), n)
      else case appendEntries (pb ev) es (persist n) of
             (r, p') \<Rightarrow> (r, n\<lparr>nlog := log_append es (nlog n), persist := p'\<rparr>))"

definition advanceCommit :: "AppendEntriesRequest \<Rightarrow> Node \<Rightarrow> Node" where
  "advanceCommit req n =
     (if LeaderCommit req > commitIndex n
      then n\<lparr>commitIndex :=
             min (LeaderCommit req) (max (PrevLogIndex req + length (Entries req)) (commitIndex n))\<rparr>
      else n)"

definition HandleAppendEntries ::
  "env \<Rightarrow> AppendEntriesRequest \<Rightarrow> Node \<Rightarrow> AppendEntriesResponse \<times> Node" where
  "HandleAppendEntries ev req n0 =
     (if stopped n0 then (reject n0, n0)
      else
        let n1 = (if aeTerm req > currentTerm n0 then becomeFollowerLocked ev (aeTerm req) n0 else n0)
        in if aeTerm req < currentTerm n1 then (reject n1, n1)
           else
             let n = hearLeader ev (LeaderId req) n1
             in if PrevLogIndex req > lastIndex (nlog n)
                then ((reject n)\<lparr>ConflictIndex := lastIndex (nlog n) + 1\<rparr>, n)
                else if PrevLogIndex req \<ge> firstIndex (nlog n) \<and>
                        (\<not> snd (log_term (nlog n) (PrevLogIndex req)) \<or>
                         fst (log_term (nlog n) (PrevLogIndex req)) \<noteq> PrevLogTerm req)
                then (conflictHint (fst (log_term (nlog n) (PrevLogIndex req))) n, n)
                else case reconcile (nlog n) (Entries req) of (newEntries, conflict) \<Rightarrow>
                  (case cutConflict conflict n of
                     (Inl _, n2) \<Rightarrow> (reject n2, n2)
                   | (Inr _, n2) \<Rightarrow>
                       (case storeEntries ev newEntries n2 of
                          (Inl _, n3) \<Rightarrow> (reject n3, n3)
                        | (Inr _, n3) \<Rightarrow>
                            (let n4 = advanceCommit req n3
                             in ((reject n4)\<lparr>Success := True\<rparr>, n4)))))"

definition HandleInstallSnapshot ::
  "env \<Rightarrow> InstallSnapshotRequest \<Rightarrow> Node \<Rightarrow> InstallSnapshotResponse \<times> Node" where
  "HandleInstallSnapshot ev req n0 =
     (if stopped n0 then (\<lparr>isrTerm = currentTerm n0\<rparr>, n0)
      else
        let n1 = (if isTerm req > currentTerm n0 then becomeFollowerLocked ev (isTerm req) n0 else n0);
            resp = \<lparr>isrTerm = currentTerm n1\<rparr>
        in if isTerm req < currentTerm n1 then (resp, n1)
           else
             let n2 = hearLeader ev (isLeaderId req) n1
             in if LastIncludedIndex req \<le> commitIndex n2 then (resp, n2)
                else
                  let n3 = n2\<lparr>nlog := compactTo (LastIncludedIndex req) (LastIncludedTerm req) (nlog n2)\<rparr>
                  in case saveSnapshot (pb ev) (LastIncludedIndex req) (LastIncludedTerm req) (isData req)
                         (currentTerm n3) (votedFor n3) (allEntries (nlog n3)) (persist n3) of
                       (Inl _, p') \<Rightarrow> (resp, n3\<lparr>persist := p'\<rparr>)
                     | (Inr _, p') \<Rightarrow>
                         (resp, n3\<lparr>persist := p',
                            snapCache := \<lparr>sc_index = LastIncludedIndex req,
                              sc_term = LastIncludedTerm req, sc_data = isData req\<rparr>,
                            commitIndex := LastIncludedIndex req, lastApplied := LastIncludedIndex req,
                            pendingSnapshot := Some (snapshotMsg (isData req) (LastIncludedIndex req)
                              (LastIncludedTerm req))\<rparr>))"

section \<open>Snapshots and the applier\<close>

datatype snapshot_error = BeyondApplied nat nat | NotInLog nat | SnapPersist persist_error

definition cutPoint :: "nat \<Rightarrow> nat \<Rightarrow> nat" where
  "cutPoint retain index =
     (if retain > 0 then if index > retain then index - retain else 0 else index)"

text \<open>\<open>(*Node).Snapshot\<close>\<close>

definition nodeSnapshot :: "env \<Rightarrow> nat \<Rightarrow> bytes \<Rightarrow> Node \<Rightarrow> (snapshot_error + unit) \<times> Node" where
  "nodeSnapshot ev index data n =
     (if index \<le> firstIndex (nlog n) then (Inr (), n)
      else if index > lastApplied n then (Inl (BeyondApplied index (lastApplied n)), n)
      else case log_term (nlog n) index of
          (snapTerm, ok) \<Rightarrow>
            if \<not> ok then (Inl (NotInLog index), n)
            else
              let cutIdx = cutPoint (snapshotRetain n) index;
                  n1 = (if cutIdx > firstIndex (nlog n) then
                          (case log_term (nlog n) cutIdx of
                             (cutTerm, ok') \<Rightarrow>
                               if ok' then n\<lparr>nlog := compactTo cutIdx cutTerm (nlog n)\<rparr> else n)
                        else n)
              in case saveSnapshot (pb ev) index snapTerm data (currentTerm n1) (votedFor n1)
                     (allEntries (nlog n1)) (persist n1) of
                   (Inl e, p') \<Rightarrow> (Inl (SnapPersist e), n1\<lparr>persist := p'\<rparr>)
                 | (Inr _, p') \<Rightarrow>
                     (Inr (), n1\<lparr>persist := p',
                        snapCache := \<lparr>sc_index = index, sc_term = snapTerm, sc_data = data\<rparr>\<rparr>))"

text \<open>
  One round of \<open>runApplier\<close> under the mutex: the messages it will send, in order. \<open>None\<close> is the
  panic of an entry that is not in the log.
\<close>

definition applierStep :: "Node \<Rightarrow> (ApplyMsg list \<times> Node) option" where
  "applierStep n =
     (if stopped n then Some ([], n)
      else case pendingSnapshot n of
          Some snap \<Rightarrow> Some ([snap], n\<lparr>pendingSnapshot := None\<rparr>)
        | None \<Rightarrow>
            (case those (map (log_entry (nlog n)) [lastApplied n + 1 ..< commitIndex n + 1]) of
               None \<Rightarrow> None
             | Some es \<Rightarrow> Some (map commandMsg es, n\<lparr>lastApplied := commitIndex n\<rparr>)))"

end
