(* ===== verification/Replicate.thy ===== *)
theory Replicate
  imports Node
begin

text \<open>
  \<^verbatim>\<open>src/internal/raft/replicate.go\<close> and \<^verbatim>\<open>batch.go\<close>: the leader's side of replication, the commit
  rule, group commit of proposals and linearizable reads. The code builds a request under
  the mutex, calls the peer without it, and processes the response under it again; each
  half is a function here.
\<close>

section \<open>Sending to a follower\<close>

definition maxAppendEntries :: nat where
  "maxAppendEntries = 64"

definition notifyReplicatorsLocked :: "Node \<Rightarrow> Node" where
  "notifyReplicatorsLocked n = n\<lparr>repls := map (\<lambda>rs. rs\<lparr>rs_notify := True\<rparr>) (repls n)\<rparr>"

text \<open>
  What one pass decides to do: the leadership is over, there is no snapshot to ship yet, or
  a request goes out.
\<close>

datatype pass =
    PassOver
  | PassWait
  | PassAppend AppendEntriesRequest
  | PassSnapshot InstallSnapshotRequest

definition appendRequest :: "Node \<Rightarrow> nat \<Rightarrow> nat \<Rightarrow> LogEntry list \<Rightarrow> AppendEntriesRequest" where
  "appendRequest n t next es =
     \<lparr>aeTerm = t, LeaderId = nid n, PrevLogIndex = next - 1,
      PrevLogTerm = fst (log_term (nlog n) (next - 1)), Entries = es, LeaderCommit = commitIndex n\<rparr>"

definition snapshotRequest :: "Node \<Rightarrow> nat \<Rightarrow> snapshotCache \<Rightarrow> InstallSnapshotRequest" where
  "snapshotRequest n t c =
     \<lparr>isTerm = t, isLeaderId = nid n, LastIncludedIndex = sc_index c, LastIncludedTerm = sc_term c,
      isData = sc_data c\<rparr>"

text \<open>The first half of \<open>sendSnapshotLocked\<close>: from memory, else from disk.\<close>

definition prepareSnapshot :: "nat \<Rightarrow> Node \<Rightarrow> pass \<times> Node" where
  "prepareSnapshot t n =
     (if sc_index (snapCache n) \<noteq> 0 then (PassSnapshot (snapshotRequest n t (snapCache n)), n)
      else
        (case persist n of (p, w) \<Rightarrow>
           (case readSnapshot w of
              (Inl e, w') \<Rightarrow> (PassWait, n\<lparr>persist := (p, w')\<rparr>)
            | (Inr (i, st, data), w') \<Rightarrow>
                let n' = n\<lparr>persist := (p, w')\<rparr>
                in if i = 0 then (PassWait, n')
                   else let c = \<lparr>sc_index = i, sc_term = st, sc_data = data\<rparr>
                        in (PassSnapshot (snapshotRequest n' t c), n'\<lparr>snapCache := c\<rparr>))))"

text \<open>The first half of \<open>replicateOnce\<close>.\<close>

definition prepareAppend :: "nat \<Rightarrow> nat \<Rightarrow> Node \<Rightarrow> pass \<times> Node" where
  "prepareAppend peer t n =
     (if stopped n \<or> role n \<noteq> Leader \<or> currentTerm n \<noteq> t then (PassOver, n)
      else
        let next = nextIndex n peer
        in if next \<le> firstIndex (nlog n) then prepareSnapshot t n
           else (PassAppend (appendRequest n t next
                   (take maxAppendEntries (log_suffix (nlog n) next))), n))"

section \<open>The commit rule\<close>

definition replicas :: "Node \<Rightarrow> nat \<Rightarrow> nat" where
  "replicas n idx = 1 + length (filter (\<lambda>p. matchIndex n p \<ge> idx) (peers n))"

text \<open>The loop of \<open>maybeAdvanceCommitLocked\<close>, from an index downwards.\<close>

fun commitPoint :: "Node \<Rightarrow> nat \<Rightarrow> nat option" where
  "commitPoint n 0 = None"
| "commitPoint n (Suc i) =
     (if Suc i \<le> commitIndex n then None
      else if \<not> snd (log_term (nlog n) (Suc i)) \<or> fst (log_term (nlog n) (Suc i)) \<noteq> currentTerm n
      then None
      else if replicas n (Suc i) \<ge> majority n then Some (Suc i)
      else commitPoint n i)"

definition maybeAdvanceCommitLocked :: "env \<Rightarrow> Node \<Rightarrow> Node" where
  "maybeAdvanceCommitLocked ev n =
     (case commitPoint n (lastIndex (nlog n)) of
        None \<Rightarrow> n
      | Some idx \<Rightarrow>
          notifyReplicatorsLocked (noteCommitProgressLocked ev (n\<lparr>commitIndex := idx\<rparr>)))"

section \<open>Responses\<close>

definition setNext :: "nat \<Rightarrow> nat \<Rightarrow> Node \<Rightarrow> Node" where
  "setNext peer i n = n\<lparr>nextIndex := (nextIndex n)(peer := i)\<rparr>"

definition raiseMatch :: "nat \<Rightarrow> nat \<Rightarrow> Node \<Rightarrow> Node" where
  "raiseMatch peer i n =
     n\<lparr>matchIndex := (matchIndex n)(peer := max i (matchIndex n peer)),
       nextIndex := (nextIndex n)(peer := max (i + 1) (nextIndex n peer))\<rparr>"

text \<open>Where \<open>nextIndex\<close> goes after a rejection.\<close>

definition backupIndex :: "nat \<Rightarrow> AppendEntriesResponse \<Rightarrow> Node \<Rightarrow> nat" where
  "backupIndex peer resp n =
     (let i = (if ConflictTerm resp \<noteq> 0 then
                 (let last = lastIndexOfTerm (nlog n) (ConflictTerm resp)
                  in if last \<noteq> 0 then last + 1 else ConflictIndex resp)
               else if ConflictIndex resp \<noteq> 0 then ConflictIndex resp
               else if nextIndex n peer > 1 then nextIndex n peer - 1
               else nextIndex n peer)
      in if i < 1 then 1 else i)"

text \<open>
  The second half of \<open>replicateOnce\<close>: whether to run again at once, whether the leadership
  goes on, and the node.
\<close>

definition onAppendResponse ::
  "env \<Rightarrow> nat \<Rightarrow> nat \<Rightarrow> AppendEntriesRequest \<Rightarrow> AppendEntriesResponse \<Rightarrow> Node \<Rightarrow> (bool \<times> bool) \<times> Node"
where
  "onAppendResponse ev peer t req resp n0 =
     (if stopped n0 then ((False, False), n0)
      else if aerTerm resp > currentTerm n0
      then ((False, False), becomeFollowerLocked ev (aerTerm resp) n0)
      else if role n0 \<noteq> Leader \<or> currentTerm n0 \<noteq> t then ((False, False), n0)
      else
        let n = noteContactLocked ev peer n0
        in if Success resp then
             let n' = maybeAdvanceCommitLocked ev
                        (raiseMatch peer (PrevLogIndex req + length (Entries req)) n)
             in ((nextIndex n' peer \<le> lastIndex (nlog n'), True), n')
           else ((True, True), setNext peer (backupIndex peer resp n) n))"

text \<open>The second half of \<open>sendSnapshotLocked\<close>.\<close>

definition onSnapshotResponse ::
  "env \<Rightarrow> nat \<Rightarrow> nat \<Rightarrow> nat \<Rightarrow> InstallSnapshotResponse \<Rightarrow> Node \<Rightarrow> (bool \<times> bool) \<times> Node" where
  "onSnapshotResponse ev peer t snapIdx resp n =
     (if stopped n then ((False, False), n)
      else if isrTerm resp > currentTerm n
      then ((False, False), becomeFollowerLocked ev (isrTerm resp) n)
      else if role n \<noteq> Leader \<or> currentTerm n \<noteq> t then ((False, False), n)
      else ((True, True), raiseMatch peer snapIdx (noteContactLocked ev peer n)))"

section \<open>Group commit of proposals\<close>

definition proposeBatchMax :: nat where
  "proposeBatchMax = 64"

record propResult =
  pr_index :: nat
  pr_term :: nat
  pr_isLeader :: bool

definition failProps :: "bytes list \<Rightarrow> propResult list" where
  "failProps batch = map (\<lambda>_. \<lparr>pr_index = 0, pr_term = 0, pr_isLeader = False\<rparr>) batch"

text \<open>The entries of a batch, appended one after the other.\<close>

fun batchEntries :: "nat \<Rightarrow> bytes list \<Rightarrow> raftLog \<Rightarrow> LogEntry list \<times> raftLog" where
  "batchEntries t [] l = ([], l)"
| "batchEntries t (d # ds) l =
     (let e = \<lparr>Index = lastIndex l + 1, Term = t, Data = d\<rparr>
      in case batchEntries t ds (log_append [e] l) of (es, l') \<Rightarrow> (e # es, l'))"

definition commitPropBatch :: "env \<Rightarrow> bytes list \<Rightarrow> Node \<Rightarrow> propResult list \<times> Node" where
  "commitPropBatch ev batch n =
     (if role n \<noteq> Leader then (failProps batch, n)
      else
        case batchEntries (currentTerm n) batch (nlog n) of (es, l') \<Rightarrow>
          (case appendEntries (pb ev) es (persist n) of
             (Inl _, p') \<Rightarrow>
               (failProps batch,
                n\<lparr>nlog := log_truncateFrom (lastIndex (nlog n) + 1) l', persist := p'\<rparr>)
           | (Inr _, p') \<Rightarrow>
               (map (\<lambda>e. \<lparr>pr_index = Index e, pr_term = Term e, pr_isLeader = True\<rparr>) es,
                notifyReplicatorsLocked (n\<lparr>nlog := l', persist := p'\<rparr>))))"

section \<open>Linearizable reads\<close>

text \<open>\<open>WaitApplied\<close>: the condition it waits for.\<close>

definition appliedThrough :: "Node \<Rightarrow> nat \<Rightarrow> bool" where
  "appliedThrough n index \<longleftrightarrow> lastApplied n \<ge> index"

text \<open>The lease path at the head of \<open>ReadIndex\<close>.\<close>

definition leaseRead :: "env \<Rightarrow> Node \<Rightarrow> nat option" where
  "leaseRead ev n =
     (if role n = Leader \<and> now ev < readLeaseUntil n then Some (commitIndex n) else None)"

text \<open>The start of \<open>serveReadBatch\<close>: the term, the read index and whether the lease holds.\<close>

definition readBegin :: "env \<Rightarrow> Node \<Rightarrow> (nat \<times> nat \<times> bool) option" where
  "readBegin ev n =
     (if role n \<noteq> Leader then None
      else Some (currentTerm n, commitIndex n, now ev < readLeaseUntil n))"

text \<open>\<open>heartbeatAck\<close>: the empty request, and what is made of the response.\<close>

definition heartbeatRequest :: "nat \<Rightarrow> nat \<Rightarrow> Node \<Rightarrow> AppendEntriesRequest option" where
  "heartbeatRequest peer t n =
     (if stopped n \<or> role n \<noteq> Leader \<or> currentTerm n \<noteq> t then None
      else if nextIndex n peer \<le> firstIndex (nlog n) then None
      else Some (appendRequest n t (nextIndex n peer) []))"

definition onHeartbeatResponse ::
  "env \<Rightarrow> nat \<Rightarrow> nat \<Rightarrow> AppendEntriesResponse \<Rightarrow> Node \<Rightarrow> bool \<times> Node" where
  "onHeartbeatResponse ev peer t resp n =
     (if aerTerm resp > currentTerm n then (False, becomeFollowerLocked ev (aerTerm resp) n)
      else (Success resp \<and> aerTerm resp = t,
            if role n = Leader \<and> currentTerm n = t then noteContactLocked ev peer n else n))"

text \<open>\<open>confirmLeadership\<close>, given which peers acknowledged.\<close>

definition confirmed :: "Node \<Rightarrow> nat list \<Rightarrow> bool" where
  "confirmed n acks \<longleftrightarrow>
     peers n = [] \<or> 1 + length (filter (\<lambda>p. p \<in> set acks) (peers n)) \<ge> majority n"

text \<open>The rest of \<open>serveReadBatch\<close> once leadership is confirmed.\<close>

definition readConfirmed :: "env \<Rightarrow> nat \<Rightarrow> nat \<Rightarrow> Node \<Rightarrow> nat option \<times> Node" where
  "readConfirmed ev t readIndex n =
     (let n' = n\<lparr>readLeaseUntil := now ev + ElectionTimeoutMin (tm n) div 3\<rparr>
      in (if role n' = Leader \<and> currentTerm n' = t then Some (max readIndex (commitIndex n')) else None,
          n'))"

end
