(* ===== verification/KvCluster.thy ===== *)
theory KvCluster
  imports KvSessions Replicate
begin

text \<open>
  \<^verbatim>\<open>src/internal/kv/cluster.go\<close>: one key-value node, which is a Raft node, the machine it
  applies, the channel between them and the callers that wait for the outcome of their
  proposals. A goroutine runs between its blocking points as one step. Go's channels are
  queues; a proposal waits on a channel of its own with one slot.
\<close>

section \<open>State\<close>

datatype kv_error =
    ErrNotLeader
  | CtxError
  | NotMutating OpType_kv

record Telemetry =
  tel_applies :: nat
  tel_writes :: nat
  tel_reads :: nat

text \<open>
  \<open>waiters\<close> maps an index to the call that waits for it, \<open>mailbox\<close> is the one-slot channel of a
  call, \<open>applyCh\<close> what Raft has delivered and the machine has not taken yet.
\<close>

record Cluster_kv =
  raft :: Node
  machine :: Machine
  applyCh :: "ApplyMsg list"
  waiters :: "(nat, nat) fmap"
  mailbox :: "nat \<Rightarrow> ApplyResult option"
  recent :: "(nat, ApplyResult) fmap"
  telemetry :: "Telemetry option"
  snapEvery :: nat
  lastSnapIndex :: nat

record Config_kv =
  kvc_raft :: Config
  SnapshotEntries :: nat

text \<open>Sums of \<open>uint64\<close>.\<close>

definition add64 :: "nat \<Rightarrow> nat \<Rightarrow> nat" where
  "add64 a b = (a + b) mod 2 ^ 64"

definition NewCluster :: "env \<Rightarrow> (nat \<Rightarrow> channel) \<Rightarrow> Config_kv \<Rightarrow> (world, persist_error, Cluster_kv) io" where
  "NewCluster ev cs cfg w =
     (case NewNode ev (kvc_raft cfg) w of
        (Inl e, w') \<Rightarrow> (Inl e, w')
      | (Inr rn, w') \<Rightarrow>
          (Inr \<lparr>raft = rn, machine = NewMachine cs, applyCh = [], waiters = fmempty, mailbox = (\<lambda>_. None),
             recent = fmempty, telemetry = None,
             snapEvery = (if SnapshotEntries cfg = 0 then 10000 else SnapshotEntries cfg), lastSnapIndex = 0\<rparr>, w'))"

definition SetTelemetry :: "Telemetry \<Rightarrow> Cluster_kv \<Rightarrow> Cluster_kv" where
  "SetTelemetry t c = c\<lparr>telemetry := Some t\<rparr>"

definition cluster_LeaderID :: "Cluster_kv \<Rightarrow> nat" where
  "cluster_LeaderID c = leaderID (raft c)"

definition IsLeader :: "Cluster_kv \<Rightarrow> bool" where
  "IsLeader c = snd (Status (raft c))"

section \<open>The apply loop\<close>

text \<open>The result goes to the caller that waits for the index, or is kept for a while.\<close>

definition deliverResult :: "nat \<Rightarrow> ApplyResult \<Rightarrow> Cluster_kv \<Rightarrow> Cluster_kv" where
  "deliverResult i res c =
     (case fmlookup (waiters c) i of
        Some call \<Rightarrow> c\<lparr>waiters := fmdrop i (waiters c), mailbox := (mailbox c)(call := Some res)\<rparr>
      | None \<Rightarrow> c\<lparr>recent := fmfilter (\<lambda>idx. \<not> add64 idx 256 < i) (fmupd i res (recent c))\<rparr>)"

definition countApply :: "Command_kv \<Rightarrow> Telemetry \<Rightarrow> Telemetry" where
  "countApply cmd t =
     (let t1 = t\<lparr>tel_applies := tel_applies t + 1\<rparr>
      in if kv_Op cmd = OpPut_kv \<or> kv_Op cmd = OpCAS then t1\<lparr>tel_writes := tel_writes t1 + 1\<rparr> else t1)"

definition maybeSnapshotAt :: "env \<Rightarrow> gob \<Rightarrow> nat \<Rightarrow> Cluster_kv \<Rightarrow> Cluster_kv" where
  "maybeSnapshotAt ev g applied c =
     (if commitIndex (raft c) > add64 applied (snapEvery c) then c
      else case machine_Snapshot g (machine c) of
          None \<Rightarrow> c
        | Some raw \<Rightarrow>
            (case nodeSnapshot ev applied raw (raft c) of
               (Inl _, n) \<Rightarrow> c\<lparr>raft := n\<rparr>
             | (Inr _, n) \<Rightarrow> c\<lparr>raft := n, lastSnapIndex := applied\<rparr>))"

text \<open>\<open>None\<close> is the panic on a snapshot or a command that does not decode.\<close>

definition handleApply :: "env \<Rightarrow> gob \<Rightarrow> ApplyMsg \<Rightarrow> Cluster_kv \<Rightarrow> Cluster_kv option" where
  "handleApply ev g msg c =
     (if SnapshotValid msg then
        (case Restore g (ApSnapshot msg) (machine c) of
           None \<Rightarrow> None
         | Some m \<Rightarrow> Some (c\<lparr>machine := m, lastSnapIndex := SnapshotIndex msg\<rparr>))
      else if \<not> CommandValid msg then Some c
      else
        case Decode (ApCommand msg) of
          Inl _ \<Rightarrow> None
        | Inr cmd \<Rightarrow>
            (case Apply cmd (machine c) of
               (res, m) \<Rightarrow>
                 let c1 = c\<lparr>machine := m, telemetry := map_option (countApply cmd) (telemetry c)\<rparr>;
                     c2 = deliverResult (CommandIndex msg) res c1
                 in Some (if snapEvery c2 > 0 \<and> CommandIndex msg \<ge> add64 (lastSnapIndex c2) (snapEvery c2)
                          then maybeSnapshotAt ev g (CommandIndex msg) c2 else c2)))"

text \<open>One turn of \<open>runApplier\<close>: the next message of the channel.\<close>

definition runApplier :: "env \<Rightarrow> gob \<Rightarrow> Cluster_kv \<Rightarrow> Cluster_kv option" where
  "runApplier ev g c =
     (case applyCh c of [] \<Rightarrow> Some c | msg # rest \<Rightarrow> handleApply ev g msg (c\<lparr>applyCh := rest\<rparr>))"

text \<open>Raft's applier delivers into the channel.\<close>

definition raftDeliver :: "Cluster_kv \<Rightarrow> Cluster_kv option" where
  "raftDeliver c =
     (case applierStep (raft c) of
        None \<Rightarrow> None
      | Some (msgs, n) \<Rightarrow> Some (c\<lparr>raft := n, applyCh := applyCh c @ msgs\<rparr>))"

section \<open>Proposals\<close>

text \<open>
  A call of \<open>propose\<close> is trying, waits for an index, or is over. \<open>proposeTry\<close> is the loop body
  up to the blocking \<open>select\<close>, given what the context and Raft's \<open>Propose\<close> returned;
  \<open>proposeWake\<close> is one of the three cases of the \<open>select\<close>.
\<close>

datatype proposal =
    Trying
  | Waiting nat
  | Answered ApplyResult
  | Refused kv_error

datatype wake = Reply | Cancel | Timeout

definition dropWaiter :: "nat \<Rightarrow> Cluster_kv \<Rightarrow> Cluster_kv" where
  "dropWaiter i c = c\<lparr>waiters := fmdrop i (waiters c)\<rparr>"

definition proposeTry :: "bool \<Rightarrow> propResult \<Rightarrow> nat \<Rightarrow> Cluster_kv \<Rightarrow> proposal \<times> Cluster_kv" where
  "proposeTry ctxErr pr call c =
     (if ctxErr then (Refused CtxError, c)
      else if \<not> pr_isLeader pr then (Refused ErrNotLeader, c)
      else case fmlookup (recent c) (pr_index pr) of
          Some res \<Rightarrow> (Answered res, c\<lparr>recent := fmdrop (pr_index pr) (recent c)\<rparr>)
        | None \<Rightarrow>
            (Waiting (pr_index pr),
             c\<lparr>waiters := fmupd (pr_index pr) call (waiters c), mailbox := (mailbox c)(call := None)\<rparr>))"

definition proposeWake :: "wake \<Rightarrow> nat \<Rightarrow> nat \<Rightarrow> Cluster_kv \<Rightarrow> proposal \<times> Cluster_kv" where
  "proposeWake wk index call c =
     (case wk of
        Reply \<Rightarrow>
          (case mailbox c call of
             None \<Rightarrow> (Waiting index, c)
           | Some res \<Rightarrow> (Answered res, c\<lparr>mailbox := (mailbox c)(call := None)\<rparr>))
      | Cancel \<Rightarrow> (Refused CtxError, dropWaiter index c)
      | Timeout \<Rightarrow>
          let c1 = dropWaiter index c
          in case fmlookup (recent c1) index of
               Some res \<Rightarrow> (Answered res, c1\<lparr>recent := fmdrop index (recent c1)\<rparr>)
             | None \<Rightarrow> (Trying, c1))"

section \<open>The client API\<close>

text \<open>The commands that \<open>Put\<close>, \<open>CAS\<close>, \<open>Checkpoint\<close> and \<open>ExecuteOnce\<close> propose.\<close>

definition putCommand :: "bytes \<Rightarrow> u64 \<Rightarrow> bytes \<Rightarrow> bytes \<Rightarrow> Command_kv" where
  "putCommand clientID requestID key value =
     \<lparr>kv_Op = OpPut_kv, ClientID = clientID, RequestID = requestID, kv_Key = key, kv_Value = value, Expect = []\<rparr>"

definition casCommand :: "bytes \<Rightarrow> u64 \<Rightarrow> bytes \<Rightarrow> bytes \<Rightarrow> bytes \<Rightarrow> Command_kv" where
  "casCommand clientID requestID key expect value =
     \<lparr>kv_Op = OpCAS, ClientID = clientID, RequestID = requestID, kv_Key = key, kv_Value = value, Expect = expect\<rparr>"

definition checkpointCommand :: "bytes \<Rightarrow> u64 \<Rightarrow> bytes \<Rightarrow> Command_kv" where
  "checkpointCommand clientID requestID state =
     \<lparr>kv_Op = OpCheckpoint, ClientID = clientID, RequestID = requestID, kv_Key = [], kv_Value = state, Expect = []\<rparr>"

definition executeOnceCommand :: "bytes \<Rightarrow> u64 \<Rightarrow> Command_kv \<Rightarrow> kv_error + Command_kv" where
  "executeOnceCommand clientID requestID cmd =
     (if kv_Op cmd \<noteq> OpPut_kv \<and> kv_Op cmd \<noteq> OpCAS \<and> kv_Op cmd \<noteq> OpCheckpoint
      then Inl (NotMutating (kv_Op cmd))
      else Inr (cmd\<lparr>ClientID := clientID, RequestID := requestID\<rparr>))"

text \<open>\<open>ReadIndex\<close> on the lease path: whether the read may go ahead.\<close>

definition readIndexLease :: "env \<Rightarrow> Node \<Rightarrow> bool" where
  "readIndexLease ev n = (case leaseRead ev n of None \<Rightarrow> False | Some idx \<Rightarrow> appliedThrough n idx)"

text \<open>\<open>Get\<close> after \<open>ReadIndex\<close> has answered.\<close>

definition cluster_Get :: "bool \<Rightarrow> bytes \<Rightarrow> Cluster_kv \<Rightarrow> (kv_error + ApplyResult) \<times> Cluster_kv" where
  "cluster_Get readOk key c =
     (if \<not> readOk then (Inl ErrNotLeader, c)
      else case machine_Get key (machine c) of
          (v, found) \<Rightarrow>
            (Inr \<lparr>Found = found, ar_Value = v, Duplicate = False\<rparr>,
             c\<lparr>telemetry := map_option (\<lambda>t. t\<lparr>tel_reads := tel_reads t + 1\<rparr>) (telemetry c)\<rparr>))"

definition ReadCheckpoint :: "bool \<Rightarrow> bytes \<Rightarrow> Cluster_kv \<Rightarrow> (kv_error + ApplyResult) \<times> Cluster_kv" where
  "ReadCheckpoint readOk clientID c = cluster_Get readOk (checkpointKey clientID) c"

text \<open>\<open>Watch\<close> makes a channel with eight slots; \<open>ch\<close> is its address.\<close>

definition cluster_Watch :: "bytes \<Rightarrow> nat \<Rightarrow> Cluster_kv \<Rightarrow> Cluster_kv" where
  "cluster_Watch key ch c =
     c\<lparr>machine := Watch key ch ((machine c)\<lparr>chans := (chans (machine c))(ch := \<lparr>ch_cap = 8, ch_buf = []\<rparr>)\<rparr>)\<rparr>"

definition cluster_Unwatch :: "bytes \<Rightarrow> nat \<Rightarrow> Cluster_kv \<Rightarrow> Cluster_kv" where
  "cluster_Unwatch key ch c = c\<lparr>machine := Unwatch key ch (machine c)\<rparr>"

section \<open>Properties\<close>

text \<open>What a command message does to the node, whatever compaction does to its Raft log.\<close>

lemma maybeSnapshotAt_simps [simp]:
  "machine (maybeSnapshotAt ev g i c) = machine c" "applyCh (maybeSnapshotAt ev g i c) = applyCh c"
  "waiters (maybeSnapshotAt ev g i c) = waiters c" "mailbox (maybeSnapshotAt ev g i c) = mailbox c"
  "recent (maybeSnapshotAt ev g i c) = recent c" "snapEvery (maybeSnapshotAt ev g i c) = snapEvery c"
  by (simp_all add: maybeSnapshotAt_def split: option.split prod.split sum.split)

lemma deliverResult_simps [simp]:
  "machine (deliverResult i r c) = machine c" "applyCh (deliverResult i r c) = applyCh c" "raft (deliverResult i r c) = raft c"
  "snapEvery (deliverResult i r c) = snapEvery c" "lastSnapIndex (deliverResult i r c) = lastSnapIndex c"
  by (simp_all add: deliverResult_def split: option.split)

lemma handleApply_command:
  assumes "\<not> SnapshotValid msg" and "CommandValid msg" and "Decode (ApCommand msg) = Inr cmd"
  obtains c' where "handleApply ev g msg c = Some c'" and "machine c' = snd (Apply cmd (machine c))"
    and "mailbox c' = mailbox (deliverResult (CommandIndex msg) (fst (Apply cmd (machine c))) c)"
    and "recent c' = recent (deliverResult (CommandIndex msg) (fst (Apply cmd (machine c))) c)"
    and "applyCh c' = applyCh c" and "snapEvery c' = snapEvery c"
proof -
  let ?r = "fst (Apply cmd (machine c))"
  let ?c1 = "c\<lparr>machine := snd (Apply cmd (machine c)), telemetry := map_option (countApply cmd) (telemetry c)\<rparr>"
  let ?c2 = "deliverResult (CommandIndex msg) ?r ?c1"
  let ?c3 = "if snapEvery ?c2 > 0 \<and> CommandIndex msg \<ge> add64 (lastSnapIndex ?c2) (snapEvery ?c2)
    then maybeSnapshotAt ev g (CommandIndex msg) ?c2 else ?c2"
  have "handleApply ev g msg c = Some ?c3" using assms by (simp add: handleApply_def split_beta Let_def)
  moreover have "mailbox ?c2 = mailbox (deliverResult (CommandIndex msg) ?r c)" "recent ?c2 = recent (deliverResult (CommandIndex msg) ?r c)"
    by (simp_all add: deliverResult_def split: option.split)
  ultimately show thesis by (intro that [of ?c3]) simp_all
qed

text \<open>
  C25. A proposal is matched with its outcome by its index alone. When the entry a caller
  waits for is replaced by another leader's entry of a different term at the same index,
  the caller is answered with the result of the other command.
\<close>

theorem waiter_answered_by_other_command:
  assumes "pr_isLeader pr" and "fmlookup (recent c) (pr_index pr) = None"
    and "CommandIndex msg = pr_index pr" and "CommandTerm msg \<noteq> pr_term pr"
    and "\<not> SnapshotValid msg" and "CommandValid msg" and "Decode (ApCommand msg) = Inr other"
  shows "\<exists>c1 c2. proposeTry False pr call c = (Waiting (pr_index pr), c1) \<and> handleApply ev g msg c1 = Some c2 \<and>
    fst (proposeWake Reply (pr_index pr) call c2) = Answered (fst (Apply other (machine c))) \<and>
    machine c2 = snd (Apply other (machine c))"
proof -
  let ?c1 = "c\<lparr>waiters := fmupd (pr_index pr) call (waiters c), mailbox := (mailbox c)(call := None)\<rparr>"
  have 1: "proposeTry False pr call c = (Waiting (pr_index pr), ?c1)" using assms(1,2) by (simp add: proposeTry_def)
  obtain c2 where c2: "handleApply ev g msg ?c1 = Some c2" "machine c2 = snd (Apply other (machine c))"
    "mailbox c2 = mailbox (deliverResult (CommandIndex msg) (fst (Apply other (machine c))) ?c1)"
    by (rule handleApply_command [OF assms(5-7), of ev g ?c1]) simp
  then have "mailbox c2 call = Some (fst (Apply other (machine c)))"
    using assms(3) by (simp add: deliverResult_def)
  then have "fst (proposeWake Reply (pr_index pr) call c2) = Answered (fst (Apply other (machine c)))"
    by (simp add: proposeWake_def)
  with 1 c2 show ?thesis by blast
qed

text \<open>A node for the witnesses: a Raft node as given, an empty machine, no calls.\<close>

definition kv_node :: "Node \<Rightarrow> Cluster_kv" where
  "kv_node n = \<lparr>raft = n, machine = NewMachine no_chan, applyCh = [], waiters = fmempty, mailbox = (\<lambda>_. None),
     recent = fmempty, telemetry = None, snapEvery = 10000, lastSnapIndex = 0\<rparr>"

definition other_msg :: ApplyMsg where
  "other_msg = commandMsg \<lparr>Index = 5, Term = 3, Data = Encode (put_cmd 1 7)\<rparr>"

lemma Decode_put_cmd: "Decode (Encode (put_cmd r v)) = Inr (put_cmd r v)"
  by (rule Decode_Encode) (simp add: fits_def put_cmd_def)

theorem waiter_answered_by_other_command_witness:
  "\<exists>n ev g c1 c2 res. proposeTry False \<lparr>pr_index = 5, pr_term = 2, pr_isLeader = True\<rparr> 0 (kv_node n) = (Waiting 5, c1) \<and>
     handleApply ev g other_msg c1 = Some c2 \<and> fst (proposeWake Reply 5 0 c2) = Answered res \<and>
     fmlookup (m_data (machine c2)) [1] = Some [7]"
proof -
  have d: "fmlookup (m_data (snd (Apply (put_cmd 1 7) (machine (kv_node n))))) [1] = Some [7]" for n
    by (simp add: kv_node_def Apply_def put_cmd_def execute_def OpPut_kv_def OpGet_def NewMachine_def split_beta identified_def)
  have m: "\<not> SnapshotValid other_msg" "CommandValid other_msg" "Decode (ApCommand other_msg) = Inr (put_cmd 1 7)"
    "CommandIndex other_msg = 5" "CommandTerm other_msg = 3"
    by (simp_all add: other_msg_def commandMsg_def Decode_put_cmd)
  show ?thesis
    using waiter_answered_by_other_command [of "\<lparr>pr_index = 5, pr_term = 2, pr_isLeader = True\<rparr>" "kv_node n" other_msg "put_cmd 1 7" 0] m d [of n]
    by (simp add: kv_node_def) metis
qed

text \<open>
  C24. Raft counts an entry as applied when it takes it off the log, before the machine has
  seen it. So right after a delivery a read with a valid lease passes the barrier of
  \<open>ReadIndex\<close> and is served from a machine that misses every entry still in the channel:
  a committed write that \<open>Get\<close> was to wait for is not in its answer.
\<close>

theorem read_misses_committed_write:
  assumes "\<not> stopped (raft c)" and "pendingSnapshot (raft c) = None"
    and "those (map (log_entry (nlog (raft c))) [lastApplied (raft c) + 1 ..< commitIndex (raft c) + 1]) = Some es"
    and "e \<in> set es" and "Decode (Data e) = Inr cmd" and "kv_Op cmd = OpPut_kv"
    and "role (raft c) = Leader" and "now ev < readLeaseUntil (raft c)"
    and "fmlookup (m_data (machine c)) (kv_Key cmd) = None"
  shows "\<exists>c1. raftDeliver c = Some c1 \<and> readIndexLease ev (raft c1) \<and> commandMsg e \<in> set (applyCh c1) \<and>
    fst (cluster_Get (readIndexLease ev (raft c1)) (kv_Key cmd) c1) = Inr \<lparr>Found = False, ar_Value = [], Duplicate = False\<rparr>"
proof -
  let ?n = "(raft c)\<lparr>lastApplied := commitIndex (raft c)\<rparr>"
  let ?c1 = "c\<lparr>raft := ?n, applyCh := applyCh c @ map commandMsg es\<rparr>"
  have 1: "raftDeliver c = Some ?c1" using assms(1-3) by (simp add: raftDeliver_def applierStep_def)
  have 2: "readIndexLease ev ?n" using assms(7,8) by (simp add: readIndexLease_def leaseRead_def appliedThrough_def)
  then have "fst (cluster_Get (readIndexLease ev (raft ?c1)) (kv_Key cmd) ?c1) = Inr \<lparr>Found = False, ar_Value = [], Duplicate = False\<rparr>"
    using assms(9) by (simp add: cluster_Get_def machine_Get_def)
  then show ?thesis using 1 2 assms(4) by (intro exI [of _ ?c1]) simp
qed

text \<open>A leader with one committed entry that it has not delivered yet, and a lease.\<close>

definition lease_leader :: "Node \<Rightarrow> Node" where
  "lease_leader n = n\<lparr>role := Leader, stopped := False, pendingSnapshot := None, commitIndex := 1, lastApplied := 0,
     readLeaseUntil := 100, nlog := log_append [\<lparr>Index = 1, Term = 1, Data = Encode (put_cmd 1 7)\<rparr>] (newRaftLog 0 0)\<rparr>"

theorem read_misses_committed_write_witness:
  "\<exists>c c1 e. raftDeliver c = Some c1 \<and> commitIndex (raft c) = 1 \<and> e \<in> set (applyCh c1) \<and> ApCommand e = Encode (put_cmd 1 7) \<and>
     fst (cluster_Get True [1] c1) = Inr \<lparr>Found = False, ar_Value = [], Duplicate = False\<rparr>"
proof -
  define e :: LogEntry where "e = \<lparr>Index = 1, Term = 1, Data = Encode (put_cmd 1 7)\<rparr>"
  define ev :: env where "ev = undefined\<lparr>now := 0\<rparr>"
  let ?c = "kv_node (lease_leader undefined)"
  have "those (map (log_entry (nlog (raft ?c))) [lastApplied (raft ?c) + 1 ..< commitIndex (raft ?c) + 1]) = Some [e]"
    by (simp add: kv_node_def lease_leader_def log_entry_def log_append_def newRaftLog_def firstIndex_def sentinel_def e_def)
  moreover have "Decode (Data e) = Inr (put_cmd 1 7)" "kv_Op (put_cmd 1 7) = OpPut_kv" "kv_Key (put_cmd 1 7) = [1]"
    by (simp add: e_def Decode_put_cmd) (simp_all add: put_cmd_def)
  moreover have "\<not> stopped (raft ?c)" "pendingSnapshot (raft ?c) = None" "role (raft ?c) = Leader" "now ev < readLeaseUntil (raft ?c)"
    "fmlookup (m_data (machine ?c)) [1] = None" "commitIndex (raft ?c) = 1"
    by (simp_all add: kv_node_def lease_leader_def ev_def NewMachine_def)
  ultimately obtain c1 where "raftDeliver ?c = Some c1" "readIndexLease ev (raft c1)" "commandMsg e \<in> set (applyCh c1)"
    "fst (cluster_Get (readIndexLease ev (raft c1)) [1] c1) = Inr \<lparr>Found = False, ar_Value = [], Duplicate = False\<rparr>"
    "commitIndex (raft ?c) = 1"
    using read_misses_committed_write [of ?c "[e]" e "put_cmd 1 7" ev] by auto
  moreover have "ApCommand (commandMsg e) = Encode (put_cmd 1 7)" by (simp add: commandMsg_def e_def)
  ultimately show ?thesis by (metis (full_types))
qed

section \<open>The kept results are bounded\<close>

definition handles :: "env \<Rightarrow> gob \<Rightarrow> ApplyMsg list \<Rightarrow> Cluster_kv \<Rightarrow> Cluster_kv option" where
  "handles ev g msgs c = fold (\<lambda>msg r. Option.bind r (handleApply ev g msg)) msgs (Some c)"

text \<open>Command messages with the indexes that follow \<open>i\<close>.\<close>

primrec numbered :: "nat \<Rightarrow> ApplyMsg list \<Rightarrow> bool" where
  "numbered i [] \<longleftrightarrow> True"
| "numbered i (m # ms) \<longleftrightarrow> \<not> SnapshotValid m \<and> CommandValid m \<and> CommandIndex m = Suc i \<and> numbered (Suc i) ms"

definition recent_ok :: "nat \<Rightarrow> Cluster_kv \<Rightarrow> bool" where
  "recent_ok i c \<longleftrightarrow> (\<forall>k. k |\<in>| fmdom (recent c) \<longrightarrow> k \<le> i) \<and> fcard (fmdom (recent c)) \<le> 257"

lemma card_window:
  assumes "\<forall>k \<in> D. k \<le> i \<and> i \<le> k + (256 :: nat)"
  shows "card D \<le> 257"
proof -
  have "D \<subseteq> {i - 256 .. i}" using assms by auto
  then have "card D \<le> card {i - 256 .. i}" by (intro card_mono) auto
  also have "\<dots> \<le> 257" by simp
  finally show ?thesis .
qed

lemma recent_ok_deliver:
  assumes "recent_ok i c" and "Suc i + 256 < 2 ^ 64"
  shows "recent_ok (Suc i) (deliverResult (Suc i) r c)"
proof (cases "fmlookup (waiters c) (Suc i)")
  case (Some call)
  then show ?thesis using assms(1) by (auto simp: deliverResult_def recent_ok_def le_SucI)
next
  case None
  let ?R = "fmfilter (\<lambda>idx. \<not> add64 idx 256 < Suc i) (fmupd (Suc i) r (recent c))"
  have R: "k \<le> Suc i \<and> Suc i \<le> k + 256" if "k \<in> fset (fmdom ?R)" for k
  proof -
    have k: "k \<le> Suc i" "\<not> add64 k 256 < Suc i" using that assms(1) by (auto simp: recent_ok_def le_SucI split: if_splits)
    then have "add64 k 256 = k + 256" using assms(2) by (simp add: add64_def)
    with k show ?thesis by simp
  qed
  then have "card (fset (fmdom ?R)) \<le> 257" by (intro card_window [of _ "Suc i"]) blast
  then have "recent_ok (Suc i) (c\<lparr>recent := ?R\<rparr>)" using R by (auto simp: recent_ok_def fcard.rep_eq)
  then show ?thesis by (simp add: deliverResult_def None)
qed

lemma handles_Cons: "handles ev g (m # ms) c = Option.bind (handleApply ev g m c) (handles ev g ms)"
proof -
  have "fold (\<lambda>msg r. Option.bind r (handleApply ev g msg)) ms r = Option.bind r (handles ev g ms)" for r
  proof (cases r)
    case None
    then show ?thesis by (induction ms) (simp_all add: handles_def)
  next
    case (Some x)
    then show ?thesis by (simp add: handles_def)
  qed
  then show ?thesis by (simp add: handles_def)
qed

text \<open>
  The results kept for proposers that have not registered yet are at most 257, however
  many commands are applied: their indexes are within 256 of the last index kept.
\<close>

theorem recent_results_bounded:
  assumes "numbered 0 msgs" and "length msgs + 256 < 2 ^ 64" and "recent c = fmempty" and "handles ev g msgs c = Some c'"
  shows "fcard (fmdom (recent c')) \<le> 257"
proof -
  have "recent_ok (i + length msgs) c'"
    if "numbered i msgs" "i + length msgs + 256 < 2 ^ 64" "recent_ok i c" "handles ev g msgs c = Some c'" for i c
    using that
  proof (induction msgs arbitrary: i c)
    case Nil
    then show ?case by (simp add: handles_def)
  next
    case (Cons m ms)
    obtain c1 where c1: "handleApply ev g m c = Some c1" "handles ev g ms c1 = Some c'"
      using Cons.prems(4) by (auto simp: handles_Cons bind_eq_Some_conv)
    obtain cmd where d: "Decode (ApCommand m) = Inr cmd"
      using c1(1) Cons.prems(1) by (cases "Decode (ApCommand m)") (auto simp: handleApply_def)
    have "recent c1 = recent (deliverResult (Suc i) (fst (Apply cmd (machine c))) c)"
      by (rule handleApply_command [OF _ _ d, of ev g c]) (use Cons.prems(1) c1(1) in simp_all)
    moreover have "recent_ok (Suc i) (deliverResult (Suc i) (fst (Apply cmd (machine c))) c)"
      using recent_ok_deliver [OF Cons.prems(3)] Cons.prems(2) by simp
    ultimately have "recent_ok (Suc i) c1" by (simp add: recent_ok_def)
    from Cons.IH [OF _ _ this c1(2)] Cons.prems(1,2) show ?case by simp
  qed
  from this [of 0 c] show ?thesis using assms by (simp add: recent_ok_def fcard.rep_eq)
qed

theorem recent_results_bounded_witness:
  "\<exists>ev g n c'. handles ev g [commandMsg \<lparr>Index = 1, Term = 3, Data = Encode (put_cmd 1 7)\<rparr>] (kv_node n) = Some c' \<and>
     fcard (fmdom (recent c')) \<le> 257"
proof -
  let ?m = "commandMsg \<lparr>Index = 1, Term = 3, Data = Encode (put_cmd 1 7)\<rparr>"
  have m: "\<not> SnapshotValid ?m" "CommandValid ?m" "Decode (ApCommand ?m) = Inr (put_cmd 1 7)" "CommandIndex ?m = 1"
    by (simp_all add: commandMsg_def Decode_put_cmd)
  fix ev g n
  obtain c' where "handleApply ev g ?m (kv_node n) = Some c'" by (rule handleApply_command [OF m(1-3)])
  then have "handles ev g [?m] (kv_node n) = Some c'" by (simp add: handles_def)
  moreover from recent_results_bounded [OF _ _ _ this] m(1,2,4) have "fcard (fmdom (recent c')) \<le> 257"
    by (simp add: kv_node_def)
  ultimately show ?thesis by blast
qed

end
