(* ===== verification/NodeProofs.thy ===== *)
theory NodeProofs
  imports Replicate Codecs
begin

text \<open>
  What the handlers of a single node guarantee: terms and votes, the log, the commit point,
  and that what a response promises is on disk.
\<close>

section \<open>What the helpers leave alone\<close>

lemma reset_simps [simp]:
  "currentTerm (resetElectionTimerLocked ev n) = currentTerm n"
  "votedFor (resetElectionTimerLocked ev n) = votedFor n"
  "role (resetElectionTimerLocked ev n) = role n"
  "nlog (resetElectionTimerLocked ev n) = nlog n"
  "persist (resetElectionTimerLocked ev n) = persist n"
  "commitIndex (resetElectionTimerLocked ev n) = commitIndex n"
  "lastApplied (resetElectionTimerLocked ev n) = lastApplied n"
  "stopped (resetElectionTimerLocked ev n) = stopped n"
  "nid (resetElectionTimerLocked ev n) = nid n"
  "peers (resetElectionTimerLocked ev n) = peers n"
  "tm (resetElectionTimerLocked ev n) = tm n"
  "leaderID (resetElectionTimerLocked ev n) = leaderID n"
  "pendingSnapshot (resetElectionTimerLocked ev n) = pendingSnapshot n"
  "preVoteRound (resetElectionTimerLocked ev n) = preVoteRound n"
  "matchIndex (resetElectionTimerLocked ev n) = matchIndex n"
  "snapshotRetain (resetElectionTimerLocked ev n) = snapshotRetain n"
  by (simp_all add: resetElectionTimerLocked_def Let_def)

lemma persistHardState_eq:
  "persistHardState n =
     (fst (saveHardState (currentTerm n) (votedFor n) (persist n)),
      n\<lparr>persist := snd (saveHardState (currentTerm n) (votedFor n) (persist n))\<rparr>)"
  by (simp add: persistHardState_def split: prod.split)

lemma becomeFollower_simps [simp]:
  "currentTerm (becomeFollowerLocked ev t n) = t"
  "votedFor (becomeFollowerLocked ev t n) = noVote"
  "role (becomeFollowerLocked ev t n) = Follower"
  "nlog (becomeFollowerLocked ev t n) = nlog n"
  "commitIndex (becomeFollowerLocked ev t n) = commitIndex n"
  "lastApplied (becomeFollowerLocked ev t n) = lastApplied n"
  "stopped (becomeFollowerLocked ev t n) = stopped n"
  "nid (becomeFollowerLocked ev t n) = nid n"
  "peers (becomeFollowerLocked ev t n) = peers n"
  "tm (becomeFollowerLocked ev t n) = tm n"
  "pendingSnapshot (becomeFollowerLocked ev t n) = pendingSnapshot n"
  "persist (becomeFollowerLocked ev t n) = snd (saveHardState t noVote (persist n))"
  by (simp_all add: becomeFollowerLocked_def persistHardState_eq)

lemma hearLeader_simps [simp]:
  "currentTerm (hearLeader ev l n) = currentTerm n" "votedFor (hearLeader ev l n) = votedFor n"
  "role (hearLeader ev l n) = Follower" "nlog (hearLeader ev l n) = nlog n"
  "commitIndex (hearLeader ev l n) = commitIndex n" "lastApplied (hearLeader ev l n) = lastApplied n"
  "stopped (hearLeader ev l n) = stopped n" "nid (hearLeader ev l n) = nid n"
  "peers (hearLeader ev l n) = peers n" "persist (hearLeader ev l n) = persist n"
  "tm (hearLeader ev l n) = tm n" "pendingSnapshot (hearLeader ev l n) = pendingSnapshot n"
  by (simp_all add: hearLeader_def)

lemma becomeLeader_simps [simp]:
  "currentTerm (becomeLeaderLocked ev n) = currentTerm n" "votedFor (becomeLeaderLocked ev n) = votedFor n"
  "role (becomeLeaderLocked ev n) = Leader" "nlog (becomeLeaderLocked ev n) = nlog n"
  "commitIndex (becomeLeaderLocked ev n) = commitIndex n" "nid (becomeLeaderLocked ev n) = nid n"
  "peers (becomeLeaderLocked ev n) = peers n" "persist (becomeLeaderLocked ev n) = persist n"
  "lastApplied (becomeLeaderLocked ev n) = lastApplied n" "stopped (becomeLeaderLocked ev n) = stopped n"
  "matchIndex (becomeLeaderLocked ev n) = (\<lambda>_. 0)" "pendingSnapshot (becomeLeaderLocked ev n) = pendingSnapshot n"
  "tm (becomeLeaderLocked ev n) = tm n"
  by (simp_all add: becomeLeaderLocked_def)

lemma stepDown_simps [simp]:
  "currentTerm (stepDownLocked ev n) = currentTerm n" "votedFor (stepDownLocked ev n) = votedFor n"
  "role (stepDownLocked ev n) = Follower" "nlog (stepDownLocked ev n) = nlog n"
  "commitIndex (stepDownLocked ev n) = commitIndex n" "nid (stepDownLocked ev n) = nid n"
  "peers (stepDownLocked ev n) = peers n" "persist (stepDownLocked ev n) = persist n"
  "lastApplied (stepDownLocked ev n) = lastApplied n" "stopped (stepDownLocked ev n) = stopped n"
  "leaderID (stepDownLocked ev n) = 0" "tm (stepDownLocked ev n) = tm n"
  by (simp_all add: stepDownLocked_def)

section \<open>Votes\<close>

text \<open>The two outcomes of a vote request that is not refused before the vote is written.\<close>

lemma HandleRequestVote_granted:
  assumes "HandleRequestVote ev req n = (resp, n')" and "VoteGranted resp" and "\<not> PreVote req"
  shows "currentTerm n' = rvTerm req" and "votedFor n' = CandidateId req"
    and "rvrTerm resp = rvTerm req" and "currentTerm n \<le> rvTerm req"
    and "currentTerm n = rvTerm req \<Longrightarrow> votedFor n = noVote \<or> votedFor n = CandidateId req"
    and "nlog n' = nlog n" and "upToDate req n"
    and "saveHardState (rvTerm req) (CandidateId req)
      (if currentTerm n < rvTerm req then snd (saveHardState (rvTerm req) noVote (persist n))
       else persist n) = (Inr (), persist n')"
  using assms
  by (auto simp: HandleRequestVote_def refuse_def Let_def upToDate_def persistHardState_eq prod_eq_iff
      split: if_splits sum.splits)


text \<open>A codec for entries, a clock and a fresh node of a three-node cluster.\<close>

definition some_pb :: pbcodec where
  "some_pb = \<lparr>Marshal = (\<lambda>e. Some (put_nat (Index e) @ put_nat (Term e) @ Data e)),
     Unmarshal = (\<lambda>bs. case get_nat bs of None \<Rightarrow> None | Some (i, r) \<Rightarrow>
       (case get_nat r of None \<Rightarrow> None | Some (t, d) \<Rightarrow> Some \<lparr>Index = i, Term = t, Data = d\<rparr>))\<rparr>"

definition some_env :: env where
  "some_env = \<lparr>now = 10 * 1000 * Millisecond, Int63n = (\<lambda>k. 0), pb = some_pb\<rparr>"

definition some_cfg :: "nat \<Rightarrow> nat list \<Rightarrow> Config" where
  "some_cfg i ps = \<lparr>cfgID = i, cfgPeers = ps, cfgTimings = DefaultTimings, cfgSnapshotRetain = 0\<rparr>"

definition fresh_node :: "nat \<Rightarrow> nat list \<Rightarrow> fault list \<Rightarrow> Node" where
  "fresh_node i ps fs = nodeOf some_env (some_cfg i ps) (fresh_persist fs) emptyState"

lemma length_put_nat: "length (put_nat n) = 2 * n + 1"
  unfolding put_nat_def by (induction n) auto

lemma some_pb_ok:
  assumes "Index e < 2 ^ 29" and "Term e < 2 ^ 29" and "length (Data e) < 2 ^ 29"
  shows "codec_ok some_pb e"
  using assms by (simp add: codec_ok_def some_pb_def frameable_def entryRecord_def length_put_nat)

lemma fresh_node_simps [simp]:
  "currentTerm (fresh_node i ps fs) = 0" "votedFor (fresh_node i ps fs) = noVote"
  "role (fresh_node i ps fs) = Follower" "nlog (fresh_node i ps fs) = newRaftLog 0 0"
  "persist (fresh_node i ps fs) = fresh_persist fs" "commitIndex (fresh_node i ps fs) = 0"
  "lastApplied (fresh_node i ps fs) = 0" "stopped (fresh_node i ps fs) = False"
  "nid (fresh_node i ps fs) = i" "peers (fresh_node i ps fs) = ps" "leaderID (fresh_node i ps fs) = 0"
  "pendingSnapshot (fresh_node i ps fs) = None" "preVoteRound (fresh_node i ps fs) = 0"
  by (simp_all add: fresh_node_def nodeOf_def some_cfg_def emptyState_def log_append_def)

definition vote_request :: "nat \<Rightarrow> nat \<Rightarrow> RequestVoteRequest" where
  "vote_request t c =
     \<lparr>rvTerm = t, CandidateId = c, LastLogIndex = 0, LastLogTerm = 0, PreVote = False\<rparr>"

lemma fresh_node_votes:
  obtains n' where "HandleRequestVote some_env (vote_request 1 2) (fresh_node 1 [2, 3] []) =
    (\<lparr>rvrTerm = 1, VoteGranted = True\<rparr>, n')"
proof -
  let ?p1 = "snd (saveHardState 1 noVote (fresh_persist []))"
  have "p_healthy ?p1" using p_succeedsD [OF p_succeeds_saveHardState fresh_persist_healthy] by simp
  then have "fst (saveHardState 1 2 ?p1) = Inr ()" using p_succeedsD [OF p_succeeds_saveHardState] by blast
  with that show thesis
    by (simp add: HandleRequestVote_def vote_request_def heardLeaderRecentlyLocked_def upToDate_def
        persistHardState_eq)
qed


section \<open>A lost vote\<close>

text \<open>A log handle with nothing buffered and no error; a hard-state write then makes two calls.\<close>

definition quiet :: "pstate \<Rightarrow> bool" where
  "quiet = (\<lambda>(p, w). \<exists>W. p_wal p = Some W \<and> wal_buf W = [] \<and> wal_err W = None \<and> \<not> wal_closed W)"

text \<open>\<open>loses w w'\<close>: a crash in world \<open>w'\<close> can leave what a crash in the earlier world \<open>w\<close> can leave.\<close>

definition loses :: "world \<Rightarrow> world \<Rightarrow> bool" where
  "loses w w' \<longleftrightarrow> (\<exists>x. crash w x \<and> crash w' x \<and> faults x = [])"

lemma loses_written:
  assumes "inodes w' = (inodes w)(f := (inodes w f)\<lparr>i_cur := c\<rparr>)"
    and "dirents w' = dirents w" "past_dirents w' = past_dirents w" "next_ino w' = next_ino w"
  shows "loses w w'"
proof -
  let ?x = "(clean_crash w)\<lparr>inodes := (inodes (clean_crash w))(f := synced_file (durable w f))\<rparr>"
  have "crash w ?x"
    using crash_clean [of w] by (auto simp: crash_def contents_def crash_file_def durable_def)
  moreover have "crash w' ?x"
    using crash_clean [of w] assms
    by (auto simp: crash_def contents_def crash_file_def durable_def possible_dirs_def)
  ultimately show ?thesis by (auto simp: loses_def clean_crash_def)
qed

lemma put_sync_two_calls:
  assumes "quiet s" and "faults (snd s) = Fine # f # fs" and len: "length r \<le> 4000"
  obtains s' where "bindE (on_wal (Append r)) (\<lambda>_. on_wal Sync) s =
      ((case f of Fine \<Rightarrow> Inr () | Fail _ \<Rightarrow> Inl (PIO SyncErr)), s')"
    and "quiet s'" and "faults (snd s') = fs" and "f \<noteq> Fine \<Longrightarrow> loses (snd s) (snd s')"
proof -
  obtain p w W where s: "s = (p, w)" and W: "p_wal p = Some W" "wal_buf W = []" "wal_err W = None"
    "\<not> wal_closed W" using assms(1) by (auto simp: quiet_def)
  let ?W1 = "W\<lparr>wal_buf := frame r\<rparr>"
  let ?w1 = "set_inode (wal_f W) ((inodes w (wal_f W))\<lparr>i_cur := contents w (wal_f W) @ frame r\<rparr>) (tick w)"
  have app: "on_wal (Append r) s = (Inr (), (p\<lparr>p_wal := Some ?W1\<rparr>, w))"
    using W len by (simp add: s on_wal_def Append_def bufio_Write_def bufSize_def bufio_put_def
        frameHeaderSize_def frame_def bindE_def)
  have "length (frame r) \<noteq> 0" by (simp add: frame_def frameHeader_def)
  then have "frame r \<noteq> []" by force
  then have flush: "bufio_Flush (?W1, w) = (Inr (), (W\<lparr>wal_buf := []\<rparr>, ?w1))"
    using W assms(2) by (simp add: s bufio_Flush_def wal_write_def f_Write_def next_fault_def)
  have "\<exists>w'. Sync (?W1, w) = ((case f of Fine \<Rightarrow> Inr () | Fail _ \<Rightarrow> Inl SyncErr), (W\<lparr>wal_buf := []\<rparr>, w')) \<and>
      faults w' = fs \<and> (f \<noteq> Fine \<longrightarrow> w' = tick ?w1)"
    using W(4) assms(2)
    by (cases f) (simp_all add: s Sync_def flush lift_w_def f_Sync_def sys_def next_fault_def)
  then obtain w' where sy: "Sync (?W1, w) =
      ((case f of Fine \<Rightarrow> Inr () | Fail _ \<Rightarrow> Inl SyncErr), (W\<lparr>wal_buf := []\<rparr>, w'))" "faults w' = fs"
    and w': "f \<noteq> Fine \<longrightarrow> w' = tick ?w1" by blast
  from sy(1) have "on_wal Sync (p\<lparr>p_wal := Some ?W1\<rparr>, w) =
      ((case f of Fine \<Rightarrow> Inr () | Fail _ \<Rightarrow> Inl (PIO SyncErr)), (p\<lparr>p_wal := Some (W\<lparr>wal_buf := []\<rparr>)\<rparr>, w'))"
    by (cases f) (simp_all add: on_wal_def)
  with app have "bindE (on_wal (Append r)) (\<lambda>_. on_wal Sync) s =
      ((case f of Fine \<Rightarrow> Inr () | Fail _ \<Rightarrow> Inl (PIO SyncErr)), (p\<lparr>p_wal := Some (W\<lparr>wal_buf := []\<rparr>)\<rparr>, w'))"
    by simp
  moreover have "loses (snd s) w'" if "f \<noteq> Fine"
    using that w' by (intro loses_written [where f = "wal_f W"]) (simp_all add: s set_inode_def tick_def)
  ultimately show thesis using that W sy(2) by (auto simp: quiet_def)
qed

lemma saveHardState_synced:
  assumes "quiet s" and "faults (snd s) = Fine # Fine # fs"
  obtains s' where "saveHardState t v s = (Inr (), s')" and "quiet s'" and "faults (snd s') = fs"
  by (rule put_sync_two_calls [OF assms, of "hardStateRecord t v"])
     (use that in \<open>simp_all add: saveHardState_def hardStateRecord_def\<close>)

lemma saveHardState_unsynced:
  assumes "quiet s" and "faults (snd s) = Fine # Fail k # fs"
  obtains s' where "saveHardState t v s = (Inl (PIO SyncErr), s')" and "quiet s'" and "faults (snd s') = fs"
  by (rule put_sync_two_calls [OF assms, of "hardStateRecord t v"])
     (use that in \<open>simp_all add: saveHardState_def hardStateRecord_def\<close>)

lemma vote_same_term:
  assumes "\<not> stopped n" and "\<not> PreVote req" and "rvTerm req = currentTerm n" and "upToDate req n"
    and "votedFor n = noVote \<or> votedFor n = CandidateId req"
    and "saveHardState (currentTerm n) (CandidateId req) (persist n) = (r, s')"
  shows "HandleRequestVote ev req n =
    (case r of
       Inr _ \<Rightarrow> (\<lparr>rvrTerm = currentTerm n, VoteGranted = True\<rparr>,
         resetElectionTimerLocked ev (n\<lparr>votedFor := CandidateId req, persist := s'\<rparr>))
     | Inl _ \<Rightarrow> (refuse n, n\<lparr>votedFor := noVote, persist := s'\<rparr>))"
  using assms by (auto simp: HandleRequestVote_def persistHardState_eq refuse_def split: sum.split)

text \<open>
  C36. A transient fsync failure makes a node vote twice in one term. A node that granted its
  vote to one candidate receives the same request again; writing the (unchanged) vote
  fails once, and the handler resets \<open>votedFor\<close> to none instead of leaving it. The next
  request, of another candidate in the same term, is granted.
\<close>

theorem transient_fsync_failure_double_vote:
  assumes "\<not> stopped n" and "votedFor n = noVote" and "quiet (persist n)"
    and "faults (snd (persist n)) = [Fine, Fine, Fine, Fail k, Fine, Fine]"
    and "\<not> PreVote a" "\<not> PreVote b" and "rvTerm a = currentTerm n" "rvTerm b = currentTerm n"
    and "upToDate a n" "upToDate b n" and "CandidateId a \<noteq> CandidateId b"
  shows "\<exists>n1 n2 n3 r1 r2 r3. HandleRequestVote ev a n = (r1, n1) \<and> VoteGranted r1 \<and>
    HandleRequestVote ev a n1 = (r2, n2) \<and> \<not> VoteGranted r2 \<and>
    HandleRequestVote ev b n2 = (r3, n3) \<and> VoteGranted r3 \<and>
    rvrTerm r1 = rvrTerm r3"
proof -
  obtain s1 where s1: "saveHardState (currentTerm n) (CandidateId a) (persist n) = (Inr (), s1)"
    "quiet s1" "faults (snd s1) = [Fine, Fail k, Fine, Fine]"
    by (rule saveHardState_synced [OF assms(3,4)])
  obtain s2 where s2: "saveHardState (currentTerm n) (CandidateId a) s1 = (Inl (PIO SyncErr), s2)"
    "quiet s2" "faults (snd s2) = [Fine, Fine]"
    by (rule saveHardState_unsynced [OF s1(2,3)])
  obtain s3 where s3: "saveHardState (currentTerm n) (CandidateId b) s2 = (Inr (), s3)"
    by (rule saveHardState_synced [OF s2(2,3)])
  let ?n1 = "resetElectionTimerLocked ev (n\<lparr>votedFor := CandidateId a, persist := s1\<rparr>)"
  let ?n2 = "?n1\<lparr>votedFor := noVote, persist := s2\<rparr>"
  have "HandleRequestVote ev a n = (\<lparr>rvrTerm = currentTerm n, VoteGranted = True\<rparr>, ?n1)"
    using vote_same_term [OF assms(1,5,7,9) _ s1(1)] assms(2) by simp
  moreover have "HandleRequestVote ev a ?n1 = (refuse ?n1, ?n2)"
    using vote_same_term [of ?n1 a "Inl (PIO SyncErr)" s2 ev] assms s2(1) by (simp add: upToDate_def)
  moreover have "\<exists>n3. HandleRequestVote ev b ?n2 = (\<lparr>rvrTerm = currentTerm n, VoteGranted = True\<rparr>, n3)"
    using vote_same_term [of ?n2 b "Inr ()" s3 ev] assms s3(1) by (simp add: upToDate_def)
  ultimately show ?thesis by (fastforce simp: refuse_def)
qed

theorem transient_fsync_failure_double_vote_witness:
  "\<exists>n1 n2 n3 r1 r2 r3.
    HandleRequestVote some_env (vote_request 0 2) (fresh_node 1 [2, 3] [Fine, Fine, Fine, Fail 0, Fine, Fine]) = (r1, n1) \<and>
    VoteGranted r1 \<and> HandleRequestVote some_env (vote_request 0 2) n1 = (r2, n2) \<and>
    HandleRequestVote some_env (vote_request 0 3) n2 = (r3, n3) \<and> VoteGranted r3"
proof -
  let ?n = "fresh_node 1 [2, 3] [Fine, Fine, Fine, Fail 0, Fine, Fine]"
  have "quiet (persist ?n)" "faults (snd (persist ?n)) = [Fine, Fine, Fine, Fail 0, Fine, Fine]"
    by (simp_all add: quiet_def fresh_persist_def raft_disk_def)
  from transient_fsync_failure_double_vote [OF _ _ this, of "vote_request 0 2" "vote_request 0 3" some_env]
  show ?thesis by (simp add: vote_request_def upToDate_def) blast
qed

end
