(* ===== verification/AppendProofs.thy ===== *)
theory AppendProofs
  imports NodeProofs
begin

text \<open>
  What \<open>HandleAppendEntries\<close> does to the log of a follower: agreement with the leader's
  entries on success, no loss of entries without a conflict, a commit point that never
  moves back, and durability of what was acknowledged.
\<close>

section \<open>Reconciling the incoming entries\<close>

text \<open>The log that results from a reconciliation.\<close>

definition merged :: "raftLog \<Rightarrow> LogEntry list \<Rightarrow> raftLog" where
  "merged l es =
     (case reconcile l es of
        (new, None) \<Rightarrow> log_append new l
      | (new, Some i) \<Rightarrow> log_append new (log_truncateFrom i l))"

text \<open>\<open>holds l e\<close>: the log has an entry of the term of \<open>e\<close> at its index.\<close>

definition holds :: "raftLog \<Rightarrow> LogEntry \<Rightarrow> bool" where
  "holds l e \<longleftrightarrow> log_term l (Index e) = (Term e, True)"

definition split_at :: "raftLog \<Rightarrow> nat \<Rightarrow> LogEntry list \<Rightarrow> LogEntry list \<Rightarrow> nat option \<Rightarrow> bool" where
  "split_at l p old new c \<longleftrightarrow>
     (\<forall>e \<in> set old. Index e \<le> firstIndex l \<or> holds l e) \<and>
     (case c of
        None \<Rightarrow> new = [] \<or> p + length old = lastIndex l
      | Some i \<Rightarrow> new \<noteq> [] \<and> i = Suc (p + length old) \<and> firstIndex l < i \<and> i \<le> lastIndex l \<and>
          Index (hd new) = i \<and> fst (log_term l i) \<noteq> Term (hd new))"

lemma split_at_Cons:
  "Index e \<le> firstIndex l \<or> holds l e \<Longrightarrow> split_at l (Suc p) old new c \<Longrightarrow> split_at l p (e # old) new c"
  by (auto simp: split_at_def split: option.splits)

lemma reconcile_split:
  assumes "wf_log l" and "consecutive (Suc p) es" and "p \<le> lastIndex l" and "reconcile l es = (new, c)"
  shows "\<exists>old. es = old @ new \<and> split_at l p old new c"
  using assms
proof (induction es arbitrary: p)
  case Nil
  then show ?case by (auto simp: split_at_def)
next
  case (Cons e es)
  have idx: "Index e = Suc p" "consecutive (Suc (Suc p)) es" using Cons.prems(2) by auto
  consider "Index e \<le> firstIndex l" | "firstIndex l < Index e" "lastIndex l < Index e"
    | "firstIndex l < Index e" "Index e \<le> lastIndex l" "fst (log_term l (Index e)) \<noteq> Term e"
    | "firstIndex l < Index e" "Index e \<le> lastIndex l" "fst (log_term l (Index e)) = Term e" by linarith
  then have "(Index e \<le> firstIndex l \<or> holds l e) \<and> Suc p \<le> lastIndex l \<and> reconcile l es = (new, c) \<or>
    new = e # es \<and> split_at l p [] new c"
    using Cons.prems(3,4) idx first_le_last [OF Cons.prems(1)]
    by cases (auto simp: split_at_def holds_def log_term_def)
  then show ?case
  proof
    assume *: "(Index e \<le> firstIndex l \<or> holds l e) \<and> Suc p \<le> lastIndex l \<and> reconcile l es = (new, c)"
    then obtain old where "es = old @ new" "split_at l (Suc p) old new c"
      using Cons.IH [OF Cons.prems(1) idx(2)] by blast
    with * show ?case by (intro exI [of _ "e # old"]) (simp add: split_at_Cons)
  next
    assume "new = e # es \<and> split_at l p [] new c"
    then show ?case by (intro exI [of _ "[]"]) auto
  qed
qed

text \<open>
  The result of a reconciliation: it is well-formed, holds all the incoming entries above the
  compaction point, and agrees with the old log below the first new entry. Unless there is
  a conflict it keeps everything it had.
\<close>

lemma holds_entry: "wf_log l \<Longrightarrow> holds l e \<longleftrightarrow> (\<exists>x. log_entry l (Index e) = Some x \<and> Term x = Term e)"
  by (auto simp: holds_def log_term_entry split: option.splits)

text \<open>Appending the incoming entries from position \<open>q\<close> on to a log that ends at \<open>q\<close>.\<close>

lemma appended_spec:
  assumes wf: "wf_log l" and q: "lastIndex l = q" and cons: "consecutive (Suc q) new"
  shows "wf_log (log_append new l)" and "lastIndex (log_append new l) = q + length new"
    and "\<forall>j \<le> q. log_entry (log_append new l) j = log_entry l j"
    and "\<forall>e \<in> set new. log_entry (log_append new l) (Index e) = Some e"
proof -
  from cons q have c: "consecutive (lastIndex l + 1) new" by simp
  show "wf_log (log_append new l)" "lastIndex (log_append new l) = q + length new"
    using wf_append [OF wf c] lastIndex_append [OF wf c] q by auto
  show "\<forall>j \<le> q. log_entry (log_append new l) j = log_entry l j"
    using log_entry_append [OF wf c] q by auto
  show "\<forall>e \<in> set new. log_entry (log_append new l) (Index e) = Some e"
  proof
    fix e assume "e \<in> set new"
    then obtain k where k: "k < length new" "new ! k = e" by (auto simp: in_set_conv_nth)
    then have "Index e = Suc q + k" using consecutive_nth [OF cons k(1)] by simp
    with k q show "log_entry (log_append new l) (Index e) = Some e"
      using log_entry_append [OF wf c, of "Index e"] by auto
  qed
qed

lemma merged_spec:
  assumes wf: "wf_log l" and cons: "consecutive (Suc p) es" and p: "p \<le> lastIndex l"
    and rec: "reconcile l es = (new, c)"
  shows "wf_log (merged l es)" and "firstIndex (merged l es) = firstIndex l"
    and "p + length es \<le> lastIndex (merged l es)"
    and "\<forall>e \<in> set es. firstIndex l < Index e \<longrightarrow> holds (merged l es) e"
    and "\<forall>j. (case c of Some i \<Rightarrow> j < i | None \<Rightarrow> j \<le> lastIndex l) \<longrightarrow> log_entry (merged l es) j = log_entry l j"
    and "\<forall>e \<in> set new. log_entry (merged l es) (Index e) = Some e"
    and "\<forall>i. c = Some i \<longrightarrow> p < i"
proof -
  obtain old where es: "es = old @ new" and sp: "split_at l p old new c"
    using reconcile_split [OF wf cons p rec] by blast
  have conew: "consecutive (Suc (p + length old)) new" using cons by (simp add: es)
  have "wf_log (merged l es) \<and> firstIndex (merged l es) = firstIndex l \<and>
    p + length es \<le> lastIndex (merged l es) \<and>
    (\<forall>j. (case c of Some i \<Rightarrow> j < i | None \<Rightarrow> j \<le> lastIndex l) \<longrightarrow> log_entry (merged l es) j = log_entry l j) \<and>
    (\<forall>e \<in> set new. log_entry (merged l es) (Index e) = Some e)"
  proof (cases c)
    case None
    have m: "merged l es = log_append new l" by (simp add: merged_def rec None)
    show ?thesis
    proof (cases "new = []")
      case True
      have "p + length old \<le> lastIndex l"
      proof (cases old rule: rev_cases)
        case Nil
        then show ?thesis using p by simp
      next
        case (snoc old' e)
        have "Index e = p + length old"
          using consecutive_nth [OF cons, of "length old'"] by (simp add: es snoc True)
        moreover have "Index e \<le> lastIndex l"
          using sp first_le_last [OF wf]
          by (auto simp: split_at_def snoc holds_def log_term_def split: if_splits)
        ultimately show ?thesis by simp
      qed
      with True None show ?thesis using wf unfolding m by (simp add: es log_append_def)
    next
      case False
      with sp None have q: "lastIndex l = p + length old" by (auto simp: split_at_def)
      from appended_spec [OF wf q conew] show ?thesis
        using wf q None unfolding m by (auto simp: es)
    qed
  next
    case (Some i)
    then have i: "i = Suc (p + length old)" "firstIndex l < i" "i \<le> lastIndex l"
      using sp by (auto simp: split_at_def)
    have m: "merged l es = log_append new (log_truncateFrom i l)" by (simp add: merged_def rec Some)
    have q: "lastIndex (log_truncateFrom i l) = p + length old"
      using lastIndex_truncate [OF wf i(2)] i by simp
    from appended_spec [OF wf_truncate [OF wf] q conew] show ?thesis
      using wf i Some log_entry_truncate [OF wf i(2)] wf_truncate [OF wf, of i] unfolding m by (auto simp: es)
  qed
  then show w: "wf_log (merged l es)" and "firstIndex (merged l es) = firstIndex l"
    and "p + length es \<le> lastIndex (merged l es)"
    and below: "\<forall>j. (case c of Some i \<Rightarrow> j < i | None \<Rightarrow> j \<le> lastIndex l) \<longrightarrow>
      log_entry (merged l es) j = log_entry l j"
    and new: "\<forall>e \<in> set new. log_entry (merged l es) (Index e) = Some e" by auto
  show "\<forall>i. c = Some i \<longrightarrow> p < i" using sp by (auto simp: split_at_def)
  show "\<forall>e \<in> set es. firstIndex l < Index e \<longrightarrow> holds (merged l es) e"
  proof (intro ballI impI)
    fix e assume e: "e \<in> set es" "firstIndex l < Index e"
    show "holds (merged l es) e"
    proof (cases "e \<in> set new")
      case True
      with new w show ?thesis by (simp add: holds_entry)
    next
      case False
      with e es have o: "e \<in> set old" by auto
      with sp e(2) have h: "holds l e" by (auto simp: split_at_def)
      from o obtain k where k: "k < length old" "old ! k = e" by (auto simp: in_set_conv_nth)
      have "Index e = Suc p + k"
        using consecutive_nth [OF cons, of k] k by (simp add: es nth_append)
      with k(1) sp h have "case c of Some i \<Rightarrow> Index e < i | None \<Rightarrow> Index e \<le> lastIndex l"
        by (auto simp: split_at_def holds_def log_term_def split: option.splits if_splits)
      with below h wf w show ?thesis by (simp add: holds_entry)
    qed
  qed
qed

section \<open>The handler\<close>

lemma storeEntries_ok:
  "storeEntries ev es n = (Inr u, n') \<Longrightarrow>
   n' = n\<lparr>nlog := log_append es (nlog n), persist := persist n'\<rparr> \<and>
   (if es = [] then persist n' = persist n else appendEntries (pb ev) es (persist n) = (Inr u, persist n'))"
  by (auto simp: storeEntries_def log_append_def split: if_splits prod.splits)

lemma cutConflict_ok:
  "cutConflict c n = (Inr u, n') \<Longrightarrow>
   n' = n\<lparr>nlog := (case c of None \<Rightarrow> nlog n | Some i \<Rightarrow> log_truncateFrom i (nlog n)), persist := persist n'\<rparr> \<and>
   (case c of None \<Rightarrow> persist n' = persist n | Some i \<Rightarrow> truncateFrom i (persist n) = (Inr u, persist n'))"
  by (auto simp: cutConflict_def split: option.splits prod.splits)

definition prevMatches :: "AppendEntriesRequest \<Rightarrow> Node \<Rightarrow> bool" where
  "prevMatches req n \<longleftrightarrow> PrevLogIndex req \<le> lastIndex (nlog n) \<and>
     (firstIndex (nlog n) \<le> PrevLogIndex req \<longrightarrow>
      log_term (nlog n) (PrevLogIndex req) = (PrevLogTerm req, True))"

definition newCommit :: "AppendEntriesRequest \<Rightarrow> nat \<Rightarrow> nat" where
  "newCommit req c =
     (if LeaderCommit req > c then min (LeaderCommit req) (max (PrevLogIndex req + length (Entries req)) c)
      else c)"

definition bumped :: "env \<Rightarrow> nat \<Rightarrow> Node \<Rightarrow> Node" where
  "bumped ev t n = (if t > currentTerm n then becomeFollowerLocked ev t n else n)"

lemma bumped_simps [simp]:
  "nlog (bumped ev t n) = nlog n" "commitIndex (bumped ev t n) = commitIndex n"
  "lastApplied (bumped ev t n) = lastApplied n" "stopped (bumped ev t n) = stopped n"
  "nid (bumped ev t n) = nid n" "peers (bumped ev t n) = peers n" "tm (bumped ev t n) = tm n"
  "pendingSnapshot (bumped ev t n) = pendingSnapshot n"
  "currentTerm (bumped ev t n) = max t (currentTerm n)"
  "votedFor (bumped ev t n) = (if t > currentTerm n then noVote else votedFor n)"
  "persist (bumped ev t n) = (if t > currentTerm n then snd (saveHardState t noVote (persist n)) else persist n)"
  by (simp_all add: bumped_def)

text \<open>The handler on a request that passes the consistency check, and on any other.\<close>

lemma append_checked:
  assumes "\<not> stopped n" and "currentTerm n \<le> aeTerm req" and "prevMatches req n"
    and "reconcile (nlog n) (Entries req) = (new, c)"
  shows "HandleAppendEntries ev req n =
    (case cutConflict c (hearLeader ev (LeaderId req) (bumped ev (aeTerm req) n)) of
       (Inl _, n2) \<Rightarrow> (reject n2, n2)
     | (Inr _, n2) \<Rightarrow>
         (case storeEntries ev new n2 of
            (Inl _, n3) \<Rightarrow> (reject n3, n3)
          | (Inr _, n3) \<Rightarrow> (let n4 = advanceCommit req n3 in ((reject n4)\<lparr>Success := True\<rparr>, n4))))"
  using assms(1-3)
  by (auto simp: HandleAppendEntries_def Let_def [of "bumped ev (aeTerm req) n"]
      Let_def [of "hearLeader _ _ _"] prevMatches_def assms(4) not_less max_absorb1
      simp flip: bumped_def)

lemma append_unchecked:
  assumes "HandleAppendEntries ev req n = (resp, n')"
    and "stopped n \<or> aeTerm req < currentTerm n \<or> \<not> prevMatches req n"
  shows "\<not> Success resp \<and> n' \<in> {n, hearLeader ev (LeaderId req) (bumped ev (aeTerm req) n)} \<and>
    (n' \<noteq> n \<longrightarrow> \<not> stopped n \<and> currentTerm n \<le> aeTerm req)"
  using assms by (auto simp: HandleAppendEntries_def reject_def conflictHint_def Let_def bumped_def
      prevMatches_def prod_eq_iff split: if_splits)

text \<open>What a successful answer means, before any property of the log is assumed.\<close>

lemma append_success:
  assumes "HandleAppendEntries ev req n = (resp, n')" and "Success resp"
  shows "\<not> stopped n" and "\<not> stopped n'" and "currentTerm n \<le> aeTerm req" and "currentTerm n' = aeTerm req"
    and "prevMatches req n" and "nlog n' = merged (nlog n) (Entries req)"
    and "commitIndex n' = newCommit req (commitIndex n)" and "lastApplied n' = lastApplied n"
    and "votedFor n' = votedFor (bumped ev (aeTerm req) n)" and "role n' = Follower"
    and "aerTerm resp = aeTerm req" and "nid n' = nid n" and "peers n' = peers n"
    and "\<exists>m2 m3. cutConflict (snd (reconcile (nlog n) (Entries req)))
        (hearLeader ev (LeaderId req) (bumped ev (aeTerm req) n)) = (Inr (), m2) \<and>
      storeEntries ev (fst (reconcile (nlog n) (Entries req))) m2 = (Inr (), m3) \<and> persist n' = persist m3"
    and "pendingSnapshot n' = pendingSnapshot n"
proof -
  let ?n = "hearLeader ev (LeaderId req) (bumped ev (aeTerm req) n)"
  obtain new c where rec: "reconcile (nlog n) (Entries req) = (new, c)" by fastforce
  have "\<not> (stopped n \<or> aeTerm req < currentTerm n \<or> \<not> prevMatches req n)"
    using append_unchecked [OF assms(1)] assms(2) by blast
  then have ok: "\<not> stopped n" "currentTerm n \<le> aeTerm req" "prevMatches req n" by auto
  then show "\<not> stopped n" "currentTerm n \<le> aeTerm req" "prevMatches req n" by auto
  obtain r2 n2 where n2': "cutConflict c ?n = (r2, n2)" by fastforce
  obtain r3 n3 where n3': "storeEntries ev new n2 = (r3, n3)" by fastforce
  from assms append_checked [OF ok rec, of ev] n2' n3' have "r2 = Inr ()"
    by (cases r2) (auto simp: reject_def)
  then have n2: "cutConflict c ?n = (Inr (), n2)" using n2' by simp
  from assms append_checked [OF ok rec, of ev] n2 n3' have "r3 = Inr ()"
    by (cases r3) (auto simp: reject_def)
  then have n3: "storeEntries ev new n2 = (Inr (), n3)" using n3' by simp
  have n': "n' = advanceCommit req n3" and r: "resp = (reject n')\<lparr>Success := True\<rparr>"
    using assms(1) append_checked [OF ok rec, of ev] n2 n3 by (auto simp: Let_def)
  note f2 = arg_cong [OF conjunct1 [OF cutConflict_ok [OF n2]]]
    and f3 = arg_cong [OF conjunct1 [OF storeEntries_ok [OF n3]]]
  have l: "nlog n3 = merged (nlog n) (Entries req)"
    using f2 [of nlog] f3 [of nlog] by (simp add: merged_def rec split: option.split)
  show t: "currentTerm n' = aeTerm req"
    using f2 [of currentTerm] f3 [of currentTerm] ok(2) by (simp add: n' advanceCommit_def)
  show "\<not> stopped n'" using f2 [of stopped] f3 [of stopped] ok(1) by (simp add: n' advanceCommit_def)
  show "nlog n' = merged (nlog n) (Entries req)" using l by (simp add: n' advanceCommit_def)
  show "commitIndex n' = newCommit req (commitIndex n)"
    using f2 [of commitIndex] f3 [of commitIndex] by (simp add: n' advanceCommit_def newCommit_def)
  show "lastApplied n' = lastApplied n"
    using f2 [of lastApplied] f3 [of lastApplied] by (simp add: n' advanceCommit_def)
  show "votedFor n' = votedFor (bumped ev (aeTerm req) n)"
    using f2 [of votedFor] f3 [of votedFor] by (simp add: n' advanceCommit_def)
  show "role n' = Follower" using f2 [of role] f3 [of role] by (simp add: n' advanceCommit_def)
  show "aerTerm resp = aeTerm req" using t by (simp add: r reject_def)
  show "nid n' = nid n" using f2 [of nid] f3 [of nid] by (simp add: n' advanceCommit_def)
  show "pendingSnapshot n' = pendingSnapshot n"
    using f2 [of pendingSnapshot] f3 [of pendingSnapshot] by (simp add: n' advanceCommit_def)
  show "peers n' = peers n" using f2 [of peers] f3 [of peers] by (simp add: n' advanceCommit_def)
  show "\<exists>m2 m3. cutConflict (snd (reconcile (nlog n) (Entries req))) ?n = (Inr (), m2) \<and>
      storeEntries ev (fst (reconcile (nlog n) (Entries req))) m2 = (Inr (), m3) \<and> persist n' = persist m3"
    using n2 n3 by (auto simp: rec n' advanceCommit_def)
qed

lemma reconcile_subset: "set (fst (reconcile l es)) \<subseteq> set es"
  by (induction es) auto

lemma cutConflict_healthy:
  "p_healthy (persist n) \<Longrightarrow> \<exists>n'. cutConflict c n = (Inr (), n') \<and> p_healthy (persist n')"
  using p_succeedsD [OF p_succeeds_truncateFrom, of "persist n"]
  by (simp add: cutConflict_def split_beta split: option.split)

lemma storeEntries_healthy:
  "p_healthy (persist n) \<Longrightarrow> list_all (codec_ok (pb ev)) es \<Longrightarrow>
   \<exists>n'. storeEntries ev es n = (Inr (), n') \<and> p_healthy (persist n')"
  using p_succeedsD [OF p_succeeds_appendEntries, of "pb ev" es "persist n"]
  by (simp add: storeEntries_def split_beta)

lemma append_healthy:
  assumes "\<not> stopped n" and "currentTerm n \<le> aeTerm req" and "prevMatches req n"
    and h: "p_healthy (persist n)" and ok: "list_all (codec_ok (pb ev)) (Entries req)"
  shows "\<exists>resp n'. HandleAppendEntries ev req n = (resp, n') \<and> Success resp \<and> p_healthy (persist n')"
proof -
  let ?n1 = "hearLeader ev (LeaderId req) (bumped ev (aeTerm req) n)"
  obtain new c where rec: "reconcile (nlog n) (Entries req) = (new, c)" by fastforce
  have ok': "list_all (codec_ok (pb ev)) new"
    using reconcile_subset [of "nlog n" "Entries req"] ok by (auto simp: rec list_all_iff)
  have h1: "p_healthy (persist ?n1)" using h p_succeedsD [OF p_succeeds_saveHardState h] by simp
  from cutConflict_healthy [OF h1]
  obtain n2 where n2: "cutConflict c ?n1 = (Inr (), n2)" "p_healthy (persist n2)" by blast
  from storeEntries_healthy [OF n2(2) ok']
  have "\<exists>n3. storeEntries ev new n2 = (Inr (), n3) \<and> p_healthy (persist n3)" .
  then show ?thesis
    using append_checked [OF assms(1-3) rec, of ev] n2 by (auto simp: Let_def advanceCommit_def)
qed

text \<open>A request with two entries for a node with an empty log.\<close>

definition example_append :: AppendEntriesRequest where
  "example_append = \<lparr>aeTerm = 1, LeaderId = 2, PrevLogIndex = 0, PrevLogTerm = 0,
     Entries = [\<lparr>Index = 1, Term = 1, Data = [7]\<rparr>, \<lparr>Index = 2, Term = 1, Data = [8]\<rparr>], LeaderCommit = 1\<rparr>"

lemma example_append_ok:
  "consecutive (PrevLogIndex example_append + 1) (Entries example_append)"
  "list_all (codec_ok (pb some_env)) (Entries example_append)"
  by (simp_all add: example_append_def some_env_def some_pb_ok)

lemma prevMatches_zero [simp]: "PrevLogIndex req = 0 \<Longrightarrow> PrevLogTerm req = 0 \<Longrightarrow> prevMatches req (fresh_node i ps fs)"
  by (simp add: prevMatches_def log_term_def newRaftLog_def firstIndex_def lastIndex_def sentinel_def)

lemma example_append_succeeds:
  "\<exists>resp n'. HandleAppendEntries some_env example_append (fresh_node 1 [2, 3] []) = (resp, n') \<and> Success resp"
proof -
  have "prevMatches example_append (fresh_node 1 [2, 3] [])" by (simp add: example_append_def)
  from append_healthy [OF _ _ this _ example_append_ok(2)] show ?thesis
    by (fastforce simp: fresh_persist_healthy)
qed

text \<open>
  A successful append makes the follower agree with the leader. Its log stays well-formed,
  keeps everything up to the point the leader checked, and holds every entry of the
  request (above its compaction point) with the leader's term; the commit point never
  moves back, and it moves only within what was just checked.
\<close>

theorem append_entries_agree:
  assumes "HandleAppendEntries ev req n = (resp, n')" and "Success resp"
    and "wf_log (nlog n)" and "consecutive (PrevLogIndex req + 1) (Entries req)"
  shows "wf_log (nlog n') \<and> firstIndex (nlog n') = firstIndex (nlog n) \<and>
    (\<forall>j \<le> PrevLogIndex req. log_entry (nlog n') j = log_entry (nlog n) j) \<and>
    (\<forall>e \<in> set (Entries req). firstIndex (nlog n) < Index e \<longrightarrow> holds (nlog n') e) \<and>
    PrevLogIndex req + length (Entries req) \<le> lastIndex (nlog n') \<and>
    commitIndex n \<le> commitIndex n' \<and>
    (commitIndex n < commitIndex n' \<longrightarrow>
      commitIndex n' \<le> LeaderCommit req \<and> commitIndex n' \<le> PrevLogIndex req + length (Entries req))"
proof -
  note a = append_success [OF assms(1,2)]
  obtain new c where rec: "reconcile (nlog n) (Entries req) = (new, c)" by fastforce
  have p: "PrevLogIndex req \<le> lastIndex (nlog n)" using a(5) by (simp add: prevMatches_def)
  have cons: "consecutive (Suc (PrevLogIndex req)) (Entries req)" using assms(4) by simp
  note m = merged_spec [OF assms(3) cons p rec]
  have "case c of Some i \<Rightarrow> j < i | None \<Rightarrow> j \<le> lastIndex (nlog n)" if "j \<le> PrevLogIndex req" for j
    using m(7) p that by (fastforce split: option.split)
  then have "\<forall>j \<le> PrevLogIndex req. log_entry (nlog n') j = log_entry (nlog n) j"
    using m(5) by (simp add: a(6))
  moreover have "commitIndex n \<le> commitIndex n' \<and> (commitIndex n < commitIndex n' \<longrightarrow>
      commitIndex n' \<le> LeaderCommit req \<and> commitIndex n' \<le> PrevLogIndex req + length (Entries req))"
    by (auto simp: a(7) newCommit_def)
  ultimately show ?thesis using m(1-4) unfolding a(6) by blast
qed

theorem append_entries_agree_witness:
  "\<exists>resp n'. HandleAppendEntries some_env example_append (fresh_node 1 [2, 3] []) = (resp, n') \<and>
    wf_log (nlog n') \<and> holds (nlog n') \<lparr>Index = 2, Term = 1, Data = [8]\<rparr> \<and> commitIndex n' \<le> 1"
proof -
  obtain resp n' where run: "HandleAppendEntries some_env example_append (fresh_node 1 [2, 3] []) = (resp, n')"
    "Success resp" using example_append_succeeds by blast
  from append_entries_agree [OF run _ example_append_ok(1)] run show ?thesis
    by (auto simp: example_append_def)
qed

lemma holds_reconcile:
  assumes "\<forall>e \<in> set es. firstIndex l < Index e \<longrightarrow> holds l e"
  shows "reconcile l es = ([], None)"
  using assms by (induction es) (auto simp: holds_def log_term_def split: if_splits)

text \<open>
  Requests can be repeated and delayed without harm. If the follower already holds the entries
  of a request from the current leader, handling it again succeeds, does not touch the
  log (not even entries beyond those of the request) and writes nothing to disk.
\<close>

theorem repeated_append_is_harmless:
  assumes "\<not> stopped n" and "aeTerm req = currentTerm n" and "prevMatches req n"
    and "\<forall>e \<in> set (Entries req). firstIndex (nlog n) < Index e \<longrightarrow> holds (nlog n) e"
  shows "\<exists>resp n'. HandleAppendEntries ev req n = (resp, n') \<and> Success resp \<and>
    nlog n' = nlog n \<and> persist n' = persist n \<and> commitIndex n' = newCommit req (commitIndex n)"
  using append_checked [OF assms(1) _ assms(3) holds_reconcile [OF assms(4)], of ev] assms(2)
  by (simp add: cutConflict_def storeEntries_def advanceCommit_def newCommit_def bumped_def Let_def)

theorem repeated_append_is_harmless_witness:
  "\<exists>resp n'. HandleAppendEntries some_env (example_append\<lparr>aeTerm := 0, Entries := []\<rparr>) (fresh_node 1 [2, 3] []) =
     (resp, n') \<and> Success resp \<and> persist n' = fresh_persist []"
  using repeated_append_is_harmless [of "fresh_node 1 [2, 3] []" "example_append\<lparr>aeTerm := 0, Entries := []\<rparr>" some_env]
  by (fastforce simp: example_append_def)

end
