(* ===== verification/InSync.thy ===== *)
theory InSync
  imports AppendProofs
begin

text \<open>
  The durable state of a node mirrors its memory: the relation between the two, that every
  handler keeps it on a working disk, and what a restart after a crash recovers.
\<close>

section \<open>Memory and disk\<close>

text \<open>
  \<open>mirrors v n\<close>: the recovered state \<open>v\<close> is what the node has in memory: the term, the vote, and
  above the compaction point the entries. A snapshot on disk may be ahead of the
  compaction point, because a tail of entries is retained. \<open>in_sync b si n\<close>: a crash leaves
  exactly such a state, with the snapshot at \<open>si\<close>, and nothing is waiting to be written.
\<close>

abbreviation rising :: "LogEntry list \<Rightarrow> bool" where
  "rising \<equiv> sorted_wrt (\<lambda>a b. Index a < Index b)"

definition mirrors :: "persistedState \<Rightarrow> Node \<Rightarrow> bool" where
  "mirrors v n \<longleftrightarrow> ps_term v = currentTerm n \<and> ps_votedFor v = votedFor n \<and> rising (ps_entries v) \<and>
     (\<forall>e \<in> set (ps_entries v). 0 < Index e) \<and>
     filter (\<lambda>e. firstIndex (nlog n) < Index e) (ps_entries v) = allEntries (nlog n) \<and>
     firstIndex (nlog n) \<le> ps_snapIndex v \<and> ps_snapIndex v \<le> commitIndex n \<and>
     log_term (nlog n) (ps_snapIndex v) = (ps_snapTerm v, True)"

definition in_sync :: "pbcodec \<Rightarrow> nat \<Rightarrow> Node \<Rightarrow> bool" where
  "in_sync b si n \<longleftrightarrow> (\<exists>v. recovers b {v} {v} (persist n) \<and> mirrors v n \<and> ps_snapIndex v = si)"

lemma popFrom_rising: "rising es \<Longrightarrow> popFrom i es = filter (\<lambda>e. Index e < i) es"
proof (induction es rule: rev_induct)
  case (snoc e es)
  then have "filter (\<lambda>e. Index e < i) es = es" if "Index e < i"
    using that by (auto simp: sorted_wrt_append intro!: filter_True)
  with snoc show ?case by (auto simp: popFrom_def sorted_wrt_append)
qed (simp add: popFrom_def)

lemma dropWhile_rising: "rising es \<Longrightarrow> dropWhile (\<lambda>e. Index e \<le> i) es = filter (\<lambda>e. i < Index e) es"
  by (induction es) (auto intro!: filter_True [symmetric])

lemma consecutive_rising: "consecutive i es \<Longrightarrow> rising es \<and> (\<forall>e \<in> set es. i \<le> Index e \<and> Index e < i + length es)"
  by (induction es arbitrary: i) (fastforce+)

lemma allEntries_wf:
  assumes "wf_log l"
  shows "consecutive (Suc (firstIndex l)) (allEntries l)" and "lastIndex l = firstIndex l + length (allEntries l)"
  using assms lastIndex_wf [OF assms] by (cases "entries l"; auto simp: wf_log_def allEntries_def)+

lemma allEntries_append: "wf_log l \<Longrightarrow> allEntries (log_append es l) = allEntries l @ es"
  by (cases "entries l") (auto simp: allEntries_def wf_log_def)

lemma allEntries_truncate:
  assumes "wf_log l" and "firstIndex l < i"
  shows "allEntries (log_truncateFrom i l) = filter (\<lambda>e. Index e < i) (allEntries l)"
proof -
  have "take k es = filter (\<lambda>e. Index e < j + k) es" if "consecutive j es" for j k es
    using that
  proof (induction es arbitrary: j k)
    case (Cons e es)
    show ?case
    proof (cases k)
      case 0
      have "filter (\<lambda>e. Index e < j) (e # es) = []"
        using consecutive_rising [OF Cons.prems] by (auto simp: filter_empty_conv)
      with 0 show ?thesis by simp
    next
      case (Suc k')
      with Cons show ?thesis by (auto simp: take_Suc)
    qed
  qed simp
  from this [OF allEntries_wf(1) [OF assms(1)], of "i - firstIndex l - 1"] assms show ?thesis
    by (cases "entries l") (auto simp: allEntries_def take_Cons' Suc_diff_Suc)
qed

section \<open>The single writes\<close>

lemma in_syncE:
  assumes "in_sync b si n"
  obtains v where "recovers b {v} {v} (persist n)" and "mirrors v n" and "ps_snapIndex v = si"
  using assms by (auto simp: in_sync_def)

lemma in_syncI: "recovers b {v} {v} (persist n) \<Longrightarrow> mirrors v n \<Longrightarrow> ps_snapIndex v = si \<Longrightarrow> in_sync b si n"
  by (auto simp: in_sync_def)

text \<open>A node that differs only in fields that are not durable.\<close>

lemma in_sync_cong:
  assumes "in_sync b si n" and "persist n' = persist n" and "currentTerm n' = currentTerm n"
    and "votedFor n' = votedFor n" and "nlog n' = nlog n" and "commitIndex n \<le> commitIndex n'"
  shows "in_sync b si n'"
  using assms by (fastforce simp: in_sync_def mirrors_def)

lemma in_sync_hardState:
  assumes "in_sync b si n" and "saveHardState t u (persist n) = (Inr (), persist n')"
    and "t < 2 ^ 64" and "u < 2 ^ 64" and "currentTerm n' = t" and "votedFor n' = u" and "nlog n' = nlog n"
    and "commitIndex n' = commitIndex n"
  shows "in_sync b si n'"
proof -
  obtain v where v: "recovers b {v} {v} (persist n)" "mirrors v n" "ps_snapIndex v = si" by (rule in_syncE [OF assms(1)])
  show ?thesis
    by (rule in_syncI [OF saveHardState_recovers(1) [OF v(1) assms(3,4,2)]])
       (use v(2,3) assms(5-8) in \<open>simp_all add: mirrors_def\<close>)
qed

lemma in_sync_truncate:
  assumes "in_sync b si n" and "truncateFrom i (persist n) = (Inr (), persist n')" and "i < 2 ^ 64"
    and wf: "wf_log (nlog n)" and i: "firstIndex (nlog n) < i" "i \<le> lastIndex (nlog n)" "commitIndex n < i"
    and eqs: "currentTerm n' = currentTerm n" "votedFor n' = votedFor n"
      "nlog n' = log_truncateFrom i (nlog n)" "commitIndex n' = commitIndex n"
  shows "in_sync b si n'"
proof -
  obtain v where v: "recovers b {v} {v} (persist n)" "mirrors v n" "ps_snapIndex v = si" by (rule in_syncE [OF assms(1)])
  let ?v = "v\<lparr>ps_entries := popFrom i (ps_entries v)\<rparr>"
  have r: "rising (ps_entries v)"
    and f: "allEntries (nlog n) = filter (\<lambda>e. firstIndex (nlog n) < Index e) (ps_entries v)"
    using v(2) by (simp_all add: mirrors_def)
  have "ps_snapIndex v < i" using v(2) i(3) by (simp add: mirrors_def)
  then have "log_term (log_truncateFrom i (nlog n)) (ps_snapIndex v) = log_term (nlog n) (ps_snapIndex v)"
    using log_entry_truncate [OF wf i(1)] i(2) wf_truncate [OF wf] by (simp add: log_term_entry wf)
  moreover have "filter (\<lambda>e. firstIndex (nlog n) < Index e) (popFrom i (ps_entries v)) =
      allEntries (log_truncateFrom i (nlog n))"
    by (simp add: allEntries_truncate [OF wf i(1)] f popFrom_rising [OF r] conj_commute)
  ultimately have "mirrors ?v n'"
    using v(2) wf r by (simp add: mirrors_def eqs popFrom_rising sorted_wrt_filter)
  then show ?thesis using v(3) by (intro in_syncI [OF truncateFrom_recovers(1) [OF v(1) assms(3,2) refl]]) simp_all
qed

lemma in_sync_append:
  assumes "in_sync b si n" and "appendEntries b es (persist n) = (Inr u, persist n')"
    and "list_all (codec_ok b) es" and wf: "wf_log (nlog n)" and cons: "consecutive (lastIndex (nlog n) + 1) es"
    and eqs: "currentTerm n' = currentTerm n" "votedFor n' = votedFor n"
      "nlog n' = log_append es (nlog n)" "commitIndex n' = commitIndex n"
  shows "in_sync b si n'"
proof -
  obtain v where v: "recovers b {v} {v} (persist n)" "mirrors v n" "ps_snapIndex v = si" by (rule in_syncE [OF assms(1)])
  have new: "\<forall>e \<in> set es. lastIndex (nlog n) < Index e" "rising es"
    using consecutive_rising [OF cons] by auto
  have old: "\<forall>e \<in> set (ps_entries v). Index e \<le> lastIndex (nlog n)"
  proof
    fix e assume e: "e \<in> set (ps_entries v)"
    show "Index e \<le> lastIndex (nlog n)"
    proof (cases "firstIndex (nlog n) < Index e")
      case True
      with e have "e \<in> set (filter (\<lambda>e. firstIndex (nlog n) < Index e) (ps_entries v))" by simp
      also have "\<dots> = set (allEntries (nlog n))" using v(2) by (simp add: mirrors_def)
      finally have "e \<in> set (allEntries (nlog n))" .
      with consecutive_rising [OF allEntries_wf(1) [OF wf]] allEntries_wf(2) [OF wf] show ?thesis
        by fastforce
    next
      case False
      then show ?thesis using first_le_last [OF wf] by simp
    qed
  qed
  have "log_term (log_append es (nlog n)) (ps_snapIndex v) = log_term (nlog n) (ps_snapIndex v)"
  proof -
    have "ps_snapIndex v \<le> lastIndex (nlog n)"
      using v(2) by (auto simp: mirrors_def log_term_def split: if_splits)
    then show ?thesis by (simp add: log_term_entry wf wf_append [OF wf cons] log_entry_append [OF wf cons])
  qed
  moreover have "rising (ps_entries v @ es)"
    using v(2) new old by (fastforce simp: mirrors_def sorted_wrt_append)
  moreover have "filter (\<lambda>e. firstIndex (nlog n) < Index e) es = es"
    using new(1) first_le_last [OF wf] by (auto intro!: filter_True)
  moreover have "\<forall>e \<in> set (ps_entries v @ es). 0 < Index e"
    using v(2) new(1) by (auto simp: mirrors_def)
  ultimately have "mirrors (grow v es) n'"
    using v(2) wf by (simp add: mirrors_def eqs grow_def allEntries_append)
  then show ?thesis using v(3) by (intro in_syncI [OF appendEntries_recovers [OF v(1) assms(3,2)]]) simp_all
qed

section \<open>Restart\<close>

lemma filter_consecutive:
  "consecutive j es \<Longrightarrow> j \<le> Suc k \<Longrightarrow> filter (\<lambda>e. k < Index e) es = drop (Suc k - j) es"
proof (induction es arbitrary: j)
  case (Cons e es)
  show ?case
  proof (cases "j = Suc k")
    case True
    with consecutive_rising [OF Cons.prems(1)] show ?thesis by (auto intro!: filter_True)
  next
    case False
    with Cons show ?thesis by (auto simp: Suc_diff_le drop_Cons')
  qed
qed simp

lemma log_entry_all:
  assumes "wf_log l" and "firstIndex l < j"
  shows "log_entry l j = (if j \<le> lastIndex l then Some (allEntries l ! (j - firstIndex l - 1)) else None)"
  using assms by (cases "entries l") (auto simp: log_entry_wf allEntries_def wf_log_def nth_Cons')

text \<open>\<open>restarted n n'\<close>: node \<open>n'\<close> has recovered what \<open>n\<close> had made durable.\<close>

definition restarted :: "Node \<Rightarrow> Node \<Rightarrow> bool" where
  "restarted n n' \<longleftrightarrow> currentTerm n' = currentTerm n \<and> votedFor n' = votedFor n \<and> wf_log (nlog n') \<and>
     firstIndex (nlog n) \<le> firstIndex (nlog n') \<and> firstIndex (nlog n') \<le> commitIndex n \<and>
     lastIndex (nlog n') = lastIndex (nlog n) \<and>
     (\<forall>j > firstIndex (nlog n'). log_entry (nlog n') j = log_entry (nlog n) j) \<and>
     (\<forall>j \<ge> firstIndex (nlog n'). log_term (nlog n') j = log_term (nlog n) j) \<and>
     commitIndex n' = firstIndex (nlog n') \<and> lastApplied n' = firstIndex (nlog n') \<and> role n' = Follower"

lemma restarted_entries:
  assumes "restarted n n'" and "wf_log (nlog n)" and "firstIndex (nlog n) = 0" and "firstIndex (nlog n') = 0"
  shows "allEntries (nlog n') = allEntries (nlog n)"
proof -
  have wf: "wf_log (nlog n')" using assms(1) by (simp add: restarted_def)
  have len: "length (allEntries (nlog n')) = length (allEntries (nlog n))"
    using assms allEntries_wf(2) [OF wf] allEntries_wf(2) [OF assms(2)] by (simp add: restarted_def)
  have "allEntries (nlog n') ! j = allEntries (nlog n) ! j" if "j < length (allEntries (nlog n))" for j
  proof -
    have "log_entry (nlog n') (Suc j) = log_entry (nlog n) (Suc j)" using assms(1,4) by (simp add: restarted_def)
    then show ?thesis
      using that len allEntries_wf(2) [OF wf] allEntries_wf(2) [OF assms(2)] assms(3,4)
      by (simp add: log_entry_all [OF wf] log_entry_all [OF assms(2)])
  qed
  then show ?thesis using len by (intro nth_equalityI) simp_all
qed

lemma nodeOf_simps [simp]:
  "currentTerm (nodeOf ev cfg p st) = ps_term st" "votedFor (nodeOf ev cfg p st) = ps_votedFor st"
  "role (nodeOf ev cfg p st) = Follower" "persist (nodeOf ev cfg p st) = p"
  "nlog (nodeOf ev cfg p st) = log_append (ps_entries st) (newRaftLog (ps_snapIndex st) (ps_snapTerm st))"
  "commitIndex (nodeOf ev cfg p st) = ps_snapIndex st" "lastApplied (nodeOf ev cfg p st) = ps_snapIndex st"
  "nid (nodeOf ev cfg p st) = cfgID cfg" "peers (nodeOf ev cfg p st) = cfgPeers cfg"
  "stopped (nodeOf ev cfg p st) = False" "preVoteRound (nodeOf ev cfg p st) = 0"
  by (simp_all add: nodeOf_def)

lemma restart_mirror:
  assumes wf: "wf_log (nlog n)" and v: "mirrors v n" and n'_def: "n' = nodeOf ev cfg p (dropCompacted v)"
  shows "restarted n n'" and "mirrors v n'"
proof -
  let ?i = "ps_snapIndex v" and ?f = "firstIndex (nlog n)"
  have i: "?f \<le> ?i" "?i \<le> lastIndex (nlog n)" "log_term (nlog n) ?i = (ps_snapTerm v, True)"
    using v by (auto simp: mirrors_def log_term_def split: if_splits)
  define es where "es = filter (\<lambda>e. ?i < Index e) (ps_entries v)"
  have d: "dropCompacted v = v\<lparr>ps_entries := es\<rparr>"
    using v dropWhile_rising [of "ps_entries v" ?i]
    by (auto simp: dropCompacted_def mirrors_def es_def intro!: filter_True [symmetric])
  have all: "allEntries (nlog n) = filter (\<lambda>e. ?f < Index e) (ps_entries v)"
    using v by (simp add: mirrors_def)
  have "(\<lambda>e. ?i < Index e) = (\<lambda>e. ?f < Index e \<and> ?i < Index e)" using i(1) by (auto simp: fun_eq_iff)
  then have "es = filter (\<lambda>e. ?i < Index e) (allEntries (nlog n))"
    unfolding es_def all filter_filter by (rule arg_cong)
  then have es: "es = drop (?i - ?f) (allEntries (nlog n))"
    using filter_consecutive [OF allEntries_wf(1) [OF wf], of ?i] i(1) by simp
  have len: "length es = lastIndex (nlog n) - ?i" using allEntries_wf(2) [OF wf] i(1) by (simp add: es)
  have cons: "consecutive (Suc ?i) es"
    unfolding es using consecutive_drop [OF allEntries_wf(1) [OF wf], of "?i - ?f"] i allEntries_wf(2) [OF wf]
    by simp
  let ?l0 = "newRaftLog ?i (ps_snapTerm v)"
  have c0: "consecutive (lastIndex ?l0 + 1) es" using cons by simp
  have l: "nlog n' = log_append es ?l0" by (simp add: n'_def d)
  have w': "wf_log (nlog n')" and f': "firstIndex (nlog n') = ?i" and la: "lastIndex (nlog n') = lastIndex (nlog n)"
    and al: "allEntries (nlog n') = es"
    using wf_append [OF wf_newRaftLog(1) c0] lastIndex_append [OF wf_newRaftLog(1) c0] len i(2)
    by (simp_all add: l allEntries_append) (simp add: allEntries_def newRaftLog_def)
  have above: "log_entry (nlog n') j = log_entry (nlog n) j" if "?i < j" for j
    using that i(1,2) allEntries_wf(2) [OF wf]
    by (auto simp: log_entry_all [OF w'] log_entry_all [OF wf] f' la al es
        intro!: arg_cong [where f = "(!) (allEntries (nlog n))"])
  have "log_term (nlog n') ?i = (ps_snapTerm v, True)"
    using i(2) la f' by (simp add: log_term_def) (simp add: l newRaftLog_def sentinel_def)
  then have "log_term (nlog n') j = log_term (nlog n) j" if "?i \<le> j" for j
    using that above [of j] i(3) by (cases "j = ?i") (simp_all add: log_term_entry w' wf)
  then show "restarted n n'"
    using v i w' f' la above by (simp add: restarted_def mirrors_def n'_def d)
  show "mirrors v n'"
    using v f' al \<open>log_term (nlog n') ?i = _\<close> by (simp add: mirrors_def n'_def d es_def)
qed

lemma restart_in_sync:
  assumes "in_sync (pb ev) si n" and "wf_log (nlog n)" and "crash (snd (persist n)) w" and "faults w = []"
  obtains n' w' where "NewNode ev cfg w = (Inr n', w')" and "restarted n n'" and "in_sync (pb ev) si n'"
    and "p_healthy (persist n')" and "firstIndex (nlog n') = si" and "nid n' = cfgID cfg"
    and "peers n' = cfgPeers cfg" and "\<not> stopped n'" and "si = 0 \<Longrightarrow> pendingSnapshot n' = None"
proof -
  obtain v where v: "recovers (pb ev) {v} {v} (persist n)" "mirrors v n" "ps_snapIndex v = si"
    by (rule in_syncE [OF assms(1)])
  obtain p0 w0 where p0: "persist n = (p0, w0)" by fastforce
  obtain v' p' w' where "v' \<in> {v}" and "openPersister (pb ev) w = (Inr (p', dropCompacted v'), w')"
    and "recovers (pb ev) {v'} {v'} (p', w')" and h: "p_healthy (p', w')"
    by (rule recovery [OF v(1) [unfolded p0] _ assms(4)]) (use assms(3) p0 in simp_all)
  then have *: "openPersister (pb ev) w = (Inr (p', dropCompacted v), w')" "recovers (pb ev) {v} {v} (p', w')"
    by simp_all
  let ?n = "nodeOf ev cfg (p', w') (dropCompacted v)"
  note m = restart_mirror [OF assms(2) v(2) refl, of ev cfg "(p', w')"]
  have "in_sync (pb ev) si ?n" by (rule in_syncI [OF _ m(2) v(3)]) (simp add: *(2))
  moreover have si: "ps_snapIndex (dropCompacted v) = si" by (simp add: dropCompacted_def v(3))
  ultimately show thesis
    using that [of ?n w'] * m(1) h by (simp add: NewNode_def) (simp add: nodeOf_def)
qed

section \<open>The append handler\<close>

lemma in_sync_bumped:
  assumes "in_sync (pb ev) si n" and "t < 2 ^ 64" and "p_healthy (persist n) \<or> t \<le> currentTerm n"
  shows "in_sync (pb ev) si (hearLeader ev' l (bumped ev t n))"
proof (cases "t \<le> currentTerm n")
  case True
  then show ?thesis by (intro in_sync_cong [OF assms(1)]) simp_all
next
  case False
  then have h: "p_healthy (persist n)" using assms(3) by simp
  have "saveHardState t noVote (persist n) =
      (Inr (), persist (hearLeader ev' l (bumped ev t n)))"
    using p_succeedsD [OF p_succeeds_saveHardState h, of t noVote] False by (simp add: prod_eq_iff)
  then show ?thesis by (rule in_sync_hardState [OF assms(1)]) (use False assms(2) in \<open>simp_all add: noVote_def\<close>)
qed

definition respects_commit :: "AppendEntriesRequest \<Rightarrow> Node \<Rightarrow> bool" where
  "respects_commit req n \<longleftrightarrow>
     (\<forall>e \<in> set (Entries req). firstIndex (nlog n) < Index e \<and> Index e \<le> commitIndex n \<longrightarrow> holds (nlog n) e)"

lemma append_in_sync:
  assumes sync: "in_sync (pb ev) si n" and "p_healthy (persist n) \<or> aeTerm req = currentTerm n"
    and run: "HandleAppendEntries ev req n = (resp, n')" "Success resp"
    and wf: "wf_log (nlog n)" and cons: "consecutive (PrevLogIndex req + 1) (Entries req)"
    and rc: "respects_commit req n"
    and ok: "list_all (codec_ok (pb ev)) (Entries req)" and b: "aeTerm req < 2 ^ 64" "lastIndex (nlog n) < 2 ^ 64"
  shows "in_sync (pb ev) si n'"
proof -
  note a = append_success [OF run]
  let ?n1 = "hearLeader ev (LeaderId req) (bumped ev (aeTerm req) n)"
  obtain new c where rec: "reconcile (nlog n) (Entries req) = (new, c)" by fastforce
  obtain n2 n3 where n2: "cutConflict c ?n1 = (Inr (), n2)" and n3: "storeEntries ev new n2 = (Inr (), n3)"
    and p: "persist n' = persist n3" using a(14) rec by auto
  note f2 = arg_cong [OF conjunct1 [OF cutConflict_ok [OF n2]]]
    and f3 = arg_cong [OF conjunct1 [OF storeEntries_ok [OF n3]]]
  have cons': "consecutive (Suc (PrevLogIndex req)) (Entries req)" using cons by simp
  have pl: "PrevLogIndex req \<le> lastIndex (nlog n)" using a(5) by (simp add: prevMatches_def)
  obtain old where es: "Entries req = old @ new" and sp: "split_at (nlog n) (PrevLogIndex req) old new c"
    using reconcile_split [OF wf cons' pl rec] by blast
  have conew: "consecutive (Suc (PrevLogIndex req + length old)) new" using cons' by (simp add: es)
  have s1: "in_sync (pb ev) si ?n1"
    by (rule in_sync_bumped [OF sync b(1)]) (use assms(2) a(3) in auto)
  have s2: "in_sync (pb ev) si n2 \<and> wf_log (nlog n2) \<and>
    (new = [] \<or> lastIndex (nlog n2) = PrevLogIndex req + length old)"
  proof (cases c)
    case None
    with n2 have "n2 = ?n1" by (simp add: cutConflict_def)
    with s1 wf sp None show ?thesis by (auto simp: split_at_def)
  next
    case (Some i)
    then have i: "i = Suc (PrevLogIndex req + length old)" "firstIndex (nlog n) < i" "i \<le> lastIndex (nlog n)"
      and cf: "new \<noteq> []" "Index (hd new) = i" "fst (log_term (nlog n) i) \<noteq> Term (hd new)"
      using sp by (auto simp: split_at_def)
    have "\<not> holds (nlog n) (hd new)" using cf by (auto simp: holds_def)
    then have "commitIndex n < i"
      using rc cf i(2) unfolding respects_commit_def es by (auto simp: not_le)
    moreover have "truncateFrom i (persist ?n1) = (Inr (), persist n2)"
      using cutConflict_ok [OF n2] Some by simp
    ultimately have "in_sync (pb ev) si n2"
      by (intro in_sync_truncate [OF s1])
         (use i b(2) wf f2 [of currentTerm] f2 [of votedFor] f2 [of nlog] f2 [of commitIndex] Some in simp_all)
    moreover have "wf_log (nlog n2)" "lastIndex (nlog n2) = PrevLogIndex req + length old"
      using f2 [of nlog] Some wf_truncate [OF wf] lastIndex_truncate [OF wf i(2)] i by simp_all
    ultimately show ?thesis by simp
  qed
  have s3: "in_sync (pb ev) si n3"
  proof (cases "new = []")
    case True
    with n3 s2 show ?thesis by (simp add: storeEntries_def)
  next
    case False
    with storeEntries_ok [OF n3] have "appendEntries (pb ev) new (persist n2) = (Inr (), persist n3)" by simp
    then show ?thesis
      by (rule in_sync_append [OF conjunct1 [OF s2]])
         (use False s2 conew ok es f3 [of currentTerm] f3 [of votedFor] f3 [of nlog] f3 [of commitIndex]
           in simp_all)
  qed
  have "nlog n' = nlog n3" using f2 [of nlog] f3 [of nlog] a(6) by (simp add: merged_def rec split: option.split)
  moreover have "currentTerm n' = currentTerm n3" "votedFor n' = votedFor n3" "commitIndex n3 = commitIndex n"
    using f2 [of currentTerm] f3 [of currentTerm] f2 [of votedFor] f3 [of votedFor]
      f2 [of commitIndex] f3 [of commitIndex] a(3,4,9) by simp_all
  moreover have "commitIndex n \<le> commitIndex n'" by (simp add: a(7) newCommit_def)
  ultimately show ?thesis using in_sync_cong [OF s3 p] by simp
qed


lemma fresh_in_sync: "in_sync (pb some_env) 0 (fresh_node i ps fs)"
  by (rule in_syncI [where v = emptyState], simp add: fresh_persist_recovers)
     (simp_all add: mirrors_def emptyState_def allEntries_def newRaftLog_def log_term_def
        firstIndex_def lastIndex_def sentinel_def)


section \<open>An acknowledgement without a write\<close>

lemma appendEntries_one:
  "Marshal b e = Some r \<Longrightarrow> appendEntries b [e] = bindE (on_wal (Append (entryRecord r))) (\<lambda>_. on_wal Sync)"
  by (auto simp: appendEntries_def bindE_def fun_eq_iff split: prod.split sum.split)

text \<open>
  C29. A failed write is acknowledged on the retry. If the fsync of a new entry fails, the handler
  reports a failure but keeps the entry in memory. The leader repeats the request; the
  entry is now taken as already held, so the handler writes nothing and answers with
  success. A crash can then lose the entry: the restarted node is as before both requests.
\<close>

theorem retry_acknowledges_lost_entry:
  assumes "in_sync (pb ev) si n" and "wf_log (nlog n)" and "\<not> stopped n"
    and "quiet (persist n)" and "faults (snd (persist n)) = [Fine, Fail k]"
    and "aeTerm req = currentTerm n" and "PrevLogIndex req = lastIndex (nlog n)" and "prevMatches req n"
    and "Entries req = [e]" and "Index e = lastIndex (nlog n) + 1"
    and "Marshal (pb ev) e = Some r" and "length r < 4000"
  shows "\<exists>r1 n1 r2 n2 w n3 w3. HandleAppendEntries ev req n = (r1, n1) \<and> \<not> Success r1 \<and>
    HandleAppendEntries ev req n1 = (r2, n2) \<and> Success r2 \<and> persist n2 = persist n1 \<and>
    crash (snd (persist n2)) w \<and> NewNode ev cfg w = (Inr n3, w3) \<and> restarted n n3 \<and>
    lastIndex (nlog n3) < Index e"
proof -
  obtain s' where s': "appendEntries (pb ev) [e] (persist n) = (Inl (PIO SyncErr), s')"
    and lo: "loses (snd (persist n)) (snd s')"
    by (rule put_sync_two_calls [OF assms(4,5), of "entryRecord r"])
       (use assms(12) in \<open>simp_all add: appendEntries_one [OF assms(11)] entryRecord_def\<close>)
  have rec: "reconcile (nlog n) (Entries req) = ([e], None)"
    using first_le_last [OF assms(2)] by (simp add: assms(9,10))
  let ?h = "hearLeader ev (LeaderId req) n"
  let ?n1 = "?h\<lparr>nlog := log_append [e] (nlog n), persist := s'\<rparr>"
  have run1: "HandleAppendEntries ev req n = (reject ?n1, ?n1)"
    using append_checked [OF assms(3) _ assms(8) rec, of ev] assms(6) s'
    by (simp add: cutConflict_def storeEntries_def bumped_def)
  have c: "consecutive (lastIndex (nlog n) + 1) [e]" by (simp add: assms(10))
  note l1 = lastIndex_append [OF assms(2) c] log_entry_append [OF assms(2) c] wf_append [OF assms(2) c]
  have pm: "prevMatches req ?n1"
    using assms(8) l1 assms(2) by (auto simp: prevMatches_def log_term_entry assms(7))
  have "holds (nlog ?n1) e" using l1 by (simp add: holds_entry assms(10))
  then obtain r2 n2 where run2: "HandleAppendEntries ev req ?n1 = (r2, n2)" "Success r2" "persist n2 = s'"
    using repeated_append_is_harmless [of ?n1 req ev] assms(3,6) pm by (auto simp: assms(9))
  obtain w where w: "crash (snd (persist n)) w" "crash (snd s') w" "faults w = []"
    using lo by (auto simp: loses_def)
  obtain n3 w3 where n3: "NewNode ev cfg w = (Inr n3, w3)" "restarted n n3"
    by (rule restart_in_sync [OF assms(1,2) w(1,3)])
  have "lastIndex (nlog n3) < Index e" using n3(2) by (simp add: restarted_def assms(10))
  moreover have "\<not> Success (reject ?n1)" by (simp add: reject_def)
  moreover have "persist n2 = persist ?n1" using run2(3) by simp
  moreover have "crash (snd (persist n2)) w" using run2(3) w(2) by simp
  ultimately show ?thesis using run1 run2(1,2) n3 by blast
qed

theorem retry_acknowledges_lost_entry_witness:
  "\<exists>r1 n1 r2 n2 w n3 w3.
    HandleAppendEntries some_env (example_append\<lparr>aeTerm := 0, Entries := [\<lparr>Index = 1, Term = 0, Data = [7]\<rparr>]\<rparr>)
      (fresh_node 1 [2, 3] [Fine, Fail 0]) = (r1, n1) \<and> \<not> Success r1 \<and>
    HandleAppendEntries some_env (example_append\<lparr>aeTerm := 0, Entries := [\<lparr>Index = 1, Term = 0, Data = [7]\<rparr>]\<rparr>)
      n1 = (r2, n2) \<and> Success r2 \<and>
    crash (snd (persist n2)) w \<and> NewNode some_env (some_cfg 1 [2, 3]) w = (Inr n3, w3) \<and>
    lastIndex (nlog n3) < 1"
proof -
  let ?n = "fresh_node 1 [2, 3] [Fine, Fail 0]" and ?e = "\<lparr>Index = 1, Term = 0, Data = [7]\<rparr>"
  let ?q = "example_append\<lparr>aeTerm := 0, Entries := [?e]\<rparr>"
  have q: "quiet (persist ?n)" "faults (snd (persist ?n)) = [Fine, Fail 0]"
    by (simp_all add: quiet_def fresh_persist_def raft_disk_def)
  have h: "wf_log (nlog ?n)" "\<not> stopped ?n" "aeTerm ?q = currentTerm ?n" "PrevLogIndex ?q = lastIndex (nlog ?n)"
    "prevMatches ?q ?n" "Entries ?q = [?e]" "Index ?e = lastIndex (nlog ?n) + 1"
    by (simp_all add: example_append_def)
  have m: "Marshal (pb some_env) ?e = Some (put_nat 1 @ put_nat 0 @ [7])"
    "length (put_nat 1 @ put_nat 0 @ [7] :: bytes) < 4000"
    by (simp_all add: some_env_def some_pb_def length_put_nat)
  have i: "lastIndex l < Index ?e \<Longrightarrow> lastIndex l < 1" for l by simp
  from retry_acknowledges_lost_entry [OF fresh_in_sync h(1,2) q h(3-7) m, of "some_cfg 1 [2, 3]"] i
  show ?thesis by blast
qed

end
