(* ===== verification/RaftSpec.thy ===== *)
theory RaftSpec
  imports RaftLog "HOL-Library.Sublist"
begin

text \<open>
  The abstract protocol that the nodes implement, and the proof that it is safe: one leader
  per term, committed entries are in the log of every later leader, and no two nodes
  disagree about a committed entry. The state keeps history: every vote with the log the
  voter had, the log of the leader of each term, and what each node acknowledged in each
  term. The theory \<open>Cluster\<close> shows that the nodes of a cluster refine it.
\<close>

section \<open>The protocol\<close>

text \<open>
  A log is the list of its entries from index 1 on. \<open>tlog s t\<close> is the log of the leader of
  term \<open>t\<close>, once there is one; \<open>acked s n t\<close> is up to where node \<open>n\<close> acknowledged it.
\<close>

record spec =
  sterm :: "nat \<Rightarrow> nat"
  svote :: "nat \<Rightarrow> nat"
  slog :: "nat \<Rightarrow> LogEntry list"
  scommit :: "nat \<Rightarrow> nat"
  grants :: "(nat \<times> nat \<times> nat \<times> LogEntry list) set"
  tlog :: "nat \<Rightarrow> LogEntry list option"
  sleader :: "nat \<Rightarrow> nat"
  acked :: "nat \<Rightarrow> nat \<Rightarrow> nat"

definition lastT :: "LogEntry list \<Rightarrow> nat" where
  "lastT l = (if l = [] then 0 else Term (last l))"

definition utd :: "LogEntry list \<Rightarrow> LogEntry list \<Rightarrow> bool" where
  "utd lc g \<longleftrightarrow> lastT g < lastT lc \<or> (lastT g = lastT lc \<and> length g \<le> length lc)"

definition quorum :: "nat set \<Rightarrow> nat set \<Rightarrow> bool" where
  "quorum N Q \<longleftrightarrow> Q \<subseteq> N \<and> card N < 2 * card Q"

text \<open>
  \<open>committed N s T i\<close>: a quorum has acknowledged the log of term \<open>T\<close> up to an entry of that term.
\<close>

definition committed :: "nat set \<Rightarrow> spec \<Rightarrow> nat \<Rightarrow> nat \<Rightarrow> bool" where
  "committed N s T i \<longleftrightarrow> 0 < i \<and>
     (\<exists>L. tlog s T = Some L \<and> i \<le> length L \<and> Term (L ! (i - 1)) = T) \<and>
     (\<exists>Q. quorum N Q \<and> (\<forall>m \<in> Q. i \<le> acked s m T))"

definition ack :: "nat \<Rightarrow> nat \<Rightarrow> nat \<Rightarrow> spec \<Rightarrow> spec" where
  "ack n t i s = s\<lparr>acked := (acked s)(n := (acked s n)(t := max (acked s n t) i))\<rparr>"

definition replaced :: "LogEntry list \<Rightarrow> nat \<Rightarrow> LogEntry list \<Rightarrow> LogEntry list" where
  "replaced L i l = (if take i l = take i L then l else take i L)"

inductive sstep :: "nat set \<Rightarrow> spec \<Rightarrow> spec \<Rightarrow> bool" for N s where
  bump: "sterm s n < t \<Longrightarrow>
    sstep N s (s\<lparr>sterm := (sterm s)(n := t), svote := (svote s)(n := 0)\<rparr>)"
| campaign: "n \<noteq> 0 \<Longrightarrow> t = Suc (sterm s n) \<Longrightarrow>
    sstep N s (s\<lparr>sterm := (sterm s)(n := t), svote := (svote s)(n := n),
      grants := insert (n, t, n, slog s n) (grants s)\<rparr>)"
| grant: "n \<noteq> c \<Longrightarrow> c \<noteq> 0 \<Longrightarrow> svote s n \<in> {0, c} \<Longrightarrow> (c, sterm s n, c, lc) \<in> grants s \<Longrightarrow>
    utd lc (slog s n) \<Longrightarrow>
    sstep N s (s\<lparr>svote := (svote s)(n := c), grants := insert (n, sterm s n, c, slog s n) (grants s)\<rparr>)"
| elect: "t = sterm s c \<Longrightarrow> (c, t, c, slog s c) \<in> grants s \<Longrightarrow> quorum N Q \<Longrightarrow>
    \<forall>n \<in> Q. \<exists>g. (n, t, c, g) \<in> grants s \<Longrightarrow> tlog s t = None \<or> sleader s t \<noteq> c \<Longrightarrow>
    sstep N s (ack c t (length (slog s c))
      (s\<lparr>tlog := (tlog s)(t \<mapsto> slog s c), sleader := (sleader s)(t := c)\<rparr>))"
| propose: "t = sterm s c \<Longrightarrow> tlog s t = Some (slog s c) \<Longrightarrow> sleader s t = c \<Longrightarrow>
    \<forall>e \<in> set es. Term e = t \<Longrightarrow> consecutive (Suc (length (slog s c))) es \<Longrightarrow>
    sstep N s (ack c t (length (slog s c @ es))
      (s\<lparr>tlog := (tlog s)(t \<mapsto> slog s c @ es), slog := (slog s)(c := slog s c @ es)\<rparr>))"
| append: "t = sterm s n \<Longrightarrow> tlog s t = Some L \<Longrightarrow> sleader s t \<noteq> n \<Longrightarrow> p + k \<le> length L \<Longrightarrow>
    p \<le> length (slog s n) \<Longrightarrow> take p (slog s n) = take p L \<Longrightarrow>
    sstep N s (ack n t (p + k) (s\<lparr>slog := (slog s)(n := replaced L (p + k) (slog s n))\<rparr>))"
| learn: "committed N s T j \<Longrightarrow> T \<le> sterm s n \<Longrightarrow> i \<le> j \<Longrightarrow> i \<le> acked s n (sterm s n) \<Longrightarrow>
    scommit s n \<le> i \<Longrightarrow>
    sstep N s (s\<lparr>scommit := (scommit s)(n := i)\<rparr>)"
| restart: "sstep N s (s\<lparr>scommit := (scommit s)(n := 0)\<rparr>)"

definition sinit :: spec where
  "sinit = \<lparr>sterm = (\<lambda>_. 0), svote = (\<lambda>_. 0), slog = (\<lambda>_. []), scommit = (\<lambda>_. 0), grants = {},
     tlog = (\<lambda>_. None), sleader = (\<lambda>_. 0), acked = (\<lambda>_ _. 0)\<rparr>"

inductive sreach :: "nat set \<Rightarrow> spec \<Rightarrow> bool" for N where
  sreach_init: "sreach N sinit"
| sreach_step: "sreach N s \<Longrightarrow> sstep N s s' \<Longrightarrow> sreach N s'"

lemma ack_simps [simp]:
  "sterm (ack n t i s) = sterm s" "svote (ack n t i s) = svote s" "slog (ack n t i s) = slog s"
  "scommit (ack n t i s) = scommit s" "grants (ack n t i s) = grants s" "tlog (ack n t i s) = tlog s"
  "sleader (ack n t i s) = sleader s"
  "acked (ack n t i s) m u = (if m = n \<and> u = t then max (acked s n t) i else acked s m u)"
  by (simp_all add: ack_def)

section \<open>Logs\<close>

text \<open>
  \<open>log_ok lg l\<close>: every entry of \<open>l\<close> was put there by the leader of its term, after what that
  leader had before it. This is the log matching property of Raft.
\<close>

definition log_ok :: "(nat \<Rightarrow> LogEntry list option) \<Rightarrow> LogEntry list \<Rightarrow> bool" where
  "log_ok lg l \<longleftrightarrow> (\<forall>j < length l. \<exists>L. lg (Term (l ! j)) = Some L \<and> j < length L \<and>
     take (Suc j) l = take (Suc j) L)"

lemma log_ok_Nil [simp]: "log_ok lg []"
  by (simp add: log_ok_def)

lemma log_ok_take: "log_ok lg l \<Longrightarrow> log_ok lg (take k l)"
  by (auto simp: log_ok_def min_def)

lemma log_matching:
  assumes "log_ok lg l" and "log_ok lg l'" and "j < length l" and "j < length l'"
    and "Term (l ! j) = Term (l' ! j)"
  shows "take (Suc j) l = take (Suc j) l'"
  using assms by (fastforce simp: log_ok_def)

text \<open>The leaders' logs only grow, by entries of their own term.\<close>

definition tgrows :: "(nat \<Rightarrow> LogEntry list option) \<Rightarrow> (nat \<Rightarrow> LogEntry list option) \<Rightarrow> bool" where
  "tgrows lg lg' \<longleftrightarrow> (\<forall>t L. lg t = Some L \<longrightarrow> (\<exists>es. lg' t = Some (L @ es) \<and> (\<forall>e \<in> set es. Term e = t)))"

lemma tgrows_refl [simp]: "tgrows lg lg"
  by (auto simp: tgrows_def)

lemma tgrowsD:
  assumes "tgrows lg lg'" and "lg t = Some L"
  obtains es where "lg' t = Some (L @ es)" and "\<forall>e \<in> set es. Term e = t"
  using assms unfolding tgrows_def by blast

lemma log_ok_grows:
  assumes "tgrows lg lg'" and "log_ok lg l"
  shows "log_ok lg' l"
  unfolding log_ok_def
proof (intro allI impI)
  fix j assume j: "j < length l"
  then obtain L where L: "lg (Term (l ! j)) = Some L" "j < length L" "take (Suc j) l = take (Suc j) L"
    using assms(2) by (auto simp: log_ok_def)
  from tgrowsD [OF assms(1) L(1)] obtain es where "lg' (Term (l ! j)) = Some (L @ es)" by blast
  with L show "\<exists>L. lg' (Term (l ! j)) = Some L \<and> j < length L \<and> take (Suc j) l = take (Suc j) L"
    by auto
qed

lemma log_ok_sorted:
  assumes "log_ok lg l" and "\<And>t L. lg t = Some L \<Longrightarrow> sorted (map Term L)"
  shows "sorted (map Term l)"
proof (cases l rule: rev_cases)
  case (snoc l' e)
  then have "length l' < length l" by simp
  then obtain L where "lg (Term (l ! length l')) = Some L" "take (Suc (length l')) l = take (Suc (length l')) L"
    using assms(1) unfolding log_ok_def by blast
  moreover from this(1) have "sorted (map Term L)" by (rule assms(2))
  ultimately show ?thesis using snoc by (metis length_append_singleton order_refl sorted_wrt_take take_all take_map)
qed simp

section \<open>The invariant\<close>

text \<open>
  \<open>bad s T i t\<close>: the leader of term \<open>t\<close> does not have the first \<open>i\<close> entries of the leader of term
  \<open>T\<close>. \<open>kept s T i u l\<close>: the log \<open>l\<close> has those entries, unless some leader between \<open>T\<close> and \<open>u\<close> did
  not. The proof shows that no such leader exists once the entries are committed.
\<close>

definition bad :: "spec \<Rightarrow> nat \<Rightarrow> nat \<Rightarrow> nat \<Rightarrow> bool" where
  "bad s T i t \<longleftrightarrow> (\<exists>L L'. tlog s T = Some L \<and> tlog s t = Some L' \<and> \<not> prefix (take i L) L')"

definition kept :: "spec \<Rightarrow> nat \<Rightarrow> nat \<Rightarrow> nat \<Rightarrow> LogEntry list \<Rightarrow> bool" where
  "kept s T i u l \<longleftrightarrow> (\<exists>t. T < t \<and> t < u \<and> bad s T i t) \<or> (\<forall>L. tlog s T = Some L \<longrightarrow> prefix (take i L) l)"

definition log_inv :: "spec \<Rightarrow> bool" where
  "log_inv s \<longleftrightarrow>
     (\<forall>n. log_ok (tlog s) (slog s n) \<and> (\<forall>e \<in> set (slog s n). Term e \<le> sterm s n) \<and> consecutive 1 (slog s n)) \<and>
     (\<forall>t L. tlog s t = Some L \<longrightarrow> 0 < t \<and> log_ok (tlog s) L \<and> sorted (map Term L) \<and> (\<forall>e \<in> set L. Term e \<le> t) \<and>
        consecutive 1 L)"

definition grant_inv :: "spec \<Rightarrow> bool" where
  "grant_inv s \<longleftrightarrow>
     (\<forall>n t c g. (n, t, c, g) \<in> grants s \<longrightarrow> 0 < t \<and> t \<le> sterm s n \<and> (t = sterm s n \<longrightarrow> svote s n = c) \<and> c \<noteq> 0 \<and>
        log_ok (tlog s) g \<and> (\<exists>lc. (c, t, c, lc) \<in> grants s \<and> utd lc g) \<and>
        (n = c \<longrightarrow> (\<forall>e \<in> set g. Term e < t))) \<and>
     (\<forall>n t c g c' g'. (n, t, c, g) \<in> grants s \<longrightarrow> (n, t, c', g') \<in> grants s \<longrightarrow> c = c' \<and> (n = c \<longrightarrow> g = g'))"

definition ack_inv :: "spec \<Rightarrow> bool" where
  "ack_inv s \<longleftrightarrow>
     (\<forall>n T. 0 < acked s n T \<longrightarrow> T \<le> sterm s n \<and> (\<exists>L. tlog s T = Some L \<and> acked s n T \<le> length L)) \<and>
     (\<forall>n T i. i \<le> acked s n T \<longrightarrow> kept s T i (Suc (sterm s n)) (slog s n)) \<and>
     (\<forall>n t c g T i. (n, t, c, g) \<in> grants s \<longrightarrow> T < t \<longrightarrow> i \<le> acked s n T \<longrightarrow> kept s T i (Suc t) g)"

definition elected :: "nat set \<Rightarrow> spec \<Rightarrow> nat \<Rightarrow> LogEntry list \<Rightarrow> bool" where
  "elected N s t L \<longleftrightarrow> (\<exists>Q lc es. quorum N Q \<and> L = lc @ es \<and> (sleader s t, t, sleader s t, lc) \<in> grants s \<and>
     (\<forall>e \<in> set es. Term e = t) \<and>
     (\<forall>n \<in> Q. \<exists>g. (n, t, sleader s t, g) \<in> grants s \<and> utd lc g \<and>
        (\<forall>T i. T < t \<longrightarrow> i \<le> acked s n T \<longrightarrow> kept s T i t g)))"

definition elect_inv :: "nat set \<Rightarrow> spec \<Rightarrow> bool" where
  "elect_inv N s \<longleftrightarrow> (\<forall>t L. tlog s t = Some L \<longrightarrow> elected N s t L)"

definition commit_ok :: "nat set \<Rightarrow> spec \<Rightarrow> nat \<Rightarrow> bool" where
  "commit_ok N s n \<longleftrightarrow> scommit s n = 0 \<or>
     (\<exists>T j L. committed N s T j \<and> T \<le> sterm s n \<and> tlog s T = Some L \<and> scommit s n \<le> j \<and>
        scommit s n \<le> length (slog s n) \<and> take (scommit s n) (slog s n) = take (scommit s n) L)"

definition sinv :: "nat set \<Rightarrow> spec \<Rightarrow> bool" where
  "sinv N s \<longleftrightarrow> log_inv s \<and> grant_inv s \<and> ack_inv s \<and> elect_inv N s \<and> (\<forall>n. commit_ok N s n)"

lemma kept_0 [simp]: "kept s T 0 u l"
  by (simp add: kept_def)

lemma kept_upper: "kept s T i u l \<Longrightarrow> u \<le> u' \<Longrightarrow> kept s T i u' l"
  unfolding kept_def by (meson less_le_trans)

lemma kept_longer: "kept s T i u l \<Longrightarrow> kept s T i u (l @ es)"
  unfolding kept_def by (meson prefix_prefix)

lemma bad_grows:
  assumes "tgrows (tlog s) (tlog s')" and L: "tlog s T = Some L" "i \<le> length L" "\<forall>e \<in> set L. Term e \<le> T"
    and "T < t" and "bad s T i t"
  shows "bad s' T i t"
proof -
  obtain L' where L': "tlog s t = Some L'" "\<not> prefix (take i L) L'" using assms(6) L(1) by (auto simp: bad_def)
  obtain es where es: "tlog s' T = Some (L @ es)" by (rule tgrowsD [OF assms(1) L(1)])
  obtain fs where fs: "tlog s' t = Some (L' @ fs)" "\<forall>e \<in> set fs. Term e = t" by (rule tgrowsD [OF assms(1) L'(1)])
  have "\<not> prefix (take i L) (L' @ fs)"
  proof
    assume "prefix (take i L) (L' @ fs)"
    with L'(2) obtain us where us: "take i L = L' @ us" "prefix us fs" "us \<noteq> []"
      by (metis prefix_append append_Nil2 prefix_order.refl)
    then obtain e where "e \<in> set us" "e \<in> set fs" by (metis last_in_set set_mono_prefix subsetD)
    moreover have "e \<in> set L" using us(1) \<open>e \<in> set us\<close> by (metis in_set_takeD in_set_conv_decomp append.assoc Un_iff set_append)
    ultimately show False using L(3) fs(2) assms(5) by fastforce
  qed
  with es fs(1) L(2) show ?thesis by (auto simp: bad_def)
qed

lemma kept_grows:
  assumes g: "tgrows (tlog s) (tlog s')" and inv: "log_inv s" and k: "kept s T i u l"
    and i: "i = 0 \<or> (\<exists>L. tlog s T = Some L \<and> i \<le> length L)"
  shows "kept s' T i u l"
proof (cases "i = 0")
  case False
  then obtain L where L: "tlog s T = Some L" "i \<le> length L" using i by blast
  have t: "\<forall>e \<in> set L. Term e \<le> T" using inv L(1) by (simp add: log_inv_def)
  obtain es where es: "tlog s' T = Some (L @ es)" by (rule tgrowsD [OF g L(1)])
  from k consider t where "T < t" "t < u" "bad s T i t" | "prefix (take i L) l"
    using L(1) by (auto simp: kept_def)
  then show ?thesis
  proof cases
    case 1
    with bad_grows [OF g L t] show ?thesis by (auto simp: kept_def)
  next
    case 2
    with es L(2) show ?thesis by (auto simp: kept_def)
  qed
qed simp

lemma take_replaced: "i \<le> length L \<Longrightarrow> take i (replaced L i l) = take i L"
  by (simp add: replaced_def)

lemma prefix_replaced: "prefix P l \<Longrightarrow> prefix P L \<Longrightarrow> prefix P (replaced L m l)"
proof -
  assume "prefix P l" "prefix P L"
  then obtain us vs where l: "l = P @ us" and L: "L = P @ vs" by (auto simp: prefix_def)
  show ?thesis
  proof (cases "m \<le> length P")
    case True
    then show ?thesis by (simp add: replaced_def l L)
  next
    case False
    then show ?thesis by (simp add: replaced_def l L)
  qed
qed

lemma quorum_meet:
  assumes "finite N" and "quorum N Q" and "quorum N Q'"
  obtains n where "n \<in> Q" and "n \<in> Q'"
proof -
  have "finite Q" "finite Q'" using assms by (auto simp: quorum_def intro: finite_subset)
  then have "Q \<inter> Q' \<noteq> {}"
    using assms card_Un_disjoint [of Q Q'] card_mono [of N "Q \<union> Q'"] by (auto simp: quorum_def)
  then show thesis using that by blast
qed

section \<open>One leader per term, and what it has\<close>

lemma electedE:
  assumes "elected N s t L"
  obtains Q lc es where "quorum N Q" and "L = lc @ es" and "(sleader s t, t, sleader s t, lc) \<in> grants s"
    and "\<forall>e \<in> set es. Term e = t"
    and "\<forall>n \<in> Q. \<exists>g. (n, t, sleader s t, g) \<in> grants s \<and> utd lc g \<and>
        (\<forall>T i. T < t \<longrightarrow> i \<le> acked s n T \<longrightarrow> kept s T i t g)"
  using assms unfolding elected_def by blast

lemma grantD:
  assumes "grant_inv s" and "(n, t, c, g) \<in> grants s"
  shows "0 < t" and "t \<le> sterm s n" and "t = sterm s n \<Longrightarrow> svote s n = c" and "c \<noteq> 0"
    and "log_ok (tlog s) g" and "\<exists>lc. (c, t, c, lc) \<in> grants s \<and> utd lc g"
    and "n = c \<Longrightarrow> e \<in> set g \<Longrightarrow> Term e < t"
  using assms unfolding grant_inv_def by blast+

lemma vote_unique:
  assumes "grant_inv s" and "(n, t, c, g) \<in> grants s" and "(n, t, c', g') \<in> grants s"
  shows "c = c'" and "n = c \<Longrightarrow> g = g'"
  using assms unfolding grant_inv_def by blast+

lemma single_leader:
  assumes "finite N" and "grant_inv s" and "elect_inv N s" and "tlog s t = Some L"
    and "quorum N Q" and "\<forall>n \<in> Q. \<exists>g. (n, t, c, g) \<in> grants s"
  shows "sleader s t = c"
proof -
  have "elected N s t L" using assms(3,4) by (simp add: elect_inv_def)
  then obtain Q' where Q': "quorum N Q'" "\<forall>n \<in> Q'. \<exists>g. (n, t, sleader s t, g) \<in> grants s"
    by (rule electedE) blast
  obtain n where "n \<in> Q" "n \<in> Q'" by (rule quorum_meet [OF assms(1,5) Q'(1)])
  then show ?thesis using assms(6) Q'(2) vote_unique(1) [OF assms(2)] by blast
qed

lemma lastT_prefix:
  assumes "prefix P g" and "P \<noteq> []" and "sorted (map Term g)"
  shows "lastT P \<le> lastT g"
proof -
  obtain us where g: "g = P @ us" using assms(1) by (auto simp: prefix_def)
  show ?thesis
  proof (cases "us = []")
    case False
    then have "last us \<in> set us" "last P \<in> set P" using assms(2) by auto
    with assms(3) False assms(2) show ?thesis by (auto simp: g lastT_def sorted_append)
  qed (simp add: g)
qed

text \<open>Where a log ends in an entry of term \<open>t\<close>, all of it is from the leader of that term.\<close>

lemma log_ok_last:
  assumes "log_ok lg l" and "l \<noteq> []"
  obtains L where "lg (lastT l) = Some L" and "prefix l L"
proof -
  have "length l - 1 < length l" using assms(2) by simp
  then obtain L where "lg (Term (l ! (length l - 1))) = Some L" "take (Suc (length l - 1)) l = take (Suc (length l - 1)) L"
    using assms(1) unfolding log_ok_def by blast
  with assms(2) that show thesis by (simp add: lastT_def last_conv_nth) (metis take_is_prefix)
qed

lemma candidate_has:
  assumes inv: "log_inv s" and g: "log_ok (tlog s) g" and lc: "log_ok (tlog s) lc" and "utd lc g"
    and L: "tlog s T = Some L" "0 < i" "i \<le> length L" "Term (L ! (i - 1)) = T" and pg: "prefix (take i L) g"
    and between: "\<And>t L'. T < t \<Longrightarrow> t \<le> lastT lc \<Longrightarrow> tlog s t = Some L' \<Longrightarrow> prefix (take i L) L'"
  shows "prefix (take i L) lc"
proof -
  have srt: "sorted (map Term l)" if "log_ok (tlog s) l" for l
    by (rule log_ok_sorted [OF that]) (use inv in \<open>auto simp: log_inv_def\<close>)
  have T: "0 < T" and le: "\<forall>e \<in> set L. Term e \<le> T" using inv L(1) by (auto simp: log_inv_def)
  have "last (take i L) = L ! (i - 1)" using L(2,3) by (subst last_conv_nth) auto
  then have "lastT (take i L) = T" using L(2-4) by (auto simp: lastT_def)
  moreover have "take i L \<noteq> []" using L(2,3) by auto
  ultimately have Tg: "T \<le> lastT g" using lastT_prefix [OF pg _ srt [OF g]] by simp
  then have Tlc: "T \<le> lastT lc" using assms(4) by (auto simp: utd_def)
  then have "lc \<noteq> []" using T by (auto simp: lastT_def)
  with lc obtain M where M: "tlog s (lastT lc) = Some M" "prefix lc M" by (rule log_ok_last)
  show ?thesis
  proof (cases "lastT lc = T")
    case True
    then have "length g \<le> length lc" using assms(4) Tg by (auto simp: utd_def)
    then have "i \<le> length lc" using pg L(3) by (auto dest: prefix_length_le)
    moreover obtain zs where "L = lc @ zs" using M L(1) True by (auto simp: prefix_def)
    ultimately show ?thesis by (simp add: take_is_prefix)
  next
    case False
    then have p: "prefix (take i L) M" using between [OF _ order_refl M(1)] Tlc by simp
    with M(2) have "prefix (take i L) lc \<or> prefix lc (take i L)" by (rule prefix_same_cases [rotated])
    moreover have "\<not> prefix lc (take i L)"
    proof
      assume "prefix lc (take i L)"
      then have "last lc \<in> set L" using \<open>lc \<noteq> []\<close> by (meson in_set_takeD last_in_set set_mono_prefix subsetD)
      then show False using le False Tlc \<open>lc \<noteq> []\<close> by (auto simp: lastT_def)
    qed
    ultimately show ?thesis by simp
  qed
qed

text \<open>Leader completeness: a later leader has everything that was committed.\<close>

lemma leader_completeness:
  assumes fin: "finite N" and inv: "log_inv s" "grant_inv s" "elect_inv N s"
    and c: "committed N s T i" and L: "tlog s T = Some L"
  shows "T < t \<Longrightarrow> tlog s t = Some L' \<Longrightarrow> prefix (take i L) L'"
proof (induction t arbitrary: L' rule: less_induct)
  case (less t)
  obtain Q' where i: "0 < i" "i \<le> length L" "Term (L ! (i - 1)) = T" and Q': "quorum N Q'" "\<forall>m \<in> Q'. i \<le> acked s m T"
    using c L by (auto simp: committed_def)
  have "elected N s t L'" using inv(3) less.prems(2) by (simp add: elect_inv_def)
  then obtain Q lc es where e: "quorum N Q" "L' = lc @ es" "(sleader s t, t, sleader s t, lc) \<in> grants s"
    and v: "\<forall>n \<in> Q. \<exists>g. (n, t, sleader s t, g) \<in> grants s \<and> utd lc g \<and>
        (\<forall>T i. T < t \<longrightarrow> i \<le> acked s n T \<longrightarrow> kept s T i t g)" by (rule electedE)
  obtain n where n: "n \<in> Q" "n \<in> Q'" by (rule quorum_meet [OF fin e(1) Q'(1)])
  then obtain g where g: "(n, t, sleader s t, g) \<in> grants s" "utd lc g" "kept s T i t g"
    using v Q'(2) less.prems(1) by blast
  have no: "\<not> bad s T i u" if "T < u" "u < t" for u
    using less.IH [OF that(2,1)] L by (auto simp: bad_def)
  then have pg: "prefix (take i L) g" using g(3) L by (auto simp: kept_def)
  have "lastT lc < t"
    using grantD(1,7) [OF inv(2) e(3)] by (cases lc rule: rev_cases) (auto simp: lastT_def)
  then have "prefix (take i L) M" if "T < u" "u \<le> lastT lc" "tlog s u = Some M" for u M
    using less.IH [of u M] that by simp
  then have "prefix (take i L) lc"
    by (rule candidate_has [OF inv(1) grantD(5) [OF inv(2) g(1)] grantD(5) [OF inv(2) e(3)] g(2) L i pg])
  then show ?case by (simp add: e(2))
qed

section \<open>The steps keep the invariant\<close>

text \<open>What every step leaves in place.\<close>

definition sgrows :: "spec \<Rightarrow> spec \<Rightarrow> bool" where
  "sgrows s s' \<longleftrightarrow> tgrows (tlog s) (tlog s') \<and> (\<forall>n. sterm s n \<le> sterm s' n) \<and> grants s \<subseteq> grants s' \<and>
     (\<forall>n T. acked s n T \<le> acked s' n T) \<and> (\<forall>n T. T < sterm s n \<longrightarrow> acked s' n T = acked s n T) \<and>
     (\<forall>t. tlog s t \<noteq> None \<longrightarrow> sleader s' t = sleader s t)"

lemma elect_fresh:
  assumes "finite N" and "sinv N s" and "quorum N Q" and "\<forall>n \<in> Q. \<exists>g. (n, t, c, g) \<in> grants s"
    and "tlog s t = None \<or> sleader s t \<noteq> c"
  shows "tlog s t = None"
  using assms single_leader [OF assms(1) _ _ _ assms(3,4)] by (cases "tlog s t") (auto simp: sinv_def)

lemma step_grows:
  assumes "finite N" and "sinv N s" and "sstep N s s'"
  shows "sgrows s s'"
  using assms(3)
proof cases
  case (elect t c Q)
  then show ?thesis using elect_fresh [OF assms(1,2) elect(4,5,6)]
    by (auto simp: sgrows_def tgrows_def)
qed (auto simp: sgrows_def tgrows_def)

lemma committed_grows:
  assumes "sgrows s s'" and "committed N s T i"
  shows "committed N s' T i"
proof -
  obtain L Q where L: "tlog s T = Some L" "i \<le> length L" "Term (L ! (i - 1)) = T" "0 < i"
    and Q: "quorum N Q" "\<forall>m \<in> Q. i \<le> acked s m T"
    using assms(2) unfolding committed_def by blast
  obtain es where "tlog s' T = Some (L @ es)" using assms(1) L(1) by (auto simp: sgrows_def elim: tgrowsD)
  moreover have "Term ((L @ es) ! (i - 1)) = T" using L by (auto simp: nth_append)
  moreover have "\<forall>m \<in> Q. i \<le> acked s' m T" using Q(2) assms(1) unfolding sgrows_def by (meson le_trans)
  ultimately show ?thesis
    unfolding committed_def using L(2,4) Q(1) by (intro conjI exI [of _ "L @ es"] exI [of _ Q]) simp_all
qed

lemma acked_bound:
  "ack_inv s \<Longrightarrow> i \<le> acked s n T \<Longrightarrow> i = 0 \<or> (\<exists>L. tlog s T = Some L \<and> i \<le> length L)"
  unfolding ack_inv_def by (metis bot_nat_0.not_eq_extremum gr0I le_trans le_zero_eq)

lemma elected_grows:
  assumes g: "sgrows s s'" and inv: "log_inv s" "grant_inv s" "ack_inv s" and e: "elected N s t L"
    and t: "tlog s t = Some L" "tlog s' t = Some (L @ fs)" "\<forall>e \<in> set fs. Term e = t"
  shows "elected N s' t (L @ fs)"
proof -
  obtain Q lc es where *: "quorum N Q" "L = lc @ es" "(sleader s t, t, sleader s t, lc) \<in> grants s"
    "\<forall>e \<in> set es. Term e = t"
    and v: "\<forall>n \<in> Q. \<exists>g. (n, t, sleader s t, g) \<in> grants s \<and> utd lc g \<and>
        (\<forall>T i. T < t \<longrightarrow> i \<le> acked s n T \<longrightarrow> kept s T i t g)" by (rule electedE [OF e])
  have sl: "sleader s' t = sleader s t" and gr: "grants s \<subseteq> grants s'" and tg: "tgrows (tlog s) (tlog s')" using g t(1) by (auto simp: sgrows_def)
  have "\<exists>g. (n, t, sleader s' t, g) \<in> grants s' \<and> utd lc g \<and>
      (\<forall>T i. T < t \<longrightarrow> i \<le> acked s' n T \<longrightarrow> kept s' T i t g)" if n: "n \<in> Q" for n
  proof -
    obtain x where x: "(n, t, sleader s t, x) \<in> grants s" "utd lc x"
      "\<forall>T i. T < t \<longrightarrow> i \<le> acked s n T \<longrightarrow> kept s T i t x" using v n by blast
    have "kept s' T i t x" if "T < t" "i \<le> acked s' n T" for T i
    proof -
      have "acked s' n T = acked s n T" using g grantD(2) [OF inv(2) x(1)] that(1) by (auto simp: sgrows_def)
      then have i: "i \<le> acked s n T" using that(2) by simp
      with x(3) that(1) have "kept s T i t x" by simp
      then show ?thesis by (rule kept_grows [OF tg inv(1) _ acked_bound [OF inv(3) i]])
    qed
    with x gr sl show ?thesis by auto
  qed
  with * gr sl t(3) show ?thesis
    unfolding elected_def by (intro exI [of _ Q] exI [of _ lc] exI [of _ "es @ fs"]) auto
qed

lemma log_ok_extend:
  assumes "tgrows lg lg'" and "log_ok lg L" and "lg' t = Some (L @ es)" and "\<forall>e \<in> set es. Term e = t"
  shows "log_ok lg' (L @ es)"
  unfolding log_ok_def
proof (intro allI impI)
  fix j assume j: "j < length (L @ es)"
  show "\<exists>M. lg' (Term ((L @ es) ! j)) = Some M \<and> j < length M \<and> take (Suc j) (L @ es) = take (Suc j) M"
  proof (cases "j < length L")
    case True
    with log_ok_grows [OF assms(1,2)] show ?thesis by (auto simp: log_ok_def nth_append)
  next
    case False
    then have "Term ((L @ es) ! j) = t" using j assms(4) by (simp add: nth_append)
    with assms(3) j show ?thesis by auto
  qed
qed

lemma log_invD:
  assumes "log_inv s"
  shows "log_ok (tlog s) (slog s n)" and "e \<in> set (slog s n) \<Longrightarrow> Term e \<le> sterm s n"
    and "tlog s t = Some L \<Longrightarrow> 0 < t" and "tlog s t = Some L \<Longrightarrow> log_ok (tlog s) L"
    and "tlog s t = Some L \<Longrightarrow> sorted (map Term L)" and "tlog s t = Some L \<Longrightarrow> e \<in> set L \<Longrightarrow> Term e \<le> t"
    and "consecutive 1 (slog s n)" and "tlog s t = Some L \<Longrightarrow> consecutive 1 L"
  using assms by (auto simp: log_inv_def)

lemma log_inv_logs:
  assumes "log_inv s" and "tlog s' = tlog s"
    and "\<And>n. log_ok (tlog s) (slog s' n) \<and> (\<forall>e \<in> set (slog s' n). Term e \<le> sterm s' n) \<and> consecutive 1 (slog s' n)"
  shows "log_inv s'"
  using assms by (simp add: log_inv_def)

lemma log_inv_same:
  assumes "log_inv s" and "tlog s' = tlog s" and "slog s' = slog s" and "\<forall>n. sterm s n \<le> sterm s' n"
  shows "log_inv s'"
  using assms unfolding log_inv_def by (metis le_trans)

lemma log_inv_leaders:
  assumes inv: "log_inv s" and g: "tgrows (tlog s) (tlog s')" and "tlog s' = (tlog s)(t \<mapsto> L @ es)" "0 < t"
    and L: "log_ok (tlog s) L" "\<forall>e \<in> set L. Term e \<le> t" and es: "\<forall>e \<in> set es. Term e = t"
    and co: "consecutive 1 (L @ es)"
    and t: "sterm s' = sterm s" and n: "\<And>n. slog s' n = slog s n \<or> slog s' n = L @ es \<and> sterm s n = t"
  shows "log_inv s'"
proof -
  have "sorted (map Term L)" by (rule log_ok_sorted [OF L(1)]) (rule log_invD(5) [OF inv])
  moreover have "map Term es = replicate (length es) t" using es by (simp add: map_replicate_const [symmetric])
  ultimately have new: "sorted (map Term (L @ es))" "\<forall>e \<in> set (L @ es). Term e \<le> t"
    using L(2) es by (auto simp: sorted_append)
  have ok: "log_ok (tlog s') (L @ es)" by (rule log_ok_extend [OF g L(1) _ es]) (simp add: assms(3))
  have old: "log_ok (tlog s') l" if "log_ok (tlog s) l" for l by (rule log_ok_grows [OF g that])
  show ?thesis
    unfolding log_inv_def
  proof (intro conjI allI impI)
    fix m show "log_ok (tlog s') (slog s' m)" "\<forall>e \<in> set (slog s' m). Term e \<le> sterm s' m" "consecutive 1 (slog s' m)"
      using n [of m] ok old new(2) co log_invD(1,2,7) [OF inv] by (auto simp: t)
  next
    fix u M assume M: "tlog s' u = Some M"
    then have "u = t \<and> M = L @ es \<or> tlog s u = Some M" using assms(3) by (auto split: if_splits)
    then show "0 < u" "log_ok (tlog s') M" "sorted (map Term M)" "\<forall>e \<in> set M. Term e \<le> u" "consecutive 1 M"
      using ok old new co assms(4) log_invD(3-6,8) [OF inv] by auto
  qed
qed

lemma log_inv_step:
  assumes "finite N" and inv: "sinv N s" and st: "sstep N s s'"
  shows "log_inv s'"
proof -
  have li: "log_inv s" and gi: "grant_inv s" using inv by (auto simp: sinv_def)
  have g: "tgrows (tlog s) (tlog s')" and tm: "\<forall>n. sterm s n \<le> sterm s' n"
    using step_grows [OF assms] by (simp_all add: sgrows_def)
  from st show ?thesis
  proof cases
    case (elect t c Q)
    show ?thesis
      by (rule log_inv_leaders [OF li g, of t "slog s c" "[]"])
         (use elect log_invD(1,2,7) [OF li] grantD(1) [OF gi elect(3)] in auto)
  next
    case (propose t c es)
    show ?thesis
      by (rule log_inv_leaders [OF li g, of t "slog s c" es])
         (use propose log_invD [OF li] in auto)
  next
    case (append t n L p k)
    have "log_ok (tlog s) (replaced L (p + k) (slog s n)) \<and>
        (\<forall>e \<in> set (replaced L (p + k) (slog s n)). Term e \<le> sterm s n) \<and>
        consecutive 1 (replaced L (p + k) (slog s n))"
      using log_invD(1,2,7) [OF li] consecutive_take [OF log_invD(8) [OF li append(3)]] log_ok_take [OF log_invD(4) [OF li append(3)]] log_invD(6) [OF li append(3)] append(2)
      by (auto simp: replaced_def dest: in_set_takeD)
    then show ?thesis
      using log_invD(1,2,7) [OF li] by (intro log_inv_logs [OF li]) (auto simp: append(1))
  qed (rule log_inv_same [OF li _ _ tm]; simp)+
qed

text \<open>A new vote: nobody voted in that term before, or for the same candidate.\<close>

lemma grant_inv_same:
  assumes inv: "grant_inv s" and "grants s' = grants s" and g: "tgrows (tlog s) (tlog s')"
    and "\<And>n t c x. (n, t, c, x) \<in> grants s \<Longrightarrow> t \<le> sterm s' n \<and> (t = sterm s' n \<longrightarrow> svote s' n = c)"
  shows "grant_inv s'"
  using inv log_ok_grows [OF g] assms(4) unfolding grant_inv_def assms(2) by blast

lemma grant_inv_frame:
  assumes "grant_inv s" and "grants s' = grants s" and "sterm s' = sterm s" and "svote s' = svote s"
    and "tgrows (tlog s) (tlog s')"
  shows "grant_inv s'"
  using grantD(2,3) [OF assms(1)] by (intro grant_inv_same [OF assms(1,2,5)]) (auto simp: assms(3,4))

lemma grant_inv_new:
  assumes inv: "grant_inv s" and gr: "grants s' = insert (n, t, c, slog s n) (grants s)" and tl: "tlog s' = tlog s"
    and t: "sterm s' = (sterm s)(n := t)" "sterm s n \<le> t" "0 < t" and v: "svote s' = (svote s)(n := c)" "c \<noteq> 0"
    and ok: "log_ok (tlog s) (slog s n)" and lc: "(c, t, c, lc) \<in> grants s'" "utd lc (slog s n)"
    and own: "n = c \<Longrightarrow> sterm s n < t \<and> (\<forall>e \<in> set (slog s n). Term e < t)"
    and once: "sterm s n < t \<or> svote s n \<in> {0, c}"
  shows "grant_inv s'"
proof -
  have old: "0 < u \<and> u \<le> sterm s' m \<and> (u = sterm s' m \<longrightarrow> svote s' m = d) \<and> d \<noteq> 0 \<and>
      log_ok (tlog s') g \<and> (\<exists>lc. (d, u, d, lc) \<in> grants s' \<and> utd lc g) \<and> (m = d \<longrightarrow> (\<forall>e \<in> set g. Term e < u))"
    if "(m, u, d, g) \<in> grants s" for m u d g
    using grantD [OF inv that] once t v by (auto simp: tl gr)
  have same: "d = c \<and> \<not> n = c" if "(n, t, d, g) \<in> grants s" for d g
    using grantD(2-4) [OF inv that] once own t(2) by auto
  show ?thesis
    unfolding grant_inv_def
  proof (rule conjI; intro allI impI)
    fix m u d g assume "(m, u, d, g) \<in> grants s'"
    then consider "m = n" "u = t" "d = c" "g = slog s n" | "(m, u, d, g) \<in> grants s" by (auto simp: gr)
    then show "0 < u \<and> u \<le> sterm s' m \<and> (u = sterm s' m \<longrightarrow> svote s' m = d) \<and> d \<noteq> 0 \<and>
      log_ok (tlog s') g \<and> (\<exists>lc. (d, u, d, lc) \<in> grants s' \<and> utd lc g) \<and> (m = d \<longrightarrow> (\<forall>e \<in> set g. Term e < u))"
    proof cases
      case 1
      then show ?thesis using t v ok lc own by (auto simp: tl)
    next
      case 2
      then show ?thesis by (rule old)
    qed
  next
    fix m u d g d' g' assume "(m, u, d, g) \<in> grants s'" "(m, u, d', g') \<in> grants s'"
    then show "d = d' \<and> (m = d \<longrightarrow> g = g')"
      using same vote_unique [OF inv] by (auto simp: gr)
  qed
qed

lemma utd_refl [simp]: "utd l l"
  by (simp add: utd_def)

lemma grant_inv_step:
  assumes "finite N" and inv: "sinv N s" and st: "sstep N s s'"
  shows "grant_inv s'"
proof -
  have li: "log_inv s" and gi: "grant_inv s" using inv by (auto simp: sinv_def)
  have g: "tgrows (tlog s) (tlog s')" using step_grows [OF assms] by (simp add: sgrows_def)
  from st show ?thesis
  proof cases
    case (campaign n t)
    show ?thesis
      by (rule grant_inv_new [OF gi, of s' n t n "slog s n"])
         (use campaign log_invD(1,2) [OF li] in \<open>auto simp: less_Suc_eq_le\<close>)
  next
    case (grant n c lc)
    show ?thesis
      by (rule grant_inv_new [OF gi, of s' n "sterm s n" c lc])
         (use grant log_invD(1) [OF li] grantD(1) [OF gi grant(5)] in auto)
  next
    case (bump n t)
    have "u < t" if "(n, u, c, x) \<in> grants s" for u c x
      using grantD(2) [OF gi that] bump(2) by simp
    then show ?thesis
      by (intro grant_inv_same [OF gi _ g]) (use bump grantD(2,3) [OF gi] in \<open>fastforce split: if_splits\<close>)+
  qed (rule grant_inv_frame [OF gi _ _ _ g]; simp)+
qed

lemma ackD:
  assumes "ack_inv s"
  shows "0 < acked s n T \<Longrightarrow> T \<le> sterm s n" and "0 < acked s n T \<Longrightarrow> \<exists>L. tlog s T = Some L \<and> acked s n T \<le> length L"
    and "i \<le> acked s n T \<Longrightarrow> kept s T i (Suc (sterm s n)) (slog s n)"
    and "(n, t, c, g) \<in> grants s \<Longrightarrow> T < t \<Longrightarrow> i \<le> acked s n T \<Longrightarrow> kept s T i (Suc t) g"
  using assms unfolding ack_inv_def by blast+

lemma kept_step:
  assumes "sgrows s s'" and "log_inv s" and "ack_inv s" and "i \<le> acked s n T" and "kept s T i u l" and "u \<le> u'"
  shows "kept s' T i u' l"
  using kept_upper [OF kept_grows [OF _ assms(2,5) acked_bound [OF assms(3,4)]] assms(6)] assms(1)
  by (simp add: sgrows_def)

lemma ack_inv_new:
  assumes g: "sgrows s s'" and inv: "log_inv s" "grant_inv s" "ack_inv s"
    and new: "\<And>n T. acked s' n T = acked s n T \<or> T \<le> sterm s' n \<and> (\<exists>L. tlog s' T = Some L \<and> acked s' n T \<le> length L)"
    and logs: "\<And>n T i. i \<le> acked s' n T \<Longrightarrow> kept s' T i (Suc (sterm s' n)) (slog s' n)"
    and votes: "\<And>n t c x. (n, t, c, x) \<in> grants s' \<Longrightarrow> (n, t, c, x) \<in> grants s \<or> x = slog s n \<and> sterm s n \<le> t \<and> acked s' = acked s"
  shows "ack_inv s'"
  unfolding ack_inv_def
proof (intro conjI allI impI)
  fix n T assume a: "0 < acked s' n T"
  have mono: "sterm s n \<le> sterm s' n" and tg: "tgrows (tlog s) (tlog s')" using g by (auto simp: sgrows_def)
  have "T \<le> sterm s' n \<and> (\<exists>L. tlog s' T = Some L \<and> acked s' n T \<le> length L)"
  proof (cases "acked s' n T = acked s n T")
    case True
    with a obtain L where L: "tlog s T = Some L" "acked s n T \<le> length L" "T \<le> sterm s n"
      using ackD(1,2) [OF inv(3)] by metis
    obtain es where "tlog s' T = Some (L @ es)" by (rule tgrowsD [OF tg L(1)])
    with True L mono show ?thesis by auto
  qed (use new in blast)
  then show "T \<le> sterm s' n" "\<exists>L. tlog s' T = Some L \<and> acked s' n T \<le> length L" by auto
next
  fix n T i assume "i \<le> acked s' n T"
  then show "kept s' T i (Suc (sterm s' n)) (slog s' n)" by (rule logs)
next
  fix n t c x T i
  assume gr: "(n, t, c, x) \<in> grants s'" and T: "T < t" and i: "i \<le> acked s' n T"
  from votes [OF gr] show "kept s' T i (Suc t) x"
  proof
    assume old: "(n, t, c, x) \<in> grants s"
    have "acked s' n T = acked s n T" using g grantD(2) [OF inv(2) old] T by (auto simp: sgrows_def)
    with i have i: "i \<le> acked s n T" by simp
    show ?thesis by (rule kept_step [OF g inv(1,3) i ackD(4) [OF inv(3) old T i] order_refl])
  next
    assume x: "x = slog s n \<and> sterm s n \<le> t \<and> acked s' = acked s"
    with i have i: "i \<le> acked s n T" by simp
    show ?thesis using kept_step [OF g inv(1,3) i ackD(3) [OF inv(3) i], of "Suc t"] x by simp
  qed
qed

text \<open>The node whose log changes.\<close>

lemma kept_own:
  assumes "tlog s T = Some L" and "i \<le> m" and "m \<le> length L" and "take m l = take m L"
  shows "kept s T i u l"
proof -
  have "take i L = take i l" using arg_cong [OF assms(4), of "take i"] assms(2) by (simp add: min_absorb1)
  then show ?thesis by (simp add: kept_def assms(1) take_is_prefix)
qed

lemma kept_replaced:
  assumes "kept s T i (Suc t) l" and L: "tlog s t = Some L" and "T \<le> t"
  shows "kept s T i (Suc t) (replaced L m l)"
proof (cases "T < t \<and> bad s T i t")
  case True
  then show ?thesis by (auto simp: kept_def)
next
  case False
  with assms(1) consider "\<exists>u. T < u \<and> u < Suc t \<and> bad s T i u" | "\<forall>M. tlog s T = Some M \<longrightarrow> prefix (take i M) l"
    by (auto simp: kept_def)
  then show ?thesis
  proof cases
    case 2
    have "prefix (take i M) (replaced L m l)" if M: "tlog s T = Some M" for M
    proof (rule prefix_replaced)
      show "prefix (take i M) l" using 2 M by simp
      show "prefix (take i M) L"
        using False L M assms(3) by (cases "T = t") (auto simp: bad_def take_is_prefix)
    qed
    then show ?thesis by (simp add: kept_def)
  qed (simp add: kept_def)
qed

lemma ack_inv_step:
  assumes fin: "finite N" and inv: "sinv N s" and st: "sstep N s s'"
  shows "ack_inv s'"
proof -
  have li: "log_inv s" and gi: "grant_inv s" and ai: "ack_inv s" using inv by (auto simp: sinv_def)
  have g: "sgrows s s'" by (rule step_grows [OF assms])
  have old: "kept s' T i (Suc (sterm s' n)) (slog s n)" if i: "i \<le> acked s n T" for n T i
    using kept_step [OF g li ai i ackD(3) [OF ai i], of "Suc (sterm s' n)"] g by (simp add: sgrows_def)
  from st show ?thesis
  proof cases
    case (elect t c Q)
    have none: "acked s c t = 0" using elect_fresh [OF fin inv elect(4-6)] ackD(2) [OF ai, of c t] by fastforce
    have "kept s' t i u (slog s c)" if "i \<le> length (slog s c)" for i u
      by (rule kept_own [of s' t "slog s c" i "length (slog s c)"]) (use elect that in simp_all)
    then show ?thesis
      by (intro ack_inv_new [OF g li gi ai]) (use elect old none in \<open>auto split: if_splits\<close>)
  next
    case (propose t c es)
    have le: "acked s c t \<le> length (slog s c)" using ackD(2) [OF ai, of c t] propose(3) by fastforce
    have own: "kept s' t i u (slog s c @ es)" if "i \<le> length (slog s c @ es)" for i u
      by (rule kept_own [of s' t "slog s c @ es" i "length (slog s c @ es)"]) (use propose that in simp_all)
    have "kept s' T i (Suc (sterm s n)) (slog s' n)" if "i \<le> acked s' n T" for n T i
    proof (cases "n = c")
      case True
      then show ?thesis
        using that own [of i] old [of i c T] kept_longer le propose(1) by (cases "T = t") auto
    qed (use old [of i n T] that propose(1) in auto)
    then show ?thesis
      by (intro ack_inv_new [OF g li gi ai]) (use propose le in auto)
  next
    case (append t n L p k)
    let ?l = "replaced L (p + k) (slog s n)"
    have tl: "tlog s' = tlog s" and tm: "sterm s' = sterm s" using append(1) by simp_all
    have le: "acked s n t \<le> length L" using ackD(2) [OF ai, of n t] append(3) by fastforce
    have own: "kept s' t i u ?l" if "i \<le> p + k" for i u
      by (rule kept_own [of s' t L i "p + k"]) (use append that in \<open>simp_all add: take_replaced\<close>)
    have "kept s' T i (Suc (sterm s m)) (slog s' m)" if i: "i \<le> acked s' m T" for m T i
    proof (cases "m = n")
      case True
      show ?thesis
      proof (cases "T = t \<and> i \<le> p + k")
        case True
        then show ?thesis using own [of i] \<open>m = n\<close> append(1) by auto
      next
        case False
        with i True append(1) have i': "i \<le> acked s n T" by (auto split: if_splits)
        have "T \<le> t \<or> i = 0" using ackD(1) [OF ai, of n T] i' append(2) by fastforce
        then show ?thesis
        proof
          assume "T \<le> t"
          have "kept s' T i (Suc t) (slog s n)" using old [OF i'] append(2) tm by simp
          then show ?thesis
            using kept_replaced [of s' T i t "slog s n" L "p + k"] append \<open>T \<le> t\<close> i' le True by auto
        qed simp
      qed
    qed (use old [of i m T] i append(1) in auto)
    then show ?thesis
      by (intro ack_inv_new [OF g li gi ai]) (use append le tm in auto)
  qed (rule ack_inv_new [OF g li gi ai]; use old in auto)+
qed

lemma elect_inv_step:
  assumes fin: "finite N" and inv: "sinv N s" and st: "sstep N s s'"
  shows "elect_inv N s'"
  unfolding elect_inv_def
proof (intro allI impI)
  fix t L' assume L': "tlog s' t = Some L'"
  have li: "log_inv s" and gi: "grant_inv s" and ai: "ack_inv s" and ei: "elect_inv N s"
    using inv by (auto simp: sinv_def)
  have g: "sgrows s s'" by (rule step_grows [OF assms])
  then have tg: "tgrows (tlog s) (tlog s')" by (simp add: sgrows_def)
  show "elected N s' t L'"
  proof (cases "tlog s t")
    case (Some L)
    obtain es where es: "tlog s' t = Some (L @ es)" "\<forall>e \<in> set es. Term e = t" by (rule tgrowsD [OF tg Some])
    have "elected N s t L" using ei Some by (simp add: elect_inv_def)
    from elected_grows [OF g li gi ai this Some es] show ?thesis using es(1) L' by auto
  next
    case None
    from st L' None obtain c Q where e: "t = sterm s c" "(c, t, c, slog s c) \<in> grants s" "quorum N Q"
      "\<forall>n \<in> Q. \<exists>g. (n, t, c, g) \<in> grants s" "L' = slog s c" "sleader s' t = c" "grants s' = grants s"
      and a: "\<forall>n T. T < t \<longrightarrow> acked s' n T = acked s n T"
      by (cases rule: sstep.cases) (auto split: if_splits)
    have "utd L' x \<and> (\<forall>T i. T < t \<longrightarrow> i \<le> acked s' n T \<longrightarrow> kept s' T i t x)" if x: "(n, t, c, x) \<in> grants s" for n x
    proof (intro conjI allI impI)
      show "utd L' x" using grantD(6) [OF gi x] vote_unique(2) [OF gi e(2)] e(5) by blast
      fix T i assume T: "T < t" and i': "i \<le> acked s' n T"
      then have i: "i \<le> acked s n T" using a by simp
      have "\<not> bad s T i t" using None by (simp add: bad_def)
      with ackD(4) [OF ai x T i] have "kept s T i t x" by (auto simp: kept_def less_Suc_eq)
      then show "kept s' T i t x" by (rule kept_step [OF g li ai i _ order_refl])
    qed
    then have "\<forall>n \<in> Q. \<exists>x. (n, t, sleader s' t, x) \<in> grants s' \<and> utd L' x \<and>
        (\<forall>T i. T < t \<longrightarrow> i \<le> acked s' n T \<longrightarrow> kept s' T i t x)"
      using e(4) unfolding e(6,7) by blast
    moreover have "(sleader s' t, t, sleader s' t, L') \<in> grants s'" using e by simp
    ultimately show ?thesis
      unfolding elected_def using e(3) by (intro exI [of _ Q] exI [of _ L'] exI [of _ "[]"]) simp
  qed
qed

lemma commit_covers:
  assumes "finite N" and "sinv N s" and "committed N s T j" and "tlog s T = Some L" and "T \<le> t" and "tlog s t = Some M"
  shows "prefix (take j L) M"
  using assms leader_completeness [of N s T j L t M] by (cases "T = t") (auto simp: sinv_def take_is_prefix)

lemma commit_prefix:
  assumes "finite N" and "sinv N s" and "tlog s t = Some L" and "sterm s n \<le> t"
  shows "prefix (take (scommit s n) (slog s n)) L" and "scommit s n \<le> length (slog s n)"
proof -
  have "prefix (take (scommit s n) (slog s n)) L \<and> scommit s n \<le> length (slog s n)"
  proof (cases "scommit s n = 0")
    case False
    have "commit_ok N s n" using assms(2) by (simp add: sinv_def)
    with False obtain T j M where M: "committed N s T j" "T \<le> sterm s n" "tlog s T = Some M" "scommit s n \<le> j"
      "scommit s n \<le> length (slog s n)" "take (scommit s n) (slog s n) = take (scommit s n) M"
      by (auto simp: commit_ok_def)
    have "prefix (take j M) L" by (rule commit_covers [OF assms(1,2) M(1,3) _ assms(3)]) (use M(2) assms(4) in simp)
    moreover have "prefix (take (scommit s n) M) (take j M)" using M(4) by (metis min.absorb1 take_is_prefix take_take)
    ultimately show ?thesis using M(5,6) by (metis prefix_order.trans)
  qed simp
  then show "prefix (take (scommit s n) (slog s n)) L" "scommit s n \<le> length (slog s n)" by auto
qed

lemma commit_ok_keep:
  assumes "sgrows s s'" and "commit_ok N s n" and "scommit s' n = scommit s n"
    and "scommit s n \<le> length (slog s n) \<Longrightarrow>
      prefix (take (scommit s n) (slog s n)) (slog s' n)"
  shows "commit_ok N s' n"
proof (cases "scommit s n = 0")
  case False
  then obtain T j L where *: "committed N s T j" "T \<le> sterm s n" "tlog s T = Some L" "scommit s n \<le> j"
    "scommit s n \<le> length (slog s n)" "take (scommit s n) (slog s n) = take (scommit s n) L"
    using assms(2) by (auto simp: commit_ok_def)
  let ?c = "scommit s n"
  have "tgrows (tlog s) (tlog s')" "sterm s n \<le> sterm s' n" using assms(1) by (auto simp: sgrows_def)
  then obtain es where es: "tlog s' T = Some (L @ es)" "T \<le> sterm s' n"
    using *(2,3) by (auto elim: tgrowsD)
  obtain L0 where "tlog s T = Some L0" "j \<le> length L0" using *(1) by (auto simp: committed_def)
  then have "?c \<le> length L" using *(3,4) by simp
  moreover obtain us where "slog s' n = take ?c (slog s n) @ us" using assms(4) [OF *(5)] by (auto simp: prefix_def)
  moreover have "committed N s' T j" by (rule committed_grows [OF assms(1) *(1)])
  ultimately show ?thesis
    unfolding commit_ok_def using es *(4-6) assms(3)
    by (intro disjI2 exI [of _ T] exI [of _ j] exI [of _ "L @ es"]) simp
qed (simp add: commit_ok_def assms(3))

lemma commit_ok_step:
  assumes fin: "finite N" and inv: "sinv N s" and st: "sstep N s s'"
  shows "commit_ok N s' m"
proof -
  have ai: "ack_inv s" and ci: "\<And>n. commit_ok N s n" using inv by (auto simp: sinv_def)
  note keep = commit_ok_keep [OF step_grows [OF assms] ci]
  from st show ?thesis
  proof cases
    case (append t n L p k)
    have "prefix (take (scommit s n) (slog s n)) (replaced L (p + k) (slog s n))"
      by (rule prefix_replaced [OF take_is_prefix commit_prefix(1) [OF fin inv append(3)]]) (simp add: append(2))
    then show ?thesis by (cases "m = n"; intro keep) (simp_all add: append(1) take_is_prefix)
  next
    case (learn T j n i)
    show ?thesis
    proof (cases "m = n \<and> 0 < i")
      case True
      let ?t = "sterm s n"
      obtain M where M: "tlog s T = Some M" "j \<le> length M" using learn(2) by (auto simp: committed_def)
      obtain L where L: "tlog s ?t = Some L" "i \<le> length L"
        using ackD(2) [OF ai, of n ?t] learn(5) True by (meson le_trans less_le_trans)
      have "prefix (take i L) (slog s n)" using ackD(3) [OF ai learn(5)] L(1) by (auto simp: kept_def)
      moreover have "prefix (take j M) L" by (rule commit_covers [OF fin inv learn(2) M(1) learn(3) L(1)])
      ultimately have "take i (slog s n) = take i M" "i \<le> length (slog s n)"
        using learn(4) L(2) M(2) by (auto simp: prefix_def min_absorb1)
      moreover have "committed N s' T j" by (rule committed_grows [OF step_grows [OF assms] learn(2)])
      ultimately show ?thesis
        unfolding commit_ok_def using learn(1,3,4) M(1) True
        by (intro disjI2 exI [of _ T] exI [of _ j] exI [of _ M]) simp
    next
      case False
      then show ?thesis
        by (cases "m = n") (use learn(1) keep [of m] in \<open>auto simp: commit_ok_def take_is_prefix\<close>)
    qed
  next
    case (restart n)
    then show ?thesis by (cases "m = n") (use keep [of m] in \<open>auto simp: commit_ok_def take_is_prefix\<close>)
  qed (rule keep; simp add: take_is_prefix)+
qed

lemma sinv_init: "sinv N sinit"
  by (simp add: sinv_def sinit_def log_inv_def grant_inv_def ack_inv_def elect_inv_def commit_ok_def)

lemma sinv_step: "finite N \<Longrightarrow> sinv N s \<Longrightarrow> sstep N s s' \<Longrightarrow> sinv N s'"
  unfolding sinv_def [of N s']
  by (blast intro: log_inv_step grant_inv_step ack_inv_step elect_inv_step commit_ok_step)

lemma sreach_inv: "sreach N s \<Longrightarrow> finite N \<Longrightarrow> sinv N s"
  by (induction rule: sreach.induct) (auto intro: sinv_init sinv_step)

section \<open>Safety\<close>

lemma committed_comparable:
  assumes "finite N" and "sinv N s" and "committed N s T j" "tlog s T = Some L" and "committed N s T' j'" "tlog s T' = Some L'"
    and "i \<le> j" "i \<le> j'"
  shows "take i L = take i L'"
proof -
  have le: "j \<le> length L" "j' \<le> length L'" using assms(3-6) by (auto simp: committed_def)
  have "T \<le> T' \<or> T' \<le> T" by auto
  then have "prefix (take j L) L' \<or> prefix (take j' L') L" using commit_covers [OF assms(1,2)] assms(3-6) by blast
  then show ?thesis using le assms(7,8) by (auto simp: prefix_def)
qed

text \<open>Nodes agree on what is committed.\<close>

lemma commit_agreement:
  assumes "finite N" and "sinv N s" and "i \<le> scommit s n" and "i \<le> scommit s m"
  shows "take i (slog s n) = take i (slog s m)"
proof (cases "i = 0")
  case False
  obtain T j L where 1: "committed N s T j" "tlog s T = Some L" "scommit s n \<le> j"
    "take (scommit s n) (slog s n) = take (scommit s n) L"
    using assms(2,3) False by (auto simp: sinv_def commit_ok_def dest!: spec [of _ n])
  obtain T' j' L' where 2: "committed N s T' j'" "tlog s T' = Some L'" "scommit s m \<le> j'"
    "take (scommit s m) (slog s m) = take (scommit s m) L'"
    using assms(2,4) False by (auto simp: sinv_def commit_ok_def dest!: spec [of _ m])
  have "take i (slog s n) = take i L" "take i (slog s m) = take i L'"
    using arg_cong [OF 1(4), of "take i"] arg_cong [OF 2(4), of "take i"] assms(3,4) by (simp_all add: min_absorb1)
  then show ?thesis
    using committed_comparable [OF assms(1,2) 1(1,2) 2(1,2), of i] 1(3) 2(3) assms(3,4) by simp
qed simp

end
