(* ===== verification/Cluster.thy ===== *)
theory Cluster
  imports InSync RaftSpec
begin

text \<open>
  A cluster of nodes and a network. Every step runs one function of the node with an
  arbitrary clock and random numbers; messages stay in the network for ever, so they can
  be lost, delayed, repeated and reordered. A node can crash at any point between two
  steps and restart from what its disk kept. Disks do not fail here (what happens when
  they do is in \<open>NodeProofs\<close> and \<open>InSync\<close>), and snapshots are not taken.
\<close>

section \<open>The cluster\<close>

text \<open>
  \<open>running c p\<close>: the polls node \<open>p\<close> has started since its last restart, each with the peers whose
  answer has not been processed. The other fields are what was ever sent: vote requests
  and append requests, and answers together with the request and the node that answered.
\<close>

record cluster =
  nodes :: "nat \<Rightarrow> Node"
  running :: "nat \<Rightarrow> (poll \<times> nat set) list"
  vreqs :: "RequestVoteRequest set"
  vresps :: "(RequestVoteRequest \<times> nat \<times> RequestVoteResponse) set"
  areqs :: "(nat \<times> AppendEntriesRequest) set"
  aresps :: "(nat \<times> AppendEntriesRequest \<times> AppendEntriesResponse) set"

definition set_node :: "nat \<Rightarrow> Node \<Rightarrow> cluster \<Rightarrow> cluster" where
  "set_node p n c = c\<lparr>nodes := (nodes c)(p := n)\<rparr>"

text \<open>A node after a step that may have started a poll.\<close>

definition started :: "nat \<Rightarrow> Node \<times> poll option \<Rightarrow> cluster \<Rightarrow> cluster" where
  "started p r c =
     (case r of
        (n, None) \<Rightarrow> set_node p n c
      | (n, Some q) \<Rightarrow>
          (set_node p n c)\<lparr>running := (running c)(p := running c p @ [(q, set (peers n))]),
             vreqs := insert (pollRequest n q) (vreqs c)\<rparr>)"

definition answered :: "nat \<Rightarrow> nat \<Rightarrow> poll \<times> nat set \<Rightarrow> cluster \<Rightarrow> cluster" where
  "answered p k x c = c\<lparr>running := (running c)(p := (running c p)[k := x])\<rparr>"

inductive cstep :: "nat set \<Rightarrow> (nat \<Rightarrow> Config) \<Rightarrow> pbcodec \<Rightarrow> cluster \<Rightarrow> cluster \<Rightarrow> bool"
  for N cfg b c where
  tick: "p \<in> N \<Longrightarrow> pb ev = b \<Longrightarrow> cstep N cfg b c (started p (electionTick ev (nodes c p)) c)"
| vote: "p \<in> N \<Longrightarrow> pb ev = b \<Longrightarrow> req \<in> vreqs c \<Longrightarrow> CandidateId req \<noteq> p \<Longrightarrow>
    HandleRequestVote ev req (nodes c p) = (resp, n') \<Longrightarrow>
    cstep N cfg b c ((set_node p n' c)\<lparr>vresps := insert (req, p, resp) (vresps c)\<rparr>)"
| counted: "p \<in> N \<Longrightarrow> pb ev = b \<Longrightarrow> k < length (running c p) \<Longrightarrow> running c p ! k = (q, pend) \<Longrightarrow> \<not> pl_pre q \<Longrightarrow>
    r \<in> pend \<Longrightarrow> (pollRequest (nodes c p) q, r, resp) \<in> vresps c \<Longrightarrow>
    onVoteResponse ev q resp (nodes c p) = (n', q') \<Longrightarrow>
    cstep N cfg b c (answered p k (q', pend - {r}) (set_node p n' c))"
| precounted: "p \<in> N \<Longrightarrow> pb ev = b \<Longrightarrow> k < length (running c p) \<Longrightarrow> running c p ! k = (q, pend) \<Longrightarrow> pl_pre q \<Longrightarrow>
    r \<in> pend \<Longrightarrow> (pollRequest (nodes c p) q, r, resp) \<in> vresps c \<Longrightarrow>
    onPreVoteResponse ev q resp (nodes c p) = (n', q', x) \<Longrightarrow>
    cstep N cfg b c (started p (n', x) (answered p k (q', pend - {r}) c))"
| batch: "p \<in> N \<Longrightarrow> pb ev = b \<Longrightarrow> commitPropBatch ev ds (nodes c p) = (res, n') \<Longrightarrow>
    list_all (codec_ok b) (fst (batchEntries (currentTerm (nodes c p)) ds (nlog (nodes c p)))) \<Longrightarrow>
    cstep N cfg b c (set_node p n' c)"
| send: "p \<in> N \<Longrightarrow> r \<in> set (peers (nodes c p)) \<Longrightarrow> prepareAppend r t (nodes c p) = (PassAppend req, n') \<Longrightarrow>
    cstep N cfg b c ((set_node p n' c)\<lparr>areqs := insert (r, req) (areqs c)\<rparr>)"
| heartbeat: "p \<in> N \<Longrightarrow> r \<in> set (peers (nodes c p)) \<Longrightarrow> heartbeatRequest r t (nodes c p) = Some req \<Longrightarrow>
    cstep N cfg b c (c\<lparr>areqs := insert (r, req) (areqs c)\<rparr>)"
| receive: "p \<in> N \<Longrightarrow> pb ev = b \<Longrightarrow> (p, req) \<in> areqs c \<Longrightarrow>
    HandleAppendEntries ev req (nodes c p) = (resp, n') \<Longrightarrow>
    cstep N cfg b c ((set_node p n' c)\<lparr>aresps := insert (p, req, resp) (aresps c)\<rparr>)"
| response: "p \<in> N \<Longrightarrow> pb ev = b \<Longrightarrow> (r, req, resp) \<in> aresps c \<Longrightarrow> LeaderId req = p \<Longrightarrow>
    onAppendResponse ev r (aeTerm req) req resp (nodes c p) = (x, n') \<Longrightarrow>
    cstep N cfg b c (set_node p n' c)"
| pong: "p \<in> N \<Longrightarrow> pb ev = b \<Longrightarrow> (r, req, resp) \<in> aresps c \<Longrightarrow> LeaderId req = p \<Longrightarrow>
    onHeartbeatResponse ev r (aeTerm req) resp (nodes c p) = (x, n') \<Longrightarrow>
    cstep N cfg b c (set_node p n' c)"
| lease: "p \<in> N \<Longrightarrow> pb ev = b \<Longrightarrow> readConfirmed ev t i (nodes c p) = (x, n') \<Longrightarrow>
    cstep N cfg b c (set_node p n' c)"
| deliver: "p \<in> N \<Longrightarrow> applierStep (nodes c p) = Some (msgs, n') \<Longrightarrow> cstep N cfg b c (set_node p n' c)"
| reboot: "p \<in> N \<Longrightarrow> pb ev = b \<Longrightarrow> crash (snd (persist (nodes c p))) w \<Longrightarrow> faults w = [] \<Longrightarrow>
    NewNode ev (cfg p) w = (Inr n', w') \<Longrightarrow>
    cstep N cfg b c ((set_node p n' c)\<lparr>running := (running c)(p := [])\<rparr>)"

text \<open>Terms and indexes are below \<^verbatim>\<open>2^64\<close>, which the disk format needs.\<close>

definition within :: "cluster \<Rightarrow> bool" where
  "within c \<longleftrightarrow> (\<forall>p. currentTerm (nodes c p) < 2 ^ 64 \<and> lastIndex (nlog (nodes c p)) < 2 ^ 64)"

text \<open>The start: nodes fresh from their configuration on empty disks, and an empty network.\<close>

definition members :: "nat set \<Rightarrow> (nat \<Rightarrow> Config) \<Rightarrow> bool" where
  "members N cfg \<longleftrightarrow> finite N \<and> (\<forall>p \<in> N. 0 < p \<and> p < 2 ^ 64 \<and> cfgID (cfg p) = p \<and>
     set (cfgPeers (cfg p)) = N - {p} \<and> distinct (cfgPeers (cfg p)))"

definition cinit :: "(nat \<Rightarrow> Config) \<Rightarrow> pbcodec \<Rightarrow> cluster \<Rightarrow> bool" where
  "cinit cfg b c \<longleftrightarrow>
     (\<exists>ev. pb ev = b \<and> (\<forall>p. nodes c p = nodeOf ev (cfg p) (fresh_persist []) emptyState)) \<and>
     (\<forall>p. running c p = []) \<and> vreqs c = {} \<and> vresps c = {} \<and> areqs c = {} \<and> aresps c = {}"

inductive creach :: "nat set \<Rightarrow> (nat \<Rightarrow> Config) \<Rightarrow> pbcodec \<Rightarrow> cluster \<Rightarrow> bool" for N cfg b where
  creach_init: "cinit cfg b c \<Longrightarrow> creach N cfg b c"
| creach_step: "creach N cfg b c \<Longrightarrow> cstep N cfg b c c' \<Longrightarrow> within c' \<Longrightarrow> creach N cfg b c'"

section \<open>The relation to the protocol\<close>

definition node_ok :: "pbcodec \<Rightarrow> nat set \<Rightarrow> nat \<Rightarrow> Node \<Rightarrow> bool" where
  "node_ok b N p n \<longleftrightarrow> in_sync b 0 n \<and> p_healthy (persist n) \<and> wf_log (nlog n) \<and> firstIndex (nlog n) = 0 \<and>
     Term (entries (nlog n) ! 0) = 0 \<and> \<not> stopped n \<and> nid n = p \<and>
     set (peers n) = N - {p} \<and> distinct (peers n) \<and> lastApplied n \<le> commitIndex n \<and> pendingSnapshot n = None \<and>
     list_all (codec_ok b) (allEntries (nlog n))"

definition sim_node :: "spec \<Rightarrow> nat \<Rightarrow> Node \<Rightarrow> bool" where
  "sim_node s p n \<longleftrightarrow> sterm s p = currentTerm n \<and> svote s p = votedFor n \<and> slog s p = allEntries (nlog n) \<and>
     scommit s p = commitIndex n \<and>
     (role n = Candidate \<longrightarrow> (p, currentTerm n, p, slog s p) \<in> grants s \<and>
        (tlog s (currentTerm n) = None \<or> sleader s (currentTerm n) \<noteq> p)) \<and>
     (role n = Leader \<longrightarrow> tlog s (currentTerm n) = Some (slog s p) \<and> sleader s (currentTerm n) = p \<and>
        length (slog s p) \<le> acked s p (currentTerm n) \<and> (\<forall>r. matchIndex n r \<le> acked s r (currentTerm n)) \<and>
        (\<forall>r \<in> set (peers n). 0 < nextIndex n r))"

text \<open>What the messages and the polls say is a fact of the protocol state.\<close>

definition vreq_ok :: "spec \<Rightarrow> RequestVoteRequest \<Rightarrow> bool" where
  "vreq_ok s req \<longleftrightarrow> (\<not> PreVote req \<longrightarrow>
     (\<exists>lc. (CandidateId req, rvTerm req, CandidateId req, lc) \<in> grants s \<and>
        LastLogIndex req = length lc \<and> LastLogTerm req = lastT lc)) \<and> CandidateId req < 2 ^ 64"

definition vresp_ok :: "spec \<Rightarrow> RequestVoteRequest \<times> nat \<times> RequestVoteResponse \<Rightarrow> bool" where
  "vresp_ok s = (\<lambda>(req, r, resp). \<not> PreVote req \<longrightarrow> VoteGranted resp \<longrightarrow>
     (\<exists>g. (r, rvTerm req, CandidateId req, g) \<in> grants s))"

text \<open>An append request is a piece of the leader's log, or its previous entry does not exist.\<close>

definition areq_ok :: "nat set \<Rightarrow> pbcodec \<Rightarrow> spec \<Rightarrow> nat \<times> AppendEntriesRequest \<Rightarrow> bool" where
  "areq_ok N b s = (\<lambda>(r, req). list_all (codec_ok b) (Entries req) \<and> (\<exists>L. tlog s (aeTerm req) = Some L \<and> sleader s (aeTerm req) \<noteq> r \<and>
     (PrevLogIndex req + length (Entries req) \<le> length L \<and>
        Entries req = take (length (Entries req)) (drop (PrevLogIndex req) L) \<and>
        PrevLogTerm req = lastT (take (PrevLogIndex req) L) \<or>
      0 < PrevLogIndex req \<and> PrevLogTerm req = 0) \<and>
     (LeaderCommit req = 0 \<or> (\<exists>T j. committed N s T j \<and> T \<le> aeTerm req \<and> LeaderCommit req \<le> j))))"

definition aresp_ok :: "spec \<Rightarrow> nat \<times> AppendEntriesRequest \<times> AppendEntriesResponse \<Rightarrow> bool" where
  "aresp_ok s = (\<lambda>(r, req, resp). Success resp \<longrightarrow>
     PrevLogIndex req + length (Entries req) \<le> acked s r (aeTerm req))"

definition poll_ok :: "nat set \<Rightarrow> spec \<Rightarrow> nat \<Rightarrow> poll \<times> nat set \<Rightarrow> bool" where
  "poll_ok N s p = (\<lambda>(q, pend). pend \<subseteq> N - {p} \<and> (\<not> pl_pre q \<longrightarrow>
     (\<exists>G. G \<subseteq> N - {p} - pend \<and> pl_votes q = Suc (card G) \<and> (\<forall>r \<in> G. \<exists>g. (r, pl_term q, p, g) \<in> grants s)) \<and>
     (\<exists>lc. (p, pl_term q, p, lc) \<in> grants s \<and> pl_lastIdx q = length lc \<and> pl_lastTerm q = lastT lc)))"

definition net_ok :: "nat set \<Rightarrow> pbcodec \<Rightarrow> spec \<Rightarrow> cluster \<Rightarrow> bool" where
  "net_ok N b s c \<longleftrightarrow> (\<forall>x \<in> vreqs c. vreq_ok s x) \<and> (\<forall>x \<in> vresps c. vresp_ok s x) \<and>
     (\<forall>x \<in> areqs c. areq_ok N b s x) \<and> (\<forall>x \<in> aresps c. aresp_ok s x) \<and>
     (\<forall>p \<in> N. \<forall>x \<in> set (running c p). poll_ok N s p x)"

definition simulates :: "nat set \<Rightarrow> pbcodec \<Rightarrow> cluster \<Rightarrow> spec \<Rightarrow> bool" where
  "simulates N b c s \<longleftrightarrow> sreach N s \<and> net_ok N b s c \<and>
     (\<forall>p \<in> N. node_ok b N p (nodes c p) \<and> sim_node s p (nodes c p))"

section \<open>Steps of one node\<close>

text \<open>
  \<open>alone p s s'\<close>: only node \<open>p\<close> moved. \<open>psteps\<close> is any number of steps of the protocol by \<open>p\<close>.
\<close>

definition alone :: "nat \<Rightarrow> spec \<Rightarrow> spec \<Rightarrow> bool" where
  "alone p s s' \<longleftrightarrow> sgrows s s' \<and>
     (\<forall>q. q \<noteq> p \<longrightarrow> sterm s' q = sterm s q \<and> svote s' q = svote s q \<and> slog s' q = slog s q \<and> scommit s' q = scommit s q) \<and>
     (\<forall>t. tlog s' t \<noteq> tlog s t \<longrightarrow> sleader s' t = p)"

definition psteps :: "nat set \<Rightarrow> nat \<Rightarrow> spec \<Rightarrow> spec \<Rightarrow> bool" where
  "psteps N p s s' \<longleftrightarrow> sreach N s' \<and> alone p s s'"

lemma sgrows_refl [simp]: "sgrows s s"
  by (simp add: sgrows_def)

lemma tgrows_trans:
  assumes "tgrows a b" and "tgrows b c"
  shows "tgrows a c"
  unfolding tgrows_def
proof (intro allI impI)
  fix t L assume "a t = Some L"
  with assms(1) obtain es where "b t = Some (L @ es)" "\<forall>e \<in> set es. Term e = t" by (rule tgrowsD)
  moreover from assms(2) this(1) obtain fs where "c t = Some ((L @ es) @ fs)" "\<forall>e \<in> set fs. Term e = t" by (rule tgrowsD)
  ultimately show "\<exists>es. c t = Some (L @ es) \<and> (\<forall>e \<in> set es. Term e = t)"
    by (intro exI [of _ "es @ fs"]) auto
qed

lemma tgrows_changed: "tgrows a b \<Longrightarrow> b t = None \<Longrightarrow> a t = None"
  by (cases "a t") (auto elim: tgrowsD)

lemma sgrows_trans:
  assumes a: "sgrows s s'" and b: "sgrows s' s''"
  shows "sgrows s s''"
proof -
  have "acked s'' n T = acked s n T" if "T < sterm s n" for n T
    using a b that unfolding sgrows_def by (metis less_le_trans)
  moreover have "tgrows (tlog s) (tlog s'')" using a b tgrows_trans by (auto simp: sgrows_def)
  moreover have "sleader s'' t = sleader s t" if "tlog s t \<noteq> None" for t
    using a b that tgrows_changed [of "tlog s" "tlog s'" t] unfolding sgrows_def by metis
  ultimately show ?thesis using a b unfolding sgrows_def by (meson le_trans subset_trans)
qed

lemma alone_refl [simp]: "alone p s s"
  by (simp add: alone_def)

lemma alone_trans:
  assumes a: "alone p s s'" and b: "alone p s' s''"
  shows "alone p s s''"
proof -
  have g: "sgrows s s'" "sgrows s' s''" using a b by (auto simp: alone_def)
  have "sleader s'' t = p" if "tlog s'' t \<noteq> tlog s t" for t
  proof (cases "tlog s'' t = tlog s' t")
    case True
    then have ne: "tlog s' t \<noteq> tlog s t" using that by simp
    then have "tlog s' t \<noteq> None" using g(1) tgrows_changed [of "tlog s" "tlog s'" t] unfolding sgrows_def by metis
    with ne a g(2) show ?thesis by (auto simp: alone_def sgrows_def)
  qed (use b in \<open>auto simp: alone_def\<close>)
  with sgrows_trans [OF g] a b show ?thesis by (simp add: alone_def)
qed

lemma psteps_refl: "sreach N s \<Longrightarrow> psteps N p s s"
  by (simp add: psteps_def)

lemma psteps_trans: "psteps N p s s' \<Longrightarrow> psteps N p s' s'' \<Longrightarrow> psteps N p s s''"
  using alone_trans by (auto simp: psteps_def)

lemma pstepsI:
  assumes "finite N" and "sreach N s" and "sstep N s s'"
    and "\<forall>q. q \<noteq> p \<longrightarrow> sterm s' q = sterm s q \<and> svote s' q = svote s q \<and> slog s' q = slog s q \<and> scommit s' q = scommit s q"
    and "\<forall>t. tlog s' t \<noteq> tlog s t \<longrightarrow> sleader s' t = p"
  shows "psteps N p s s'"
  using assms step_grows [OF assms(1) sreach_inv [OF assms(2,1)] assms(3)]
  by (auto simp: psteps_def alone_def intro: sreach_step)

end
