(* ===== verification/ClusterSim.thy ===== *)
theory ClusterSim
  imports Cluster
begin

text \<open>
  The simulation: every step of the cluster is matched by steps of the protocol, function
  by function of the node.
\<close>

section \<open>The relation is stable\<close>

lemma sgrowsD:
  assumes "sgrows s s'"
  shows "tgrows (tlog s) (tlog s')" and "sterm s n \<le> sterm s' n" and "grants s \<subseteq> grants s'"
    and "acked s n T \<le> acked s' n T" and "tlog s t \<noteq> None \<Longrightarrow> sleader s' t = sleader s t"
  using assms by (auto simp: sgrows_def)

lemma aloneD:
  assumes "alone p s s'"
  shows "sgrows s s'" and "q \<noteq> p \<Longrightarrow> sterm s' q = sterm s q" and "q \<noteq> p \<Longrightarrow> svote s' q = svote s q"
    and "q \<noteq> p \<Longrightarrow> slog s' q = slog s q" and "q \<noteq> p \<Longrightarrow> scommit s' q = scommit s q"
    and "tlog s' t \<noteq> tlog s t \<Longrightarrow> sleader s' t = p"
  using assms by (auto simp: alone_def)

lemma sim_other:
  assumes a: "alone p s s'" and q: "q \<noteq> p" and sim: "sim_node s q n"
  shows "sim_node s' q n"
proof -
  note g = sgrowsD [OF aloneD(1) [OF a]]
  have cand: "tlog s' t = None \<or> sleader s' t \<noteq> q" if "tlog s t = None \<or> sleader s t \<noteq> q" for t
    using that aloneD(6) [OF a, of t] g(5) [of t] q by (cases "tlog s' t = tlog s t") auto
  have lead: "tlog s' t = tlog s t \<and> sleader s' t = q" if "tlog s t \<noteq> None" "sleader s t = q" for t
    using that aloneD(6) [OF a, of t] g(5) [of t] q by metis
  have "matchIndex n r \<le> acked s' r t" if "matchIndex n r \<le> acked s r t" for r t
    using that g(4) le_trans by blast
  moreover have "length (slog s q) \<le> acked s' q t" if "length (slog s q) \<le> acked s q t" for t
    using that g(4) le_trans by blast
  ultimately show ?thesis
    using sim cand lead g(3) aloneD(2-5) [OF a q] unfolding sim_node_def by auto
qed

lemma vreq_ok_grows: "sgrows s s' \<Longrightarrow> vreq_ok s x \<Longrightarrow> vreq_ok s' x"
  unfolding vreq_ok_def using sgrowsD(3) by blast

lemma vresp_ok_grows: "sgrows s s' \<Longrightarrow> vresp_ok s x \<Longrightarrow> vresp_ok s' x"
  using sgrowsD(3) by (fastforce simp: vresp_ok_def)

lemma aresp_ok_grows: "sgrows s s' \<Longrightarrow> aresp_ok s x \<Longrightarrow> aresp_ok s' x"
  by (auto simp: aresp_ok_def intro: le_trans [OF _ sgrowsD(4)])

lemma poll_ok_grows: "sgrows s s' \<Longrightarrow> poll_ok N s p x \<Longrightarrow> poll_ok N s' p x"
proof -
  assume g: "sgrows s s'" and "poll_ok N s p x"
  moreover obtain q pend where "x = (q, pend)" by fastforce
  ultimately show ?thesis using sgrowsD(3) [OF g] unfolding poll_ok_def by (simp add: subset_iff) meson
qed

lemma areq_ok_grows:
  assumes g: "sgrows s s'" and "areq_ok N b s x"
  shows "areq_ok N b s' x"
proof -
  obtain r req where x: "x = (r, req)" by fastforce
  let ?p = "PrevLogIndex req" and ?k = "length (Entries req)"
  obtain L where L: "tlog s (aeTerm req) = Some L" "sleader s (aeTerm req) \<noteq> r"
    and piece: "?p + ?k \<le> length L \<and> Entries req = take ?k (drop ?p L) \<and> PrevLogTerm req = lastT (take ?p L) \<or>
      0 < ?p \<and> PrevLogTerm req = 0"
    and lc: "LeaderCommit req = 0 \<or> (\<exists>T j. committed N s T j \<and> T \<le> aeTerm req \<and> LeaderCommit req \<le> j)"
    and c: "list_all (codec_ok b) (Entries req)"
    using assms(2) unfolding x areq_ok_def by blast
  obtain es where "tlog s' (aeTerm req) = Some (L @ es)" by (rule tgrowsD [OF sgrowsD(1) [OF g] L(1)])
  moreover have "sleader s' (aeTerm req) \<noteq> r" using sgrowsD(5) [OF g] L by simp
  moreover have "?p + ?k \<le> length (L @ es) \<and> Entries req = take ?k (drop ?p (L @ es)) \<and>
      PrevLogTerm req = lastT (take ?p (L @ es)) \<or> 0 < ?p \<and> PrevLogTerm req = 0"
    using piece by auto
  moreover have "LeaderCommit req = 0 \<or> (\<exists>T j. committed N s' T j \<and> T \<le> aeTerm req \<and> LeaderCommit req \<le> j)"
    using lc committed_grows [OF g] by blast
  ultimately show ?thesis using c unfolding x areq_ok_def by blast
qed

lemma net_ok_grows:
  assumes "sgrows s s'" and "net_ok N b s c"
  shows "net_ok N b s' c"
  using assms vreq_ok_grows vresp_ok_grows areq_ok_grows aresp_ok_grows poll_ok_grows
  unfolding net_ok_def by meson

section \<open>One node\<close>

text \<open>\<open>impl N b p s s' n'\<close>: node \<open>p\<close> has become \<open>n'\<close> and the protocol has moved to \<open>s'\<close> with it.\<close>

definition impl :: "nat set \<Rightarrow> pbcodec \<Rightarrow> nat \<Rightarrow> spec \<Rightarrow> spec \<Rightarrow> Node \<Rightarrow> bool" where
  "impl N b p s s' n' \<longleftrightarrow> psteps N p s s' \<and> node_ok b N p n' \<and> sim_node s' p n'"

lemma impl_trans: "impl N b p s s' n' \<Longrightarrow> impl N b p s' s'' n'' \<Longrightarrow> impl N b p s s'' n''"
  using psteps_trans by (auto simp: impl_def)

lemma impl_grows: "impl N b p s s' n' \<Longrightarrow> sgrows s s'"
  by (simp add: impl_def psteps_def alone_def)

lemma implD:
  assumes "impl N b p s s' n'"
  shows "sreach N s'" and "node_ok b N p n'" and "sim_node s' p n'"
  using assms by (auto simp: impl_def psteps_def)

lemma simulates_update:
  assumes sim: "simulates N b c s" and i: "impl N b p s s' n'"
    and nodes: "nodes c' = (nodes c)(p := n')" and net: "net_ok N b s' c'"
  shows "simulates N b c' s'"
proof -
  have a: "alone p s s'" using i by (simp add: impl_def psteps_def)
  have "node_ok b N q (nodes c' q) \<and> sim_node s' q (nodes c' q)" if "q \<in> N" for q
    using sim that sim_other [OF a] implD(2,3) [OF i] by (cases "q = p") (auto simp: simulates_def nodes)
  with net implD(1) [OF i] show ?thesis by (simp add: simulates_def)
qed

text \<open>The common case: nothing new is sent.\<close>

lemma simulates_set_node:
  assumes "simulates N b c s" and "impl N b p s s' n'"
  shows "simulates N b (set_node p n' c) s'"
proof (rule simulates_update [OF assms])
  have "net_ok N b s' c" using assms net_ok_grows [OF impl_grows] by (auto simp: simulates_def)
  then show "net_ok N b s' (set_node p n' c)" by (simp add: net_ok_def set_node_def)
qed (simp add: set_node_def)

lemma node_okD:
  assumes "node_ok b N p n"
  shows "in_sync b 0 n" and "p_healthy (persist n)" and "wf_log (nlog n)" and "firstIndex (nlog n) = 0"
    and "Term (entries (nlog n) ! 0) = 0" and "\<not> stopped n" and "nid n = p" and "set (peers n) = N - {p}"
    and "distinct (peers n)" and "lastApplied n \<le> commitIndex n" and "pendingSnapshot n = None"
    and "lastIndex (nlog n) = length (allEntries (nlog n))" and "lastTerm (nlog n) = lastT (allEntries (nlog n))"
    and "consecutive 1 (allEntries (nlog n))" and "list_all (codec_ok b) (allEntries (nlog n))"
proof -
  show *: "in_sync b 0 n" "p_healthy (persist n)" "wf_log (nlog n)" "firstIndex (nlog n) = 0"
    "Term (entries (nlog n) ! 0) = 0" "\<not> stopped n" "nid n = p" "set (peers n) = N - {p}"
    "distinct (peers n)" "lastApplied n \<le> commitIndex n" "pendingSnapshot n = None"
    "list_all (codec_ok b) (allEntries (nlog n))"
    using assms by (simp_all add: node_ok_def)
  show "lastIndex (nlog n) = length (allEntries (nlog n))" "consecutive 1 (allEntries (nlog n))"
    using allEntries_wf [OF *(3)] *(4) by simp_all
  show "lastTerm (nlog n) = lastT (allEntries (nlog n))"
  proof (cases "entries (nlog n)")
    case Nil
    then show ?thesis using *(3) by (simp add: wf_log_def)
  next
    case (Cons e es)
    then show ?thesis using *(5) by (cases es rule: rev_cases) (auto simp: lastTerm_def lastT_def allEntries_def nth_append)
  qed
qed

lemma majority_quorum:
  assumes "node_ok b N p n" and "p \<in> N" and "finite N" and "G \<subseteq> N - {p}" and "majority n \<le> Suc (card G)"
  shows "quorum N (insert p G)"
proof -
  have "finite G" "p \<notin> G" using assms(3,4) finite_subset [of G N] by auto
  moreover have "card N = Suc (length (peers n))"
    using node_okD(8,9) [OF assms(1)] assms(2,3)
    by (metis card_Suc_Diff1 distinct_card)
  ultimately show ?thesis using assms by (auto simp: quorum_def majority_def)
qed

section \<open>Terms and elections\<close>

text \<open>\<open>placed N b p s n\<close>: node \<open>p\<close> of the cluster is \<open>n\<close>, and the protocol is in state \<open>s\<close>.\<close>

definition placed :: "nat set \<Rightarrow> pbcodec \<Rightarrow> nat \<Rightarrow> spec \<Rightarrow> Node \<Rightarrow> bool" where
  "placed N b p s n \<longleftrightarrow> finite N \<and> p \<in> N \<and> 0 < p \<and> p < 2 ^ 64 \<and> sreach N s \<and> node_ok b N p n \<and> sim_node s p n"

lemma placedD:
  assumes "placed N b p s n"
  shows "finite N" and "p \<in> N" and "0 < p" and "p < 2 ^ 64" and "sreach N s" and "node_ok b N p n"
    and "sim_node s p n" and "sinv N s" and "sterm s p = currentTerm n" and "svote s p = votedFor n"
    and "slog s p = allEntries (nlog n)" and "scommit s p = commitIndex n"
  using assms sreach_inv by (auto simp: placed_def sim_node_def)

lemma impl_placed: "placed N b p s n \<Longrightarrow> impl N b p s s' n' \<Longrightarrow> placed N b p s' n'"
  by (simp add: placed_def impl_def psteps_def)

lemma impl_refl: "placed N b p s n \<Longrightarrow> impl N b p s s n"
  by (simp add: placed_def impl_def psteps_refl)

text \<open>A step that touches neither the durable state nor the leader's bookkeeping.\<close>

definition quietly :: "Node \<Rightarrow> Node \<Rightarrow> bool" where
  "quietly n n' \<longleftrightarrow> persist n' = persist n \<and> currentTerm n' = currentTerm n \<and> votedFor n' = votedFor n \<and>
     nlog n' = nlog n \<and> commitIndex n' = commitIndex n \<and> nid n' = nid n \<and> peers n' = peers n \<and>
     stopped n' = stopped n \<and> pendingSnapshot n' = pendingSnapshot n \<and> lastApplied n' \<le> commitIndex n \<and>
     (role n' = Follower \<or> role n' = role n \<and> matchIndex n' = matchIndex n \<and> nextIndex n' = nextIndex n)"

lemma impl_quiet:
  assumes "placed N b p s n" and "quietly n n'"
  shows "impl N b p s s n'"
proof -
  have "in_sync b 0 n'"
    using assms(2) by (intro in_sync_cong [OF node_okD(1) [OF placedD(6) [OF assms(1)]]]) (auto simp: quietly_def)
  then have "node_ok b N p n'" using placedD(6) [OF assms(1)] assms(2) by (simp add: node_ok_def quietly_def)
  moreover have "sim_node s p n'" using placedD(7) [OF assms(1)] assms(2) by (auto simp: sim_node_def quietly_def)
  ultimately show ?thesis using placedD(5) [OF assms(1)] by (simp add: impl_def psteps_refl)
qed

text \<open>Writing a term and a vote.\<close>

lemma node_ok_hardState:
  assumes n: "node_ok b N p n" and sv: "snd (saveHardState t u (persist n)) = persist n'"
    and "t < 2 ^ 64" and "u < 2 ^ 64" and "currentTerm n' = t" and "votedFor n' = u" and "nlog n' = nlog n"
    and "commitIndex n' = commitIndex n" and "lastApplied n' = lastApplied n" and "stopped n' = stopped n"
    and "nid n' = nid n" and "peers n' = peers n" and "pendingSnapshot n' = pendingSnapshot n"
  shows "node_ok b N p n'"
proof -
  note h = p_succeedsD [OF p_succeeds_saveHardState node_okD(2) [OF n], of t u]
  then have "saveHardState t u (persist n) = (Inr (), persist n')" using sv by (simp add: prod_eq_iff)
  from in_sync_hardState [OF node_okD(1) [OF n] this assms(3-8)] have "in_sync b 0 n'" .
  with h n assms show ?thesis by (simp add: node_ok_def)
qed

lemma impl_bump:
  assumes p: "placed N b p s n" and "currentTerm n < t" and "t < 2 ^ 64"
  shows "\<exists>s'. impl N b p s s' (becomeFollowerLocked ev t n) \<and> grants s' = grants s"
proof -
  let ?s = "s\<lparr>sterm := (sterm s)(p := t), svote := (svote s)(p := 0)\<rparr>"
  note d = placedD [OF p]
  have st: "sstep N s ?s" by (rule sstep.bump) (simp add: d(9) assms(2))
  have "psteps N p s ?s" by (rule pstepsI [OF d(1,5) st]) simp_all
  moreover have "node_ok b N p (becomeFollowerLocked ev t n)"
    by (rule node_ok_hardState [OF d(6), of t noVote]) (use assms(3) in \<open>simp_all add: noVote_def\<close>)
  moreover have "sim_node ?s p (becomeFollowerLocked ev t n)"
    using d(7) by (simp add: sim_node_def noVote_def)
  ultimately show ?thesis by (intro exI [of _ ?s]) (simp add: impl_def)
qed

lemma impl_leader:
  assumes p: "placed N b p s n" and "role n = Candidate" and "quorum N Q"
    and votes: "\<forall>r \<in> Q. \<exists>g. (r, currentTerm n, p, g) \<in> grants s"
  shows "\<exists>s'. impl N b p s s' (becomeLeaderLocked ev n) \<and> grants s' = grants s"
proof -
  note d = placedD [OF p]
  let ?t = "currentTerm n"
  let ?s = "ack p ?t (length (slog s p)) (s\<lparr>tlog := (tlog s)(?t \<mapsto> slog s p), sleader := (sleader s)(?t := p)\<rparr>)"
  have c: "(p, ?t, p, slog s p) \<in> grants s" "tlog s ?t = None \<or> sleader s ?t \<noteq> p"
    using d(7) assms(2) by (auto simp: sim_node_def)
  have st: "sstep N s ?s" by (rule sstep.elect [OF d(9) [symmetric] c(1) assms(3) votes c(2)])
  have "psteps N p s ?s" by (rule pstepsI [OF d(1,5) st]) auto
  moreover have "in_sync b 0 (becomeLeaderLocked ev n)"
    by (rule in_sync_cong [OF node_okD(1) [OF d(6)]]) simp_all
  then have "node_ok b N p (becomeLeaderLocked ev n)" using d(6) by (simp add: node_ok_def)
  moreover have "sim_node ?s p (becomeLeaderLocked ev n)"
    using d(7) by (simp add: sim_node_def) (simp add: becomeLeaderLocked_def)
  ultimately show ?thesis by (intro exI [of _ ?s]) (simp add: impl_def)
qed

lemma pollRequest_simps [simp]:
  "CandidateId (pollRequest n q) = nid n" "PreVote (pollRequest n q) = pl_pre q"
  "rvTerm (pollRequest n q) = (if pl_pre q then pl_term q + 1 else pl_term q)"
  "LastLogIndex (pollRequest n q) = pl_lastIdx q" "LastLogTerm (pollRequest n q) = pl_lastTerm q"
  by (simp_all add: pollRequest_def)

text \<open>A step that may start a poll.\<close>

definition starts :: "nat set \<Rightarrow> pbcodec \<Rightarrow> nat \<Rightarrow> spec \<Rightarrow> Node \<times> poll option \<Rightarrow> bool" where
  "starts N b p s = (\<lambda>(n, x). \<exists>s'. impl N b p s s' n \<and>
     (\<forall>q. x = Some q \<longrightarrow> vreq_ok s' (pollRequest n q) \<and> poll_ok N s' p (q, set (peers n))))"

lemma starts_election:
  assumes p: "placed N b p s n" and t: "currentTerm n + 1 < 2 ^ 64"
  shows "starts N b p s (startElectionLocked ev n)"
proof -
  note d = placedD [OF p] and k = node_okD [OF placedD(6) [OF p]]
  let ?t = "currentTerm n + 1"
  let ?n1 = "resetElectionTimerLocked ev (n\<lparr>role := Candidate, currentTerm := ?t, votedFor := nid n, leaderID := 0\<rparr>)"
  let ?n2 = "?n1\<lparr>persist := snd (saveHardState ?t p (persist n))\<rparr>"
  let ?s = "s\<lparr>sterm := (sterm s)(p := ?t), svote := (svote s)(p := p),
    grants := insert (p, ?t, p, slog s p) (grants s)\<rparr>"
  have ph: "persistHardState ?n1 = (Inr (), ?n2)"
    using p_succeedsD [OF p_succeeds_saveHardState k(2)] k(7) by (simp add: persistHardState_eq)
  have st: "sstep N s ?s" by (rule sstep.campaign) (use d in simp_all)
  have "psteps N p s ?s" by (rule pstepsI [OF d(1,5) st]) simp_all
  moreover have "node_ok b N p ?n2"
    by (rule node_ok_hardState [OF d(6), of ?t p]) (use t d(4) k(7) in simp_all)
  moreover have "tlog s ?t = None \<or> sleader s ?t \<noteq> p"
  proof (cases "tlog s ?t")
    case (Some L)
    then have "elected N s ?t L" using d(8) by (simp add: sinv_def elect_inv_def)
    then obtain lc where "(sleader s ?t, ?t, sleader s ?t, lc) \<in> grants s" by (rule electedE) simp
    then have "?t \<le> sterm s (sleader s ?t)" using grantD(2) d(8) by (simp add: sinv_def)
    then show ?thesis using d(9) by auto
  qed simp
  then have "sim_node ?s p ?n2" using d(7) k(7) by (simp add: sim_node_def)
  ultimately have i: "impl N b p s ?s ?n2" by (simp add: impl_def)
  show ?thesis
  proof (cases "majority n \<le> 1")
    case True
    have q: "quorum N {p}" using majority_quorum [OF d(6,2,1), of "{}"] True by simp
    obtain s' where "impl N b p ?s s' (becomeLeaderLocked ev ?n2)"
      using impl_leader [OF impl_placed [OF p i] _ q] by auto
    with True ph impl_trans [OF i] show ?thesis
      by (auto simp: starts_def startElectionLocked_def Let_def majority_def)
  next
    case False
    let ?q = "\<lparr>pl_pre = False, pl_term = ?t, pl_round = preVoteRound n, pl_lastIdx = lastIndex (nlog n),
      pl_lastTerm = lastTerm (nlog n), pl_votes = 1\<rparr>"
    have r: "startElectionLocked ev n = (?n2, Some ?q)"
      using False ph by (simp add: startElectionLocked_def Let_def majority_def)
    have "vreq_ok ?s (pollRequest ?n2 ?q)"
      using d k by (auto simp: vreq_ok_def)
    moreover have "poll_ok N ?s p (?q, set (peers ?n2))"
      unfolding poll_ok_def using d k by (auto intro!: exI [of _ "{}"])
    ultimately show ?thesis unfolding r starts_def using i by auto
  qed
qed

lemma starts_trans: "impl N b p s s' n \<Longrightarrow> starts N b p s' r \<Longrightarrow> starts N b p s r"
  unfolding starts_def using impl_trans by blast

lemma starts_none: "impl N b p s s' n \<Longrightarrow> starts N b p s (n, None)"
  by (auto simp: starts_def)

lemma starts_pre:
  assumes "placed N b p s n" and "pl_pre q"
  shows "starts N b p s (n, Some q)"
  using assms(2) placedD(4) [OF assms(1)] node_okD(7,8) [OF placedD(6) [OF assms(1)]] impl_refl [OF assms(1)]
  by (auto simp: starts_def vreq_ok_def poll_ok_def)

lemma quietly_reset: "lastApplied n \<le> commitIndex n \<Longrightarrow> quietly n (resetElectionTimerLocked ev n)"
  by (simp add: quietly_def resetElectionTimerLocked_def Let_def)

lemma startElection_term: "currentTerm (fst (startElectionLocked ev n)) = currentTerm n + 1"
  by (simp add: startElectionLocked_def Let_def persistHardState_eq split: sum.split)

lemma starts_prevote:
  assumes p: "placed N b p s n" and t: "currentTerm (fst (startPreVoteLocked ev n)) < 2 ^ 64"
  shows "starts N b p s (startPreVoteLocked ev n)"
proof -
  let ?n1 = "resetElectionTimerLocked ev
    (n\<lparr>electionAttempts := electionAttempts n + 1, preVoteRound := preVoteRound n + 1\<rparr>)"
  have q: "quietly n ?n1"
    using node_okD(10) [OF placedD(6) [OF p]] by (simp add: quietly_def resetElectionTimerLocked_def Let_def)
  note i = impl_quiet [OF p q]
  have "starts N b p s (startElectionLocked ev ?n1)" if "majority ?n1 \<le> 1"
  proof (rule starts_election [OF impl_placed [OF p i]])
    show "currentTerm ?n1 + 1 < 2 ^ 64"
      using t that startElection_term [of ev ?n1] by (simp add: startPreVoteLocked_def Let_def)
  qed
  then show ?thesis
    using starts_pre [OF impl_placed [OF p i]] by (simp add: startPreVoteLocked_def Let_def)
qed

lemma quietly_stall:
  "lastApplied n \<le> commitIndex n \<Longrightarrow> quietly n (checkCommitStallLocked ev n)"
  by (simp add: quietly_def checkCommitStallLocked_def noteCommitProgressLocked_def stepDownLocked_def
      resetElectionTimerLocked_def Let_def)

lemma quietly_stepDown: "lastApplied n \<le> commitIndex n \<Longrightarrow> quietly n (stepDownLocked ev n)"
  by (simp add: quietly_def stepDownLocked_def resetElectionTimerLocked_def Let_def)

lemma quietly_trans: "quietly n n' \<Longrightarrow> quietly n' n'' \<Longrightarrow> quietly n n''"
  by (auto simp: quietly_def)

lemma starts_tick:
  assumes p: "placed N b p s n" and t: "currentTerm (fst (electionTick ev n)) < 2 ^ 64"
  shows "starts N b p s (electionTick ev n)"
proof -
  have la: "lastApplied n \<le> commitIndex n" by (rule node_okD(10) [OF placedD(6) [OF p]])
  let ?m = "n\<lparr>lastQuorumCheck := now ev\<rparr>"
  have qm: "quietly n ?m" using la by (simp add: quietly_def)
  have q: "quietly n (stepDownLocked ev ?m)" "quietly n (checkCommitStallLocked ev ?m)"
    using quietly_trans [OF qm] quietly_stepDown [of ?m ev] quietly_stall [of ?m ev] la by simp_all
  have pre: "starts N b p s (startPreVoteLocked ev n)" if "electionTick ev n = startPreVoteLocked ev n"
    using starts_prevote [OF p] t that by simp
  have "(\<exists>n'. quietly n n' \<and> electionTick ev n = (n', None)) \<or> electionTick ev n = startPreVoteLocked ev n"
    using q la quietly_stall [OF la, of ev]
    by (auto simp: electionTick_def Let_def quietly_def)
  then show ?thesis using pre starts_none [OF impl_quiet [OF p]] by auto
qed

text \<open>The answers to a poll.\<close>

lemma poll_ok_smaller: "poll_ok N s p (q, pend) \<Longrightarrow> poll_ok N s p (q, pend - {r})"
  unfolding poll_ok_def by (simp; blast)

lemma starts_prevote_response:
  assumes p: "placed N b p s n" and run: "onPreVoteResponse ev q resp n = (n', q', x)" and "pl_pre q"
    and t: "currentTerm n' < 2 ^ 64" and pend: "pend \<subseteq> N - {p}"
  shows "starts N b p s (n', x)" and "poll_ok N s' p (q', pend - {r})"
proof -
  have "q' = q \<or> q' = q\<lparr>pl_votes := pl_votes q + 1\<rparr>"
    using run by (auto simp: onPreVoteResponse_def Let_def split: if_splits prod.splits)
  then show "poll_ok N s' p (q', pend - {r})" using assms(3) pend by (auto simp: poll_ok_def)
  have se: "starts N b p s (startElectionLocked ev n)" if "fst (startElectionLocked ev n) = n'"
    using starts_election [OF p] startElection_term [of ev n] t that by simp
  have bf: "starts N b p s (becomeFollowerLocked ev (rvrTerm resp) n, None)"
    if "currentTerm n < rvrTerm resp" "n' = becomeFollowerLocked ev (rvrTerm resp) n"
    using impl_bump [OF p that(1), of ev] t that(2) starts_none by auto
  from run consider "n' = n" "x = None" | "n' = becomeFollowerLocked ev (rvrTerm resp) n" "x = None" "currentTerm n < rvrTerm resp"
    | "startElectionLocked ev n = (n', x)"
    by (auto simp: onPreVoteResponse_def Let_def split: if_splits prod.splits)
  then show "starts N b p s (n', x)"
    by cases (use starts_none [OF impl_refl [OF p]] bf se in simp_all)
qed

lemma impl_vote_response:
  assumes p: "placed N b p s n" and run: "onVoteResponse ev q resp n = (n', q')" and pre: "\<not> pl_pre q"
    and t: "currentTerm n' < 2 ^ 64" and ok: "poll_ok N s p (q, pend)" and r: "r \<in> pend"
    and v: "VoteGranted resp \<Longrightarrow> \<exists>g. (r, pl_term q, p, g) \<in> grants s"
  shows "\<exists>s'. impl N b p s s' n' \<and> poll_ok N s' p (q', pend - {r})"
proof -
  have keep: "\<exists>s'. impl N b p s s' m \<and> poll_ok N s' p (q, pend - {r})" if "impl N b p s s'' m" for m s''
    using that poll_ok_grows [OF impl_grows [OF that] poll_ok_smaller [OF ok]] by blast
  let ?q = "q\<lparr>pl_votes := pl_votes q + 1\<rparr>"
  have "n' = n \<and> q' = q \<or> n' = becomeFollowerLocked ev (rvrTerm resp) n \<and> currentTerm n < rvrTerm resp \<and> q' = q \<or>
    role n = Candidate \<and> currentTerm n = pl_term q \<and> VoteGranted resp \<and> q' = ?q \<and>
      n' = (if pl_votes ?q = majority n then becomeLeaderLocked ev n else n)"
    using run unfolding onVoteResponse_def Let_def by (simp split: if_splits)
  then consider "n' = n" "q' = q"
    | "n' = becomeFollowerLocked ev (rvrTerm resp) n" "currentTerm n < rvrTerm resp" "q' = q"
    | "role n = Candidate" "currentTerm n = pl_term q" "VoteGranted resp" "q' = ?q"
      "n' = (if pl_votes ?q = majority n then becomeLeaderLocked ev n else n)" by blast
  then show ?thesis
  proof cases
    case 1
    then show ?thesis using keep [OF impl_refl [OF p]] by simp
  next
    case 2
    then show ?thesis using impl_bump [OF p 2(2), of ev] t keep by fastforce
  next
    case 3
    obtain G where G: "G \<subseteq> N - {p} - pend" "pl_votes q = Suc (card G)" "\<forall>r \<in> G. \<exists>g. (r, pl_term q, p, g) \<in> grants s"
      and lc: "\<exists>lc. (p, pl_term q, p, lc) \<in> grants s \<and> pl_lastIdx q = length lc \<and> pl_lastTerm q = lastT lc"
      and pend: "pend \<subseteq> N - {p}"
      using ok pre by (auto simp: poll_ok_def)
    have "finite G" using G(1) placedD(1) [OF p] by (meson finite_Diff finite_subset)
    moreover have "r \<notin> G" using G(1) r by blast
    ultimately have card: "pl_votes q' = Suc (card (insert r G))" using G(2) 3(4) by simp
    have G': "insert r G \<subseteq> N - {p} - (pend - {r})" "\<forall>m \<in> insert r G. \<exists>g. (m, pl_term q, p, g) \<in> grants s"
      using G(1,3) v [OF 3(3)] r pend by auto
    have "\<exists>G. G \<subseteq> N - {p} - (pend - {r}) \<and> pl_votes q' = Suc (card G) \<and>
        (\<forall>r \<in> G. \<exists>g. (r, pl_term q, p, g) \<in> grants s)"
      using G' card by (intro exI [of _ "insert r G"]) simp
    then have ok': "poll_ok N s p (q', pend - {r})"
      unfolding poll_ok_def using lc pend 3(4) pre by auto
    show ?thesis
    proof (cases "pl_votes q' = majority n")
      case True
      have "quorum N (insert p (insert r G))"
        by (rule majority_quorum [OF placedD(6,2,1) [OF p]]) (use G'(1) card True in auto)
      moreover have "\<forall>m \<in> insert p (insert r G). \<exists>g. (m, currentTerm n, p, g) \<in> grants s"
        using G'(2) lc 3(2) by auto
      ultimately obtain s' where "impl N b p s s' (becomeLeaderLocked ev n)"
        using impl_leader [OF p 3(1), of "insert p (insert r G)" ev] by blast
      then show ?thesis using poll_ok_grows [OF impl_grows ok'] True 3(4,5) by auto
    qed (use ok' impl_refl [OF p] 3(4,5) in auto)
  qed
qed

end
