(* ===== verification/ClusterSteps.thy ===== *)
theory ClusterSteps
  imports ClusterSim
begin

text \<open>
  The rest of the simulation: votes, append requests and their answers, proposals, the
  applier and restarts; and the result that a reachable cluster refines the protocol.
\<close>

section \<open>Votes\<close>

lemma impl_bumped:
  assumes "placed N b p s n" and "max t (currentTerm n) < 2 ^ 64"
  shows "\<exists>s'. impl N b p s s' (bumped ev t n) \<and> grants s' = grants s"
  using impl_bump [OF assms(1), of t ev] impl_refl [OF assms(1)] assms(2) by (auto simp: bumped_def)

lemma vote_cases:
  assumes "HandleRequestVote ev req n = (resp, n')" and "\<not> stopped n" and "p_healthy (persist n)"
  obtains "n' = n" and "PreVote req \<or> \<not> VoteGranted resp"
  | "n' = bumped ev (rvTerm req) n" and "\<not> VoteGranted resp"
  | m where "m = bumped ev (rvTerm req) n" and "currentTerm m = rvTerm req" and "votedFor m \<in> {noVote, CandidateId req}"
    and "upToDate req m" and "VoteGranted resp" and "\<not> PreVote req"
    and "n' = resetElectionTimerLocked ev (m\<lparr>votedFor := CandidateId req,
        persist := snd (saveHardState (rvTerm req) (CandidateId req) (persist m))\<rparr>)"
proof -
  let ?m = "bumped ev (rvTerm req) n"
  have h: "p_healthy (persist ?m)" using p_succeedsD [OF p_succeeds_saveHardState assms(3)] assms(3) by simp
  have ok: "fst (saveHardState t u (persist ?m)) = Inr ()" for t u
    using p_succeedsD [OF p_succeeds_saveHardState h] by simp
  let ?n = "resetElectionTimerLocked ev (?m\<lparr>votedFor := CandidateId req,
        persist := snd (saveHardState (rvTerm req) (CandidateId req) (persist ?m))\<rparr>)"
  consider "PreVote req" | "\<not> PreVote req" "currentTerm n < rvTerm req \<and> heardLeaderRecentlyLocked ev n"
    | "\<not> PreVote req" "\<not> (currentTerm n < rvTerm req \<and> heardLeaderRecentlyLocked ev n)" by blast
  then show thesis
  proof cases
    case 1
    show ?thesis by (rule that(1)) (use assms(1,2) 1 in \<open>simp_all add: HandleRequestVote_def\<close>)
  next
    case 2
    have "(refuse n, n) = (resp, n')"
      using assms(1,2) 2 by (auto simp: HandleRequestVote_def)
    then show ?thesis by (intro that(1)) (auto simp: refuse_def)
  next
    case 3
    have eq: "HandleRequestVote ev req n =
      (if rvTerm req < currentTerm ?m \<or> votedFor ?m \<noteq> noVote \<and> votedFor ?m \<noteq> CandidateId req \<or> \<not> upToDate req ?m
       then (refuse ?m, ?m) else (\<lparr>rvrTerm = currentTerm ?m, VoteGranted = True\<rparr>, ?n))"
    proof (cases "rvTerm req < currentTerm ?m")
      case True
      then show ?thesis
        using assms(2) 3 by (simp only: HandleRequestVote_def Let_def bumped_def if_False if_True simp_thms split: if_split)
    next
      case False
      then have "currentTerm ?m = rvTerm req" by simp
      with False assms(2) 3 ok show ?thesis
        unfolding HandleRequestVote_def Let_def persistHardState_eq bumped_def [symmetric] by simp
    qed
    show ?thesis
    proof (cases "rvTerm req < currentTerm ?m \<or> votedFor ?m \<noteq> noVote \<and> votedFor ?m \<noteq> CandidateId req \<or> \<not> upToDate req ?m")
      case True
      with eq assms(1) have "(refuse ?m, ?m) = (resp, n')" by (simp only: if_True)
      then show ?thesis by (intro that(2)) (auto simp: refuse_def)
    next
      case False
      with eq assms(1) have "(\<lparr>rvrTerm = currentTerm ?m, VoteGranted = True\<rparr>, ?n) = (resp, n')" by (simp only: if_False)
      with False 3(1) show ?thesis by (intro that(3) [of ?m]) auto
    qed
  qed
qed

lemma upToDate_utd:
  assumes "node_ok b N p n" and "LastLogIndex req = length lc" and "LastLogTerm req = lastT lc" and "upToDate req n"
  shows "utd lc (allEntries (nlog n))"
  using assms(4) node_okD(12,13) [OF assms(1)] by (auto simp: upToDate_def utd_def assms(2,3))

lemma impl_vote:
  assumes p: "placed N b p s n" and ok: "vreq_ok s req" and "CandidateId req \<noteq> p"
    and run: "HandleRequestVote ev req n = (resp, n')" and t: "currentTerm n' < 2 ^ 64"
  shows "\<exists>s'. impl N b p s s' n' \<and> vresp_ok s' (req, p, resp)"
proof -
  note k = node_okD [OF placedD(6) [OF p]]
  from run k(6,2) show ?thesis
  proof (cases rule: vote_cases)
    case 1
    then show ?thesis using impl_refl [OF p] by (auto simp: vresp_ok_def)
  next
    case 2
    then have "max (rvTerm req) (currentTerm n) < 2 ^ 64" using t by simp
    from impl_bumped [OF p this, of ev] 2 show ?thesis by (auto simp: vresp_ok_def)
  next
    case (3 m)
    have "max (rvTerm req) (currentTerm n) < 2 ^ 64" using t 3(1,2,7) by (simp del: max_less_iff_conj)
    from impl_bumped [OF p this, of ev] 3(1) obtain s1
      where i: "impl N b p s s1 m" and g1: "grants s1 = grants s" by auto
    note pm = impl_placed [OF p i]
    note d = placedD [OF pm] and km = node_okD [OF placedD(6) [OF pm]]
    let ?c = "CandidateId req"
    let ?s = "s1\<lparr>svote := (svote s1)(p := ?c), grants := insert (p, sterm s1 p, ?c, slog s1 p) (grants s1)\<rparr>"
    obtain lc where lc: "(?c, rvTerm req, ?c, lc) \<in> grants s1" "LastLogIndex req = length lc" "LastLogTerm req = lastT lc"
      and c: "?c < 2 ^ 64" using ok 3(6) g1 by (auto simp: vreq_ok_def)
    have "?c \<noteq> 0" using grantD(4) [OF _ lc(1)] d(8) by (simp add: sinv_def)
    have ut: "utd lc (slog s1 p)" using upToDate_utd [OF d(6) lc(2,3) 3(4)] d(11) by simp
    have st: "sstep N s1 ?s"
      by (rule sstep.grant [OF _ \<open>?c \<noteq> 0\<close> _ _ ut]) (use assms(3) 3(2,3) d(9,10) lc(1) in \<open>auto simp: noVote_def\<close>)
    have "psteps N p s1 ?s" by (rule pstepsI [OF d(1,5) st]) simp_all
    moreover have "node_ok b N p n'"
      by (rule node_ok_hardState [OF d(6), of "rvTerm req" ?c]) (use t c 3(2,7) in simp_all)
    moreover have "sim_node ?s p n'"
      using d(7) by (auto simp: sim_node_def 3(7)) (simp_all add: resetElectionTimerLocked_def Let_def)
    ultimately have "impl N b p s1 ?s n'" by (simp add: impl_def)
    with impl_trans [OF i] have "impl N b p s ?s n'" by blast
    moreover have "vresp_ok ?s (req, p, resp)" using d(9) 3(2) by (auto simp: vresp_ok_def)
    ultimately show ?thesis by blast
  qed
qed

section \<open>Append requests\<close>

lemma log_term_all:
  assumes "wf_log l" and "firstIndex l = 0" and "j < length (allEntries l)"
  shows "log_term l (Suc j) = (Term (allEntries l ! j), True)"
  using assms allEntries_wf(2) [OF assms(1)] by (cases "entries l") (auto simp: log_term_def allEntries_def)

lemma allEntries_cut:
  assumes "wf_log l" and "firstIndex l = 0"
  shows "allEntries (log_truncateFrom (Suc q) l) = take q (allEntries l)"
  using assms by (cases "entries l") (auto simp: allEntries_def)

lemma nth_piece: "es = take k (drop p L) \<Longrightarrow> j < length es \<Longrightarrow> es ! j = L ! (p + j)"
  by (cases "p \<le> length L") simp_all

text \<open>The merge of the handler is the one of the protocol, on logs that match.\<close>

lemma merged_replaced:
  assumes wf: "wf_log l" "firstIndex l = 0" and ok: "log_ok lg (allEntries l)" "log_ok lg L" and co: "consecutive 1 L"
    and p: "p \<le> length (allEntries l)" "take p (allEntries l) = take p L" and pk: "p + k \<le> length L"
    and es: "es = take k (drop p L)"
  shows "allEntries (merged l es) = replaced L (p + k) (allEntries l)"
proof -
  let ?A = "allEntries l"
  have "consecutive (1 + p) (drop p L)" by (rule consecutive_drop [OF co]) (use pk in simp)
  then have co': "consecutive (Suc p) es" using consecutive_take es by simp
  have pl: "p \<le> lastIndex l" using allEntries_wf(2) [OF wf(1)] wf(2) p(1) by simp
  obtain new c where rec: "reconcile l es = (new, c)" by fastforce
  obtain old where o: "es = old @ new" and sp: "split_at l p old new c"
    using reconcile_split [OF wf(1) co' pl rec] by blast
  define q where "q = p + length old"
  have len: "length es = k" using es pk by simp
  have qk: "q \<le> p + k" using len o by (simp add: q_def)
  have old: "j < length ?A \<and> Term (?A ! j) = Term (L ! j)" if j: "p \<le> j" "j < q" for j
  proof -
    let ?e = "es ! (j - p)"
    have jl: "j - p < length es" "j - p < length old" using j o by (auto simp: q_def)
    then have e: "?e \<in> set old" using o by (simp add: nth_append)
    have "Index ?e = Suc j" using consecutive_nth [OF co' jl(1)] j(1) by simp
    moreover have "?e = L ! j" using nth_piece [OF es jl(1)] j(1) by simp
    ultimately have h: "log_term l (Suc j) = (Term (L ! j), True)"
      using sp e wf(2) by (auto simp: split_at_def holds_def)
    then have "j < length ?A" using allEntries_wf(2) [OF wf(1)] wf(2) by (auto simp: log_term_def split: if_splits)
    with h log_term_all [OF wf] show ?thesis by simp
  qed
  have tq: "take q ?A = take q L"
  proof (cases "q = p")
    case False
    then have "p \<le> q - 1" "q - 1 < q" using q_def by linarith+
    from old [OF this] this log_matching [OF ok, of "q - 1"] qk pk show ?thesis by simp
  qed (simp add: p(2))
  have lq: "q \<le> length ?A"
  proof (cases "q = p")
    case False
    then have "p \<le> q - 1" "q - 1 < q" using q_def by linarith+
    from old [OF this] show ?thesis by linarith
  qed (simp add: p(1))
  have new: "new = take (p + k - q) (drop q L)"
  proof -
    have "new = drop (length old) es" using o by simp
    also have "\<dots> = take (k - length old) (drop q L)" by (simp add: es drop_take q_def add.commute)
    finally show ?thesis by (simp add: q_def)
  qed
  then have whole: "take q L @ new = take (p + k) L" using qk by (simp add: take_add [symmetric])
  show ?thesis
  proof (cases c)
    case None
    have m: "allEntries (merged l es) = ?A @ new"
      using allEntries_append [OF wf(1)] by (simp add: merged_def rec None)
    show ?thesis
    proof (cases "new = []")
      case True
      then have "q = p + k" using len o by (simp add: q_def)
      with tq m True show ?thesis by (simp add: replaced_def)
    next
      case False
      then have la: "length ?A = q" using sp None allEntries_wf(2) [OF wf(1)] wf(2) by (auto simp: split_at_def q_def)
      then have "?A = take q L" using tq by simp
      with m whole have "allEntries (merged l es) = take (p + k) L" by simp
      moreover have "take (p + k) ?A \<noteq> take (p + k) L"
        using arg_cong [where f = length, of "take (p + k) ?A" "take (p + k) L"] la pk False qk o len by (auto simp: q_def)
      ultimately show ?thesis by (simp add: replaced_def)
    qed
  next
    case (Some i)
    then have i: "i = Suc q" "i \<le> lastIndex l" and cf: "new \<noteq> []" "fst (log_term l i) \<noteq> Term (hd new)"
      using sp by (auto simp: split_at_def q_def)
    have m: "allEntries (merged l es) = take q ?A @ new"
      using allEntries_append [OF wf_truncate [OF wf(1)]] allEntries_cut [OF wf]
      by (simp add: merged_def rec Some i(1))
    have qa: "q < length ?A" using i allEntries_wf(2) [OF wf(1)] wf(2) by simp
    have qk': "q < p + k" using cf(1) len o by (auto simp: q_def)
    have "hd new = L ! q" using new qk' pk by (simp add: hd_drop_conv_nth)
    then have "?A ! q \<noteq> L ! q" using cf(2) log_term_all [OF wf qa] i(1) by auto
    then have "take (p + k) ?A \<noteq> take (p + k) L" using qk' by (metis nth_take)
    with m tq whole show ?thesis by (simp add: replaced_def)
  qed
qed

lemma impl_heard:
  assumes "placed N b p s n" and "max t (currentTerm n) < 2 ^ 64"
  shows "\<exists>s'. impl N b p s s' (hearLeader ev l (bumped ev t n)) \<and> sgrows s s'"
proof -
  obtain s' where i: "impl N b p s s' (bumped ev t n)" using impl_bumped [OF assms] by blast
  note p' = impl_placed [OF assms(1) i]
  have "quietly (bumped ev t n) (hearLeader ev l (bumped ev t n))"
    using node_okD(10) [OF placedD(6) [OF p']] by (simp add: quietly_def)
  from impl_trans [OF i impl_quiet [OF p' this]] impl_grows show ?thesis by blast
qed

text \<open>What a request that passes the check says about the follower's log.\<close>

lemma request_piece:
  assumes p: "placed N b p s n" and ok: "areq_ok N b s (p, req)" and pm: "prevMatches req n"
  obtains L where "tlog s (aeTerm req) = Some L" and "sleader s (aeTerm req) \<noteq> p"
    and "PrevLogIndex req + length (Entries req) \<le> length L"
    and "Entries req = take (length (Entries req)) (drop (PrevLogIndex req) L)"
    and "PrevLogIndex req \<le> length (allEntries (nlog n))"
    and "take (PrevLogIndex req) (allEntries (nlog n)) = take (PrevLogIndex req) L"
proof -
  note d = placedD [OF p] and k = node_okD [OF placedD(6) [OF p]]
  let ?A = "allEntries (nlog n)" and ?p = "PrevLogIndex req" and ?k = "length (Entries req)"
  have li: "log_inv s" using d(8) by (simp add: sinv_def)
  note A = log_invD(1) [OF li, of p, unfolded d(11)]
  have pl: "?p \<le> length ?A" using pm k(12) by (simp add: prevMatches_def)
  have prev: "Term (?A ! (?p - 1)) = PrevLogTerm req" if "0 < ?p"
    using pm that k(4) log_term_all [OF k(3,4), of "?p - 1"] pl by (auto simp: prevMatches_def)
  obtain L where L: "tlog s (aeTerm req) = Some L" "sleader s (aeTerm req) \<noteq> p"
    and piece: "?p + ?k \<le> length L \<and> Entries req = take ?k (drop ?p L) \<and> PrevLogTerm req = lastT (take ?p L) \<or>
      0 < ?p \<and> PrevLogTerm req = 0"
    using ok unfolding areq_ok_def by blast
  have "\<not> (0 < ?p \<and> PrevLogTerm req = 0)"
  proof
    assume z: "0 < ?p \<and> PrevLogTerm req = 0"
    then have "?p - 1 < length ?A" "Term (?A ! (?p - 1)) = 0" using pl prev by auto
    then obtain M where "tlog s 0 = Some M" using A by (metis log_ok_def)
    then show False using log_invD(3) [OF li] by blast
  qed
  then have pc: "?p + ?k \<le> length L" "Entries req = take ?k (drop ?p L)" "PrevLogTerm req = lastT (take ?p L)"
    using piece by auto
  have "take ?p ?A = take ?p L"
  proof (cases "?p = 0")
    case False
    have "last (take ?p L) = L ! (?p - 1)" using False pc(1) by (subst last_conv_nth) auto
    then have "Term (?A ! (?p - 1)) = Term (L ! (?p - 1))" using prev False pc(1,3) by (auto simp: lastT_def)
    with log_matching [OF A log_invD(4) [OF li L(1)], of "?p - 1"] False pl pc(1) show ?thesis by simp
  qed simp
  with L pc(1,2) pl show thesis using that by blast
qed

lemma piece_respects_commit:
  assumes p: "placed N b p s n" and L: "tlog s (aeTerm req) = Some L" and t: "currentTerm n \<le> aeTerm req"
    and len: "PrevLogIndex req + length (Entries req) \<le> length L"
    and es: "Entries req = take (length (Entries req)) (drop (PrevLogIndex req) L)"
  shows "respects_commit req n"
  unfolding respects_commit_def
proof (intro ballI impI)
  note d = placedD [OF p] and k = node_okD [OF placedD(6) [OF p]]
  fix e assume e: "e \<in> set (Entries req)" and i: "firstIndex (nlog n) < Index e \<and> Index e \<le> commitIndex n"
  have li: "log_inv s" using d(8) by (simp add: sinv_def)
  obtain j where j: "j < length (Entries req)" "e = Entries req ! j" using e by (auto simp: in_set_conv_nth)
  then have el: "e = L ! (PrevLogIndex req + j)" using nth_piece [OF es] by simp
  then have ix: "Index e = Suc (PrevLogIndex req + j)"
    using consecutive_nth [OF log_invD(8) [OF li L], of "PrevLogIndex req + j"] j(1) len by simp
  have c: "prefix (take (commitIndex n) (allEntries (nlog n))) L" "commitIndex n \<le> length (allEntries (nlog n))"
    using commit_prefix [OF d(1,8) L, of p] t by (simp_all add: d(9,11,12))
  then have "allEntries (nlog n) ! (PrevLogIndex req + j) = L ! (PrevLogIndex req + j)"
    using i ix by (auto simp: prefix_def nth_append)
  then show "holds (nlog n) e"
    using log_term_all [OF k(3,4), of "PrevLogIndex req + j"] c(2) i ix el by (simp add: holds_def)
qed

lemma sentinel_merged: "wf_log l \<Longrightarrow> entries (merged l es) ! 0 = entries l ! 0"
  by (cases "entries l")
     (auto simp: merged_def wf_log_def log_truncateFrom_def Let_def take_Cons' split: prod.split option.split)

lemma impl_append:
  assumes p: "placed N b p s n" and b: "pb ev = b" and ok: "areq_ok N b s (p, req)"
    and run: "HandleAppendEntries ev req n = (resp, n')"
    and t: "currentTerm n' < 2 ^ 64" and li: "lastIndex (nlog n) < 2 ^ 64"
  shows "\<exists>s'. impl N b p s s' n' \<and> aresp_ok s' (p, req, resp)"
proof (cases "stopped n \<or> aeTerm req < currentTerm n \<or> \<not> prevMatches req n")
  case True
  note u = append_unchecked [OF run True]
  show ?thesis
  proof (cases "n' = n")
    case True
    then show ?thesis using u impl_refl [OF p] by (auto simp: aresp_ok_def)
  next
    case False
    then have n': "n' = hearLeader ev (LeaderId req) (bumped ev (aeTerm req) n)" using u by simp
    then have "max (aeTerm req) (currentTerm n) < 2 ^ 64" using t by simp
    from impl_heard [OF p this] n' u show ?thesis by (auto simp: aresp_ok_def)
  qed
next
  case False
  then have f: "\<not> stopped n" "currentTerm n \<le> aeTerm req" "prevMatches req n" by auto
  note k = node_okD [OF placedD(6) [OF p]]
  obtain r m where "HandleAppendEntries ev req n = (r, m)" "Success r" "p_healthy (persist m)"
    using append_healthy [OF f k(2), of ev] ok b by (auto simp: areq_ok_def)
  with run have suc: "Success resp" and h: "p_healthy (persist n')" by auto
  note a = append_success [OF run suc]
  let ?t = "aeTerm req" and ?m = "PrevLogIndex req + length (Entries req)"
  obtain L where L: "tlog s ?t = Some L" "sleader s ?t \<noteq> p" "?m \<le> length L"
    "Entries req = take (length (Entries req)) (drop (PrevLogIndex req) L)"
    "PrevLogIndex req \<le> length (allEntries (nlog n))"
    "take (PrevLogIndex req) (allEntries (nlog n)) = take (PrevLogIndex req) L"
    by (rule request_piece [OF p ok f(3)])
  have tt: "max ?t (currentTerm n) < 2 ^ 64" using t a(4) f(2) by simp
  let ?n1 = "hearLeader ev (LeaderId req) (bumped ev ?t n)"
  obtain s1 where i1: "impl N b p s s1 ?n1" and g1: "sgrows s s1" using impl_heard [OF p tt] by blast
  note p1 = impl_placed [OF p i1]
  note d1 = placedD [OF p1]
  have li1: "log_inv s1" using d1(8) by (simp add: sinv_def)
  obtain es where L1: "tlog s1 ?t = Some (L @ es)" by (rule tgrowsD [OF sgrowsD(1) [OF g1] L(1)])
  have t1: "?t = sterm s1 p" using d1(9) f(2) by simp
  have sl: "sleader s1 ?t \<noteq> p" using sgrowsD(5) [OF g1] L(1,2) by simp
  have A1: "slog s1 p = allEntries (nlog n)" using d1(11) by simp
  let ?s2 = "ack p ?t ?m (s1\<lparr>slog := (slog s1)(p := replaced (L @ es) ?m (slog s1 p))\<rparr>)"
  have st: "sstep N s1 ?s2"
    by (rule sstep.append [OF t1 L1 sl]) (use L(3,5,6) A1 in simp_all)
  have ps: "psteps N p s1 ?s2" by (rule pstepsI [OF d1(1,5) st]) simp_all
  have A2: "allEntries (nlog n') = replaced (L @ es) ?m (allEntries (nlog n))"
    unfolding a(6)
    by (rule merged_replaced [OF k(3,4) log_invD(1) [OF li1, of p, unfolded A1] log_invD(4,8) [OF li1 L1]])
       (use L(3-6) in simp_all)
  have r2: "sreach N ?s2" and gr2: "sgrows s1 ?s2" using ps by (simp_all add: psteps_def alone_def)
  text \<open>The commit point.\<close>
  let ?c = "commitIndex n'"
  have c1: "scommit s1 p = commitIndex n" using d1(12) by simp
  have "\<exists>s3. psteps N p ?s2 s3 \<and> scommit s3 p = ?c \<and> sterm s3 = sterm ?s2 \<and> svote s3 = svote ?s2 \<and> slog s3 = slog ?s2 \<and>
      acked s3 = acked ?s2"
  proof (cases "commitIndex n < ?c")
    case True
    then have c: "?c \<le> LeaderCommit req" "?c \<le> ?m" "LeaderCommit req \<noteq> 0"
      using a(7) by (auto simp: newCommit_def split: if_splits)
    obtain T j where "committed N s T j" "T \<le> ?t" "LeaderCommit req \<le> j" using ok c(3) by (auto simp: areq_ok_def)
    then have cm: "committed N ?s2 T j" "T \<le> sterm ?s2 p" "?c \<le> j"
      using committed_grows [OF sgrows_trans [OF g1 gr2]] t1 c(1) by auto
    let ?s3 = "?s2\<lparr>scommit := (scommit ?s2)(p := ?c)\<rparr>"
    have "sstep N ?s2 ?s3" by (rule sstep.learn [OF cm]) (use c(2) t1 c1 True in auto)
    from pstepsI [OF d1(1) r2 this] show ?thesis by (intro exI [of _ ?s3]) simp
  next
    case False
    then have "?c = commitIndex n" using a(7) by (auto simp: newCommit_def)
    then show ?thesis using psteps_refl [OF r2] c1 by (intro exI [of _ ?s2]) simp
  qed
  then obtain s3 where s3: "psteps N p ?s2 s3" "scommit s3 p = ?c" "sterm s3 = sterm ?s2" "svote s3 = svote ?s2"
    "slog s3 = slog ?s2" "acked s3 = acked ?s2" by blast
  have "sterm s3 p = currentTerm n'" using s3(3) t1 a(4) by simp
  moreover have "svote s3 p = votedFor n'" using s3(4) d1(10) a(9) by simp
  moreover have "slog s3 p = allEntries (nlog n')" using s3(5) A1 A2 by simp
  ultimately have "sim_node s3 p n'" by (simp add: sim_node_def s3(2) a(10))
  moreover have "node_ok b N p n'"
  proof -
    have cons: "consecutive (PrevLogIndex req + 1) (Entries req)"
      using consecutive_take [OF consecutive_drop [OF log_invD(8) [OF _ L(1)], of "PrevLogIndex req"]] L(3,4)
        placedD(8) [OF p] by (metis Suc_eq_plus1 add.commute add_leD1 plus_1_eq_Suc sinv_def)
    have "in_sync (pb ev) 0 n'"
      by (rule append_in_sync [OF _ _ run suc k(3) cons piece_respects_commit [OF p L(1) f(2) L(3,4)]])
         (use k(1,2) b ok t a(4) li in \<open>auto simp: areq_ok_def\<close>)
    moreover note m = merged_spec [OF k(3) _ _ surjective_pairing, of "PrevLogIndex req" "Entries req", folded a(6)]
    have "wf_log (nlog n')" "firstIndex (nlog n') = 0"
      using m(1,2) cons k(4,12) L(5) by simp_all
    moreover have "Term (entries (nlog n') ! 0) = 0" using sentinel_merged [OF k(3)] k(5) by (simp add: a(6))
    moreover have "list_all (codec_ok b) (allEntries (nlog n'))"
    proof -
      have "take ?m L = take (PrevLogIndex req) (allEntries (nlog n)) @ Entries req"
        using L(4,6) by (simp add: take_add)
      then show ?thesis
        using A2 L(3) k(15) ok by (auto simp: replaced_def areq_ok_def list_all_iff dest: in_set_takeD)
    qed
    moreover have "lastApplied n' \<le> commitIndex n'" using k(10) by (auto simp: a(7,8) newCommit_def)
    ultimately show ?thesis
      unfolding node_ok_def a(12,13,15) using a(2) h b k(7-9,11) by simp
  qed
  ultimately have "impl N b p s1 s3 n'" using psteps_trans [OF ps s3(1)] by (simp add: impl_def)
  moreover have "aresp_ok s3 (p, req, resp)" using s3(6) by (simp add: aresp_ok_def)
  ultimately show ?thesis using impl_trans [OF i1] by blast
qed

end
