(* ===== verification/ClusterRefines.thy ===== *)
theory ClusterRefines
  imports ClusterSteps
begin

text \<open>
  The leader's steps, the applier and restarts, and the refinement theorem: a reachable
  cluster simulates a reachable state of the protocol.
\<close>

section \<open>Proposals\<close>

lemma batchEntries_spec:
  assumes "wf_log l" and "batchEntries t ds l = (es, l')"
  shows "l' = log_append es l \<and> consecutive (lastIndex l + 1) es \<and> (\<forall>e \<in> set es. Term e = t) \<and> map Data es = ds"
  using assms
proof (induction ds arbitrary: l es l')
  case Nil
  then show ?case by (auto simp: log_append_def)
next
  case (Cons d ds)
  let ?e = "\<lparr>Index = lastIndex l + 1, Term = t, Data = d\<rparr>"
  have c: "consecutive (lastIndex l + 1) [?e]" by simp
  obtain fs where fs: "batchEntries t ds (log_append [?e] l) = (fs, l')" "es = ?e # fs"
    using Cons.prems(2) by (auto simp: Let_def split: prod.splits)
  from Cons.IH [OF wf_append [OF Cons.prems(1) c] fs(1)] lastIndex_append [OF Cons.prems(1) c] fs(2)
  show ?case by (simp add: log_append_def)
qed

lemma impl_batch:
  assumes p: "placed N b p s n" and b: "pb ev = b" and run: "commitPropBatch ev ds n = (res, n')"
    and codec: "list_all (codec_ok b) (fst (batchEntries (currentTerm n) ds (nlog n)))"
  shows "\<exists>s'. impl N b p s s' n'"
proof (cases "role n = Leader")
  case False
  then show ?thesis using run impl_refl [OF p] by (auto simp: commitPropBatch_def)
next
  case True
  note d = placedD [OF p] and k = node_okD [OF placedD(6) [OF p]]
  let ?t = "currentTerm n"
  obtain es l' where be: "batchEntries ?t ds (nlog n) = (es, l')" by fastforce
  note sp = batchEntries_spec [OF k(3) be]
  have h: "fst (appendEntries b es (persist n)) = Inr ()" "p_healthy (snd (appendEntries b es (persist n)))"
    using p_succeedsD [OF p_succeeds_appendEntries k(2)] codec be by auto
  define q where "q = snd (appendEntries b es (persist n))"
  have ae: "appendEntries b es (persist n) = (Inr (), q)" using h by (simp add: q_def prod_eq_iff)
  have n': "n' = notifyReplicatorsLocked (n\<lparr>nlog := l', persist := q\<rparr>)"
    using run True be ae b by (auto simp: commitPropBatch_def)
  have le: "tlog s ?t = Some (slog s p)" "sleader s ?t = p" "length (slog s p) \<le> acked s p ?t"
    "\<forall>r. matchIndex n r \<le> acked s r ?t" "\<forall>r \<in> set (peers n). 0 < nextIndex n r"
    using d(7) True by (auto simp: sim_node_def)
  have cs: "consecutive (Suc (length (slog s p))) es" using sp d(11) k(12) by simp
  let ?s = "ack p ?t (length (slog s p @ es)) (s\<lparr>tlog := (tlog s)(?t \<mapsto> slog s p @ es), slog := (slog s)(p := slog s p @ es)\<rparr>)"
  have st: "sstep N s ?s" by (rule sstep.propose [OF d(9) [symmetric] le(1,2) _ cs]) (use sp in simp)
  have "psteps N p s ?s" by (rule pstepsI [OF d(1,5) st]) (use le(2) in auto)
  moreover have al: "allEntries l' = allEntries (nlog n) @ es" using sp allEntries_append [OF k(3)] by simp
  have "node_ok b N p n'"
  proof -
    have "in_sync b 0 n'"
      by (rule in_sync_append [OF k(1) _ _ k(3), of es "()" n'])
         (use ae codec be sp in \<open>simp_all add: n' notifyReplicatorsLocked_def\<close>)
    moreover have "wf_log l'" "firstIndex l' = 0" "entries l' ! 0 = entries (nlog n) ! 0"
      using sp wf_append [OF k(3)] k(3,4) by (auto simp: wf_log_def nth_append)
    moreover have "list_all (codec_ok b) (allEntries l')" using al k(15) codec be by simp
    ultimately show ?thesis
      using k(5-11) h(2) unfolding node_ok_def n' notifyReplicatorsLocked_def by (simp add: q_def)
  qed
  moreover have "sim_node ?s p n'"
    using d(7) True le al by (auto simp: sim_node_def n' notifyReplicatorsLocked_def intro: le_trans)
  ultimately show ?thesis by (auto simp: impl_def)
qed

section \<open>Requests of the leader\<close>

lemma request_ok:
  assumes p: "placed N b p s n" and "role n = Leader" and "0 < i" and r: "r \<noteq> p"
    and es: "es = take m (drop (i - 1) (allEntries (nlog n)))"
  shows "areq_ok N b s (r, appendRequest n (currentTerm n) i es)"
proof -
  note d = placedD [OF p] and k = node_okD [OF placedD(6) [OF p]]
  let ?A = "allEntries (nlog n)" and ?q = "appendRequest n (currentTerm n) i es"
  have le: "tlog s (currentTerm n) = Some ?A" "sleader s (currentTerm n) = p"
    using d(7,11) assms(2) by (auto simp: sim_node_def)
  have q: "aeTerm ?q = currentTerm n" "PrevLogIndex ?q = i - 1" "Entries ?q = es"
    "PrevLogTerm ?q = fst (log_term (nlog n) (i - 1))" "LeaderCommit ?q = commitIndex n"
    by (simp_all add: appendRequest_def)
  have "i - 1 + length es \<le> length ?A \<and> es = take (length es) (drop (i - 1) ?A) \<and>
      fst (log_term (nlog n) (i - 1)) = lastT (take (i - 1) ?A) \<or> 0 < i - 1 \<and> fst (log_term (nlog n) (i - 1)) = 0"
  proof (cases "i - 1 \<le> length ?A")
    case True
    have "fst (log_term (nlog n) (i - 1)) = lastT (take (i - 1) ?A)"
    proof (cases "i - 1")
      case 0
      then show ?thesis using k(4,5) by (simp add: log_term_def lastT_def)
    next
      case (Suc j)
      have "last (take (Suc j) ?A) = ?A ! j" using True Suc by (subst last_conv_nth) auto
      then show ?thesis using log_term_all [OF k(3,4), of j] True Suc by (auto simp: lastT_def)
    qed
    moreover have "i - 1 + length es \<le> length ?A" using True by (simp add: es min_def) linarith
    moreover have "es = take (length es) (drop (i - 1) ?A)" by (simp add: es min_def)
    ultimately show ?thesis by simp
  next
    case False
    then show ?thesis using k(12) by (intro disjI2 conjI) (simp_all add: log_term_def)
  qed
  moreover have "list_all (codec_ok b) es"
    using k(15) by (auto simp: es list_all_iff dest!: in_set_takeD in_set_dropD)
  moreover have "commit_ok N s p" using d(8) by (simp add: sinv_def)
  then have "commitIndex n = 0 \<or> (\<exists>T j. committed N s T j \<and> T \<le> currentTerm n \<and> commitIndex n \<le> j)"
    unfolding commit_ok_def d(9,12) by blast
  ultimately show ?thesis
    unfolding areq_ok_def using le r by (simp add: q)
qed

lemma send_ok:
  assumes p: "placed N b p s n" and r: "r \<in> set (peers n)" and run: "prepareAppend r t n = (PassAppend req, n')"
  shows "n' = n" and "areq_ok N b s (r, req)"
proof -
  note k = node_okD [OF placedD(6) [OF p]]
  let ?i = "nextIndex n r"
  have l: "role n = Leader" "currentTerm n = t" using run by (auto simp: prepareAppend_def split: if_splits)
  then have i: "0 < ?i" using placedD(7) [OF p] r by (auto simp: sim_node_def)
  then have e: "n' = n" "req = appendRequest n t ?i (take maxAppendEntries (log_suffix (nlog n) ?i))"
    using run k(4) by (auto simp: prepareAppend_def Let_def split: if_splits)
  show "n' = n" by (rule e(1))
  have "log_suffix (nlog n) ?i = drop (?i - 1) (allEntries (nlog n))"
    using i k(4,12) by (cases "entries (nlog n)") (auto simp: log_suffix_def allEntries_def drop_Cons')
  with request_ok [OF p l(1) i, of r] r k(8) l(2) e(2) show "areq_ok N b s (r, req)" by auto
qed

lemma heartbeat_ok:
  assumes p: "placed N b p s n" and r: "r \<in> set (peers n)" and run: "heartbeatRequest r t n = Some req"
  shows "areq_ok N b s (r, req)"
proof -
  note k = node_okD [OF placedD(6) [OF p]]
  have l: "role n = Leader" "currentTerm n = t" "req = appendRequest n t (nextIndex n r) []"
    using run by (auto simp: heartbeatRequest_def split: if_splits)
  then have i: "0 < nextIndex n r" using placedD(7) [OF p] r by (auto simp: sim_node_def)
  from request_ok [OF p l(1) i, of r "[]" 0] r k(8) l(2,3) show ?thesis by auto
qed

section \<open>Responses\<close>

text \<open>The commit rule: the highest index of the leader's own term that a majority has.\<close>

lemma commitPoint_Some:
  "commitPoint n i = Some idx \<Longrightarrow> commitIndex n < idx \<and> idx \<le> i \<and> log_term (nlog n) idx = (currentTerm n, True) \<and>
     majority n \<le> replicas n idx"
proof (induction i)
  case (Suc i)
  then show ?case by (auto split: if_splits simp: prod_eq_iff)
qed simp

lemma impl_commit:
  assumes p: "placed N b p s n" and "role n = Leader"
  shows "\<exists>s'. impl N b p s s' (maybeAdvanceCommitLocked ev n)"
proof (cases "commitPoint n (lastIndex (nlog n))")
  case None
  then show ?thesis using impl_refl [OF p] by (auto simp: maybeAdvanceCommitLocked_def)
next
  case (Some idx)
  note d = placedD [OF p] and k = node_okD [OF placedD(6) [OF p]]
  note c = commitPoint_Some [OF Some]
  let ?n' = "notifyReplicatorsLocked (noteCommitProgressLocked ev (n\<lparr>commitIndex := idx\<rparr>))"
  have le: "tlog s (currentTerm n) = Some (slog s p)" "length (slog s p) \<le> acked s p (currentTerm n)"
    "\<forall>r. matchIndex n r \<le> acked s r (currentTerm n)"
    using d(7) assms(2) by (auto simp: sim_node_def)
  have il: "0 < idx" "idx \<le> length (slog s p)" using c k(12) d(11) by auto
  let ?G = "{r \<in> set (peers n). idx \<le> matchIndex n r}"
  have "replicas n idx = Suc (card ?G)"
    using k(9) by (simp add: replicas_def distinct_card [symmetric])
  then have q: "quorum N (insert p ?G)"
    using c k(8) by (intro majority_quorum [OF d(6,2,1)]) auto
  have "Term (slog s p ! (idx - 1)) = currentTerm n"
    using log_term_all [OF k(3,4), of "idx - 1"] il c d(11) by auto
  moreover have "\<forall>m \<in> insert p ?G. idx \<le> acked s m (currentTerm n)" using le(2,3) il by (auto intro: le_trans)
  ultimately have cm: "committed N s (currentTerm n) idx" unfolding committed_def using le(1) il q by blast
  let ?s = "s\<lparr>scommit := (scommit s)(p := idx)\<rparr>"
  have st: "sstep N s ?s"
    by (rule sstep.learn [OF cm _ order_refl]) (use d(9,12) c il le(2) in simp_all)
  have "psteps N p s ?s" by (rule pstepsI [OF d(1,5) st]) simp_all
  moreover have "in_sync b 0 ?n'"
    using c by (intro in_sync_cong [OF k(1)]) (simp_all add: notifyReplicatorsLocked_def noteCommitProgressLocked_def)
  then have "node_ok b N p ?n'"
    using d(6) c k(10) by (simp add: node_ok_def notifyReplicatorsLocked_def noteCommitProgressLocked_def)
  moreover have "sim_node ?s p ?n'"
    using d(7) by (auto simp: sim_node_def notifyReplicatorsLocked_def noteCommitProgressLocked_def)
  ultimately show ?thesis by (auto simp: impl_def maybeAdvanceCommitLocked_def Some)
qed

text \<open>Changes of the leader's bookkeeping.\<close>

lemma impl_books:
  assumes p: "placed N b p s n" and "role n = Leader"
    and n': "n' = n\<lparr>lastContact := x, matchIndex := mi, nextIndex := ni\<rparr>"
    and "\<forall>r. mi r \<le> acked s r (currentTerm n)" and "\<forall>r \<in> set (peers n). 0 < ni r"
  shows "impl N b p s s n'"
proof -
  have "in_sync b 0 n'" by (rule in_sync_cong [OF node_okD(1) [OF placedD(6) [OF p]]]) (simp_all add: n')
  then have "node_ok b N p n'" using placedD(6) [OF p] by (simp add: node_ok_def n')
  moreover have "sim_node s p n'" using placedD(7) [OF p] assms(2,4,5) by (auto simp: sim_node_def n')
  ultimately show ?thesis using psteps_refl [OF placedD(5) [OF p]] by (simp add: impl_def)
qed

lemma impl_response:
  assumes p: "placed N b p s n" and ok: "aresp_ok s (r, req, resp)"
    and run: "onAppendResponse ev r (aeTerm req) req resp n = (x, n')" and t: "currentTerm n' < 2 ^ 64"
  shows "\<exists>s'. impl N b p s s' n'"
proof -
  let ?t = "aeTerm req" and ?m = "PrevLogIndex req + length (Entries req)"
  let ?c = "lastContact (noteContactLocked ev r n)"
  let ?a = "n\<lparr>lastContact := ?c, matchIndex := (matchIndex n)(r := max ?m (matchIndex n r)),
    nextIndex := (nextIndex n)(r := max (?m + 1) (nextIndex n r))\<rparr>"
  let ?b = "n\<lparr>lastContact := ?c, matchIndex := matchIndex n,
    nextIndex := (nextIndex n)(r := backupIndex r resp (noteContactLocked ev r n))\<rparr>"
  have ab: "raiseMatch r ?m (noteContactLocked ev r n) = ?a"
    "setNext r (backupIndex r resp (noteContactLocked ev r n)) (noteContactLocked ev r n) = ?b"
    by (simp_all add: raiseMatch_def setNext_def noteContactLocked_def)
  define na nb where "na = ?a" and "nb = ?b"
  have "n' = n \<or> n' = becomeFollowerLocked ev (aerTerm resp) n \<and> currentTerm n < aerTerm resp \<or>
    role n = Leader \<and> currentTerm n = ?t \<and> Success resp \<and> n' = maybeAdvanceCommitLocked ev na \<or>
    role n = Leader \<and> n' = nb"
    using run unfolding onAppendResponse_def Let_def ab na_def [symmetric] nb_def [symmetric]
    by (simp split: if_splits)
  then consider "n' = n" | "n' = becomeFollowerLocked ev (aerTerm resp) n" "currentTerm n < aerTerm resp"
    | "role n = Leader" "currentTerm n = ?t" "Success resp" "n' = maybeAdvanceCommitLocked ev ?a"
    | "role n = Leader" "n' = ?b"
    unfolding na_def nb_def by blast
  then show ?thesis
  proof cases
    case 1
    then show ?thesis using impl_refl [OF p] by blast
  next
    case 2
    then show ?thesis using impl_bump [OF p 2(2), of ev] t by auto
  next
    case 3
    have le: "\<forall>r. matchIndex n r \<le> acked s r ?t" "\<forall>r \<in> set (peers n). 0 < nextIndex n r"
      using placedD(7) [OF p] 3(1,2) by (auto simp: sim_node_def)
    have i: "impl N b p s s ?a"
      by (rule impl_books [OF p 3(1) refl]) (use le ok 3 in \<open>auto simp: aresp_ok_def\<close>)
    have "role ?a = Leader" using 3(1) by simp
    from impl_commit [OF impl_placed [OF p i] this, of ev] impl_trans [OF i] 3(4) show ?thesis by blast
  next
    case 4
    have le: "\<forall>r. matchIndex n r \<le> acked s r (currentTerm n)" "\<forall>r \<in> set (peers n). 0 < nextIndex n r"
      using placedD(7) [OF p] 4(1) by (auto simp: sim_node_def)
    have "0 < backupIndex r resp m" for m by (simp add: backupIndex_def Let_def)
    then have "impl N b p s s ?b" by (intro impl_books [OF p 4(1) refl]) (use le in auto)
    then show ?thesis using 4(2) by blast
  qed
qed

lemma impl_pong:
  assumes p: "placed N b p s n" and run: "onHeartbeatResponse ev r t resp n = (x, n')" and t: "currentTerm n' < 2 ^ 64"
  shows "\<exists>s'. impl N b p s s' n'"
proof -
  have la: "lastApplied n \<le> commitIndex n" by (rule node_okD(10) [OF placedD(6) [OF p]])
  then have "quietly n (noteContactLocked ev r n)" "quietly n n" by (auto simp: quietly_def noteContactLocked_def)
  then have "quietly n n' \<or> n' = becomeFollowerLocked ev (aerTerm resp) n \<and> currentTerm n < aerTerm resp"
    using run by (auto simp: onHeartbeatResponse_def split: if_splits)
  then show ?thesis using impl_quiet [OF p] impl_bump [OF p, of "aerTerm resp" ev] t by auto
qed

section \<open>The applier, and restarts\<close>

lemma impl_deliver:
  assumes p: "placed N b p s n" and run: "applierStep n = Some (msgs, n')"
  shows "impl N b p s s n'"
proof -
  note k = node_okD [OF placedD(6) [OF p]]
  have "n' = n\<lparr>lastApplied := commitIndex n\<rparr>"
    using run k(6,11) by (auto simp: applierStep_def split: option.splits)
  then show ?thesis by (intro impl_quiet [OF p]) (simp add: quietly_def)
qed

lemma impl_reboot:
  assumes p: "placed N b p s n" and m: "members N cfg" and b: "pb ev = b"
    and cr: "crash (snd (persist n)) w" "faults w = []" and run: "NewNode ev (cfg p) w = (Inr n', w')"
  shows "\<exists>s'. impl N b p s s' n'"
proof -
  note d = placedD [OF p] and k = node_okD [OF placedD(6) [OF p]]
  have sync: "in_sync (pb ev) 0 n" using k(1) b by simp
  obtain n2 w2 where r: "NewNode ev (cfg p) w = (Inr n2, w2)" "restarted n n2" "in_sync (pb ev) 0 n2"
    "p_healthy (persist n2)" "firstIndex (nlog n2) = 0" "nid n2 = cfgID (cfg p)" "peers n2 = cfgPeers (cfg p)"
    "\<not> stopped n2" "pendingSnapshot n2 = None"
    using restart_in_sync [OF sync k(3) cr, of "cfg p"] by blast
  have n2: "n2 = n'" using r(1) run by simp
  note q = r(2) [unfolded n2 restarted_def r(5) [unfolded n2]]
  have wf: "wf_log (nlog n')" and f: "firstIndex (nlog n') = 0" using q r(5) n2 by auto
  have al: "allEntries (nlog n') = allEntries (nlog n)"
    using restarted_entries [OF _ k(3,4) f] r(2) n2 by simp
  have "log_term (nlog n') 0 = log_term (nlog n) 0" using q by simp
  then have z: "Term (entries (nlog n') ! 0) = 0" using f k(4,5) by (simp add: log_term_def)
  let ?s = "s\<lparr>scommit := (scommit s)(p := 0)\<rparr>"
  have st: "sstep N s ?s" by (rule sstep.restart)
  have "psteps N p s ?s" by (rule pstepsI [OF d(1,5) st]) simp_all
  moreover have "cfgID (cfg p) = p" "set (cfgPeers (cfg p)) = N - {p}" "distinct (cfgPeers (cfg p))"
    using m d(2) by (auto simp: members_def)
  then have "node_ok b N p n'"
    unfolding node_ok_def using r(3-9) n2 b wf f z q al k(15) by simp
  moreover have "sim_node ?s p n'" using d(9-11) q al by (simp add: sim_node_def)
  ultimately show ?thesis by (auto simp: impl_def)
qed

section \<open>The refinement\<close>

lemma simulates_placed: "simulates N b c s \<Longrightarrow> members N cfg \<Longrightarrow> p \<in> N \<Longrightarrow> placed N b p s (nodes c p)"
  by (simp add: placed_def simulates_def members_def)

lemma set_node_simps [simp]:
  "nodes (set_node p n c) = (nodes c)(p := n)" "running (set_node p n c) = running c"
  "vreqs (set_node p n c) = vreqs c" "vresps (set_node p n c) = vresps c" "areqs (set_node p n c) = areqs c"
  "aresps (set_node p n c) = aresps c"
  by (simp_all add: set_node_def)

lemma net_ok_impl: "simulates N b c s \<Longrightarrow> impl N b p s s' n \<Longrightarrow> net_ok N b s' c"
  using net_ok_grows [OF impl_grows] by (auto simp: simulates_def)

lemma simulates_started:
  assumes sim: "simulates N b c s" and st: "starts N b p s r" and nodes: "nodes c' = nodes c" and net: "vreqs c' = vreqs c"
      "vresps c' = vresps c" "areqs c' = areqs c" "aresps c' = aresps c"
    and run: "\<And>s' q. sgrows s s' \<Longrightarrow> q \<in> N \<Longrightarrow> \<forall>x \<in> set (running c' q). poll_ok N s' q x"
  shows "\<exists>s'. simulates N b (started p r c') s' \<and> sgrows s s'"
proof -
  obtain n x where r: "r = (n, x)" by fastforce
  obtain s' where i: "impl N b p s s' n"
    and q: "\<And>q. x = Some q \<Longrightarrow> vreq_ok s' (pollRequest n q) \<and> poll_ok N s' p (q, set (peers n))"
    using st unfolding r starts_def by blast
  note nk = net_ok_impl [OF sim i, unfolded net_ok_def] and g = impl_grows [OF i]
  have "net_ok N b s' (started p r c')"
    using nk net q run [OF g] unfolding net_ok_def
    by (cases x) (auto simp: r started_def split: if_splits)
  then have "simulates N b (started p r c') s'"
    by (rule simulates_update [OF sim i, rotated]) (cases x; simp add: r started_def nodes)
  with g show ?thesis by blast
qed

lemma polls_grow: "simulates N b c s \<Longrightarrow> sgrows s s' \<Longrightarrow> q \<in> N \<Longrightarrow> \<forall>x \<in> set (running c q). poll_ok N s' q x"
  using poll_ok_grows by (auto simp: simulates_def net_ok_def)

lemma simulates_step:
  assumes sim: "simulates N b c s" and m: "members N cfg" and w: "within c" "within c'" and st: "cstep N cfg b c c'"
  shows "\<exists>s'. simulates N b c' s' \<and> sgrows s s'"
proof -
  note pl = simulates_placed [OF sim m]
  have t: "currentTerm (nodes c' p) < 2 ^ 64" and li: "lastIndex (nlog (nodes c p)) < 2 ^ 64" for p
    using w by (auto simp: within_def)
  have nk: "net_ok N b s c" using sim by (simp add: simulates_def)
  have same: "\<exists>s'. simulates N b (set_node p n' c) s' \<and> sgrows s s'" if "\<exists>s'. impl N b p s s' n'" for p n'
    using that simulates_set_node [OF sim] impl_grows by blast
  from st show ?thesis
  proof cases
    case (tick p ev)
    have "nodes c' p = fst (electionTick ev (nodes c p))"
      by (auto simp: tick(1) started_def split: prod.split option.split)
    then have "starts N b p s (electionTick ev (nodes c p))"
      using starts_tick [OF pl [OF tick(2)], of ev] t [of p] by simp
    from simulates_started [OF sim this, of c] polls_grow [OF sim] show ?thesis unfolding tick(1) by simp
  next
    case (vote p ev req resp n')
    have "currentTerm n' < 2 ^ 64" using t [of p] by (simp add: vote(1))
    moreover have "vreq_ok s req" using nk vote(4) by (simp add: net_ok_def)
    ultimately obtain s' where i: "impl N b p s s' n'" and v: "vresp_ok s' (req, p, resp)"
      using impl_vote [OF pl [OF vote(2)] _ vote(5,6)] by blast
    have "net_ok N b s' c'" using net_ok_impl [OF sim i] v by (simp add: vote(1) net_ok_def)
    from simulates_update [OF sim i _ this] impl_grows [OF i] show ?thesis by (auto simp: vote(1))
  next
    case (counted p ev k q pend r resp n' q')
    have q: "poll_ok N s p (q, pend)" using nk counted(2,4,5) unfolding net_ok_def by (metis nth_mem)
    have "vresp_ok s (pollRequest (nodes c p) q, r, resp)" using nk counted(8) by (simp add: net_ok_def)
    then have "VoteGranted resp \<Longrightarrow> \<exists>g. (r, pl_term q, p, g) \<in> grants s"
      using counted(6) node_okD(7) [OF placedD(6) [OF pl [OF counted(2)]]] by (simp add: vresp_ok_def)
    moreover have "currentTerm n' < 2 ^ 64" using t [of p] by (simp add: counted(1) answered_def)
    ultimately obtain s' where i: "impl N b p s s' n'" and v: "poll_ok N s' p (q', pend - {r})"
      using impl_vote_response [OF pl [OF counted(2)] counted(9,6) _ q counted(7)] by blast
    have "net_ok N b s' c'"
      using net_ok_impl [OF sim i] v unfolding net_ok_def
      by (auto simp: counted(1) answered_def split: if_splits dest!: set_update_subset_insert [THEN subsetD])
    from simulates_update [OF sim i _ this] impl_grows [OF i] show ?thesis by (auto simp: counted(1) answered_def)
  next
    case (precounted p ev k q pend r resp n' q' x)
    let ?c = "answered p k (q', pend - {r}) c"
    have "poll_ok N s p (q, pend)" using nk precounted(2,4,5) unfolding net_ok_def by (metis nth_mem)
    then have pend: "pend \<subseteq> N - {p}" by (simp add: poll_ok_def)
    have "currentTerm n' < 2 ^ 64" using t [of p] by (cases x) (simp_all add: precounted(1) started_def)
    note sp = starts_prevote_response [OF pl [OF precounted(2)] precounted(9,6) this pend]
    have "\<forall>y \<in> set (running ?c u). poll_ok N s' u y" if "sgrows s s'" "u \<in> N" for s' u
      using polls_grow [OF sim that] sp(2) [of s' r]
      by (auto simp: answered_def split: if_splits dest!: set_update_subset_insert [THEN subsetD])
    from simulates_started [OF sim sp(1), of ?c] this show ?thesis
      unfolding precounted(1) by (simp add: answered_def)
  next
    case (batch p ev ds res n')
    from same [OF impl_batch [OF pl [OF batch(2)] batch(3,4,5)]] show ?thesis by (simp add: batch(1))
  next
    case (send p r t req n')
    note so = send_ok [OF pl [OF send(2)] send(3,4)]
    have "net_ok N b s c'" using nk so(2) by (simp add: send(1) net_ok_def)
    from simulates_update [OF sim impl_refl [OF pl [OF send(2)]] _ this] show ?thesis
      by (auto simp: send(1) so(1) intro!: exI [of _ s])
  next
    case (heartbeat p r t req)
    note so = heartbeat_ok [OF pl [OF heartbeat(2)] heartbeat(3,4)]
    have "net_ok N b s c'" using nk so by (simp add: heartbeat(1) net_ok_def)
    from simulates_update [OF sim impl_refl [OF pl [OF heartbeat(2)]] _ this] show ?thesis
      by (auto simp: heartbeat(1) intro!: exI [of _ s])
  next
    case (receive p ev req resp n')
    have "currentTerm n' < 2 ^ 64" using t [of p] by (simp add: receive(1))
    moreover have "areq_ok N b s (p, req)" using nk receive(4) by (simp add: net_ok_def)
    ultimately obtain s' where i: "impl N b p s s' n'" and v: "aresp_ok s' (p, req, resp)"
      using impl_append [OF pl [OF receive(2)] receive(3) _ receive(5) _ li] by blast
    have "net_ok N b s' c'" using net_ok_impl [OF sim i] v by (simp add: receive(1) net_ok_def)
    from simulates_update [OF sim i _ this] impl_grows [OF i] show ?thesis by (auto simp: receive(1))
  next
    case (response p ev r req resp x n')
    have "aresp_ok s (r, req, resp)" using nk response(4) by (simp add: net_ok_def)
    moreover have "currentTerm n' < 2 ^ 64" using t [of p] by (simp add: response(1))
    ultimately show ?thesis
      using same [OF impl_response [OF pl [OF response(2)] _ response(6)]] by (simp add: response(1))
  next
    case (pong p ev r req resp x n')
    have "currentTerm n' < 2 ^ 64" using t [of p] by (simp add: pong(1))
    from same [OF impl_pong [OF pl [OF pong(2)] pong(6) this]] show ?thesis by (simp add: pong(1))
  next
    case (lease p ev t i x n')
    have "quietly (nodes c p) n'"
      using lease(4) node_okD(10) [OF placedD(6) [OF pl [OF lease(2)]]]
      by (auto simp: readConfirmed_def Let_def quietly_def)
    then have "\<exists>s'. impl N b p s s' n'" using impl_quiet [OF pl [OF lease(2)]] by blast
    from same [OF this] show ?thesis by (simp add: lease(1))
  next
    case (deliver p msgs n')
    have "\<exists>s'. impl N b p s s' n'" using impl_deliver [OF pl [OF deliver(2)] deliver(3)] by blast
    from same [OF this] show ?thesis by (simp add: deliver(1))
  next
    case (reboot p ev wo n' w')
    obtain s' where i: "impl N b p s s' n'"
      using impl_reboot [OF pl [OF reboot(2)] m reboot(3-6)] by blast
    have "net_ok N b s' c'" using net_ok_impl [OF sim i] by (simp add: reboot(1) net_ok_def)
    from simulates_update [OF sim i _ this] impl_grows [OF i] show ?thesis by (auto simp: reboot(1))
  qed
qed

text \<open>Runs from a given state.\<close>

inductive cruns :: "nat set \<Rightarrow> (nat \<Rightarrow> Config) \<Rightarrow> pbcodec \<Rightarrow> cluster \<Rightarrow> cluster \<Rightarrow> bool" for N cfg b c where
  cruns_refl: "cruns N cfg b c c"
| cruns_step: "cruns N cfg b c c' \<Longrightarrow> cstep N cfg b c' c'' \<Longrightarrow> within c'' \<Longrightarrow> cruns N cfg b c c''"

lemma cruns_trans:
  assumes "cruns N cfg b c c'" and "cruns N cfg b c' c''"
  shows "cruns N cfg b c c''"
  using assms(2,1) by induction (auto intro: cruns_step)

lemma node_ok_init:
  assumes "members N cfg" and "p \<in> N"
  shows "node_ok b N p (nodeOf ev (cfg p) (fresh_persist []) emptyState)"
proof -
  let ?n = "nodeOf ev (cfg p) (fresh_persist []) emptyState"
  have l: "nlog ?n = newRaftLog 0 0" by (simp add: emptyState_def log_append_def)
  have "mirrors emptyState ?n"
    by (simp add: mirrors_def emptyState_def allEntries_def newRaftLog_def log_term_def firstIndex_def
        lastIndex_def sentinel_def log_append_def)
  moreover have "recovers b {emptyState} {emptyState} (persist ?n)" by (simp add: fresh_persist_recovers)
  moreover have "ps_snapIndex emptyState = 0" by (simp add: emptyState_def)
  ultimately have "in_sync b 0 ?n" by (intro in_syncI)
  moreover have "pendingSnapshot ?n = None" by (simp add: nodeOf_def emptyState_def)
  moreover have "cfgID (cfg p) = p" "set (cfgPeers (cfg p)) = N - {p}" "distinct (cfgPeers (cfg p))"
    using assms by (auto simp: members_def)
  ultimately show ?thesis
    unfolding node_ok_def l
    by (simp add: fresh_persist_healthy emptyState_def) (simp add: newRaftLog_def sentinel_def allEntries_def)
qed

lemma simulates_init:
  assumes "cinit cfg b c" and "members N cfg"
  shows "simulates N b c sinit" and "within c"
proof -
  obtain ev where n: "\<And>p. nodes c p = nodeOf ev (cfg p) (fresh_persist []) emptyState"
    using assms(1) by (auto simp: cinit_def)
  have l: "nlog (nodes c p) = newRaftLog 0 0" "currentTerm (nodes c p) = 0" "votedFor (nodes c p) = 0"
    "commitIndex (nodes c p) = 0" "role (nodes c p) = Follower" for p
    by (simp_all add: n emptyState_def log_append_def noVote_def)
  show "within c" by (simp add: within_def l)
  have "sim_node sinit p (nodes c p)" for p
    by (simp add: sim_node_def sinit_def l) (simp add: newRaftLog_def allEntries_def)
  moreover have "net_ok N b sinit c" using assms(1) by (simp add: net_ok_def cinit_def)
  ultimately show "simulates N b c sinit"
    using node_ok_init [OF assms(2)] by (simp add: simulates_def n sreach_init)
qed

lemma cruns_simulates:
  assumes "cruns N cfg b c c'" and "members N cfg" and "simulates N b c s" and "within c"
  shows "within c' \<and> (\<exists>s'. simulates N b c' s' \<and> sgrows s s')"
  using assms
proof induction
  case cruns_refl
  then show ?case using sgrows_refl by blast
next
  case (cruns_step c' c'')
  then obtain s' where "within c'" "simulates N b c' s'" "sgrows s s'" by blast
  with simulates_step [OF this(2) cruns_step.prems(1) this(1) cruns_step.hyps(3,2)] cruns_step.hyps(3) sgrows_trans
  show ?case by blast
qed

lemma creach_simulates:
  assumes "creach N cfg b c" and "members N cfg"
  shows "within c \<and> (\<exists>s. simulates N b c s)"
  using assms
proof induction
  case (creach_init c)
  then show ?case using simulates_init by blast
next
  case (creach_step c c')
  then show ?case using simulates_step by blast
qed

lemma simulatesD:
  assumes "simulates N b c s" and "p \<in> N"
  shows "node_ok b N p (nodes c p)" and "sim_node s p (nodes c p)" and "sreach N s"
  using assms by (auto simp: simulates_def)

end
