(* ===== verification/ClusterExample.thy ===== *)
theory ClusterExample
  imports ClusterRefines KvCommand
begin

text \<open>
  A run of a cluster of two nodes: a pre-vote, an election, a proposal, its replication and
  its commit. It shows that the cluster model reaches states with committed entries.
\<close>

definition pair_cfg :: "nat \<Rightarrow> Config" where
  "pair_cfg p = some_cfg p (if p = 2 then [3] else [2])"

definition pair_init :: cluster where
  "pair_init = \<lparr>nodes = (\<lambda>p. nodeOf some_env (pair_cfg p) (fresh_persist []) emptyState), running = (\<lambda>_. []),
     vreqs = {}, vresps = {}, areqs = {}, aresps = {}\<rparr>"

definition late :: env where
  "late = some_env\<lparr>now := 20 * 1000 * Millisecond\<rparr>"

definition pair_node :: "nat \<Rightarrow> Node" where
  "pair_node p = nodeOf some_env (pair_cfg p) (fresh_persist []) emptyState"

lemma pair_members: "members {2, 3} pair_cfg"
  by (auto simp: members_def pair_cfg_def some_cfg_def)

lemma pair_env [simp]: "pb late = some_pb" "now late = 20000000000" "Int63n late k = 0"
  "pb some_env = some_pb" "now some_env = 10000000000" "Int63n some_env k = 0"
  by (simp_all add: late_def some_env_def Millisecond_def)

lemma pair_node_simps [simp]:
  "currentTerm (pair_node p) = 0" "votedFor (pair_node p) = 0" "role (pair_node p) = Follower"
  "nlog (pair_node p) = newRaftLog 0 0" "persist (pair_node p) = fresh_persist []" "commitIndex (pair_node p) = 0"
  "lastApplied (pair_node p) = 0" "stopped (pair_node p) = False" "nid (pair_node p) = p"
  "peers (pair_node p) = (if p = 2 then [3] else [2])" "leaderID (pair_node p) = 0" "pendingSnapshot (pair_node p) = None"
  "preVoteRound (pair_node p) = 0" "electionReset (pair_node p) = 10000000000"
  "electionTimeout (pair_node p) = 750000000" "ElectionTimeoutMin (tm (pair_node p)) = 750000000"
  by (simp_all add: pair_node_def nodeOf_def pair_cfg_def some_cfg_def emptyState_def log_append_def noVote_def
      resetElectionTimerLocked_def Let_def withDefaults_def DefaultTimings_def Millisecond_def)

text \<open>The candidate after its pre-vote and after its election has started.\<close>

definition pre_poll :: poll where
  "pre_poll = \<lparr>pl_pre = True, pl_term = 0, pl_round = 1, pl_lastIdx = 0, pl_lastTerm = 0, pl_votes = 1\<rparr>"

definition real_poll :: poll where
  "real_poll = \<lparr>pl_pre = False, pl_term = 1, pl_round = 1, pl_lastIdx = 0, pl_lastTerm = 0, pl_votes = 1\<rparr>"

definition looks :: "Role \<Rightarrow> nat \<Rightarrow> nat \<Rightarrow> raftLog \<Rightarrow> Node \<Rightarrow> bool" where
  "looks r t p l n \<longleftrightarrow> role n = r \<and> currentTerm n = t \<and> nid n = p \<and> nlog n = l \<and> commitIndex n = 0 \<and> lastApplied n = 0 \<and> \<not> stopped n \<and>
     p_healthy (persist n) \<and> peers n = (if p = 2 then [3] else [2])"

text \<open>The state of the cluster between the steps.\<close>

inductive unapplied_runs :: "cluster \<Rightarrow> bool" where
  unapplied_init: "unapplied_runs pair_init"
| unapplied_step: "unapplied_runs c \<Longrightarrow> cstep {2, 3} pair_cfg some_pb c c' \<Longrightarrow> within c' \<Longrightarrow>
    \<forall>p. lastApplied (nodes c' p) = 0 \<Longrightarrow> unapplied_runs c'"

lemma pair_cinit: "cinit pair_cfg some_pb pair_init"
  by (auto simp: cinit_def pair_init_def intro!: exI [of _ some_env])

lemma unapplied_creach: "unapplied_runs c \<Longrightarrow> creach {2, 3} pair_cfg some_pb c"
  by (induction rule: unapplied_runs.induct) (auto intro: creach_init creach_step pair_cinit)

definition stage :: "(Node \<Rightarrow> bool) \<Rightarrow> (Node \<Rightarrow> bool) \<Rightarrow> (cluster \<Rightarrow> bool) \<Rightarrow> bool" where
  "stage A B M \<longleftrightarrow> (\<exists>c. unapplied_runs c \<and> A (nodes c 2) \<and> B (nodes c 3) \<and> M c \<and>
     (\<forall>p. p \<noteq> 2 \<longrightarrow> p \<noteq> 3 \<longrightarrow> nodes c p = pair_node p))"

lemma stageE:
  assumes "stage A B M"
  obtains c where "unapplied_runs c" and "A (nodes c 2)" and "B (nodes c 3)" and "M c"
    and "\<forall>p. p \<noteq> 2 \<longrightarrow> p \<noteq> 3 \<longrightarrow> nodes c p = pair_node p"
  using assms by (auto simp: stage_def)

lemma stageI:
  assumes "unapplied_runs c" and "cstep {2, 3} pair_cfg some_pb c c'" and "A (nodes c' 2)" and "B (nodes c' 3)"
    and "M c'" and "\<forall>p. p \<noteq> 2 \<longrightarrow> p \<noteq> 3 \<longrightarrow> nodes c' p = pair_node p"
    and "currentTerm (nodes c' 2) \<le> 1" "currentTerm (nodes c' 3) \<le> 1"
    and "lastIndex (nlog (nodes c' 2)) \<le> 1" "lastIndex (nlog (nodes c' 3)) \<le> 1"
    and "lastApplied (nodes c' 2) = 0" "lastApplied (nodes c' 3) = 0"
  shows "stage A B M"
proof -
  have n: "currentTerm (nodes c' p) \<le> 1 \<and> lastIndex (nlog (nodes c' p)) \<le> 1 \<and> lastApplied (nodes c' p) = 0" for p
    using assms(6-12) by (cases "p = 2"; cases "p = 3") auto
  moreover have "(1 :: nat) < 2 ^ 64" by simp
  ultimately have "within c'" unfolding within_def using le_less_trans by blast
  with unapplied_step [OF assms(1,2)] n assms(3-6) show ?thesis by (auto simp: stage_def)
qed

lemma stage0: "stage (\<lambda>n. n = pair_node 2) (\<lambda>n. n = pair_node 3) (\<lambda>c. running c 2 = [])"
  using unapplied_init by (auto simp: stage_def pair_init_def pair_node_def intro!: exI [of _ pair_init])

lemma looks_pair [simp]: "looks Follower 0 p (newRaftLog 0 0) (pair_node p)"
  by (simp add: looks_def fresh_persist_healthy)

lemma stage1: "stage (\<lambda>n. looks Follower 0 2 (newRaftLog 0 0) n \<and> preVoteRound n = 1) (\<lambda>n. n = pair_node 3)
  (\<lambda>c. running c 2 = [(pre_poll, {3})] \<and> pollRequest (nodes c 2) pre_poll \<in> vreqs c)"
proof (rule stageE [OF stage0])
  fix c assume c: "unapplied_runs c" "nodes c 2 = pair_node 2" "nodes c 3 = pair_node 3"
    "running c 2 = []" "\<forall>p. p \<noteq> 2 \<longrightarrow> p \<noteq> 3 \<longrightarrow> nodes c p = pair_node p"
  obtain n where n: "electionTick late (pair_node 2) = (n, Some pre_poll)" "looks Follower 0 2 (newRaftLog 0 0) n" "preVoteRound n = 1"
    by (simp add: electionTick_def startPreVoteLocked_def majority_def since_def Let_def pre_poll_def looks_def
        fresh_persist_healthy)
  have "cstep {2, 3} pair_cfg some_pb c (started 2 (electionTick late (nodes c 2)) c)" by (rule cstep.tick) simp_all
  then show ?thesis
    by (rule stageI [OF c(1)]) (use n c(2-5) in \<open>simp_all add: started_def looks_def\<close>)
qed

lemma stage2: "stage (\<lambda>n. looks Follower 0 2 (newRaftLog 0 0) n \<and> preVoteRound n = 1) (\<lambda>n. n = pair_node 3)
  (\<lambda>c. running c 2 = [(pre_poll, {3})] \<and> (pollRequest (nodes c 2) pre_poll, 3, \<lparr>rvrTerm = 0, VoteGranted = True\<rparr>) \<in> vresps c)"
proof (rule stageE [OF stage1])
  fix c assume c: "unapplied_runs c" "looks Follower 0 2 (newRaftLog 0 0) (nodes c 2) \<and> preVoteRound (nodes c 2) = 1"
    "nodes c 3 = pair_node 3" "running c 2 = [(pre_poll, {3})] \<and> pollRequest (nodes c 2) pre_poll \<in> vreqs c"
    "\<forall>p. p \<noteq> 2 \<longrightarrow> p \<noteq> 3 \<longrightarrow> nodes c p = pair_node p"
  let ?r = "\<lparr>rvrTerm = 0, VoteGranted = True\<rparr>" and ?q = "pollRequest (nodes c 2) pre_poll"
  have run: "HandleRequestVote late ?q (nodes c 3) = (?r, nodes c 3)"
    by (simp add: HandleRequestVote_def c(3) pre_poll_def heardLeaderRecentlyLocked_def upToDate_def)
  have "cstep {2, 3} pair_cfg some_pb c ((set_node 3 (nodes c 3) c)\<lparr>vresps := insert (?q, 3, ?r) (vresps c)\<rparr>)"
    by (rule cstep.vote [OF _ _ _ _ run]) (use c(2,4) in \<open>simp_all add: looks_def\<close>)
  then show ?thesis
    by (rule stageI [OF c(1)]) (use c(2-5) in \<open>simp_all add: looks_def\<close>)
qed

lemma save_ok:
  "p_healthy q \<Longrightarrow> fst (saveHardState t u q) = Inr ()" "p_healthy q \<Longrightarrow> p_healthy (snd (saveHardState t u q))"
  using p_succeedsD [OF p_succeeds_saveHardState] by auto

lemma ex_election:
  assumes "looks Follower 0 2 (newRaftLog 0 0) n" and "preVoteRound n = 1"
  shows "\<exists>n'. startElectionLocked late n = (n', Some real_poll) \<and> looks Candidate 1 2 (newRaftLog 0 0) n'"
  using assms save_ok [of "persist n"]
  by (simp add: looks_def startElectionLocked_def Let_def persistHardState_eq majority_def real_poll_def)

lemma stage3: "stage (looks Candidate 1 2 (newRaftLog 0 0)) (\<lambda>n. n = pair_node 3)
  (\<lambda>c. length (running c 2) = 2 \<and> running c 2 ! 1 = (real_poll, {3}) \<and> pollRequest (nodes c 2) real_poll \<in> vreqs c)"
proof (rule stageE [OF stage2])
  fix c assume c: "unapplied_runs c" "looks Follower 0 2 (newRaftLog 0 0) (nodes c 2) \<and> preVoteRound (nodes c 2) = 1"
    "nodes c 3 = pair_node 3" "running c 2 = [(pre_poll, {3})] \<and>
      (pollRequest (nodes c 2) pre_poll, 3, \<lparr>rvrTerm = 0, VoteGranted = True\<rparr>) \<in> vresps c"
    "\<forall>p. p \<noteq> 2 \<longrightarrow> p \<noteq> 3 \<longrightarrow> nodes c p = pair_node p"
  obtain n' where n': "startElectionLocked late (nodes c 2) = (n', Some real_poll)" "looks Candidate 1 2 (newRaftLog 0 0) n'"
    using ex_election c(2) by blast
  let ?q = "pre_poll\<lparr>pl_votes := 2\<rparr>"
  have run: "onPreVoteResponse late pre_poll \<lparr>rvrTerm = 0, VoteGranted = True\<rparr> (nodes c 2) = (n', ?q, Some real_poll)"
    using c(2) n'(1) by (simp add: onPreVoteResponse_def looks_def pre_poll_def majority_def)
  have "cstep {2, 3} pair_cfg some_pb c (started 2 (n', Some real_poll) (answered 2 0 (?q, {3} - {3}) c))"
    by (rule cstep.precounted [OF _ _ _ _ _ _ _ run]) (use c(4) in \<open>simp_all add: pre_poll_def\<close>)
  then show ?thesis
    by (rule stageI [OF c(1)]) (use c(3-5) n'(2) in \<open>simp_all add: started_def answered_def looks_def\<close>)
qed

lemma ex_vote:
  assumes "looks Candidate 1 2 (newRaftLog 0 0) n"
  shows "\<exists>n'. HandleRequestVote late (pollRequest n real_poll) (pair_node 3) = (\<lparr>rvrTerm = 1, VoteGranted = True\<rparr>, n') \<and>
    looks Follower 1 3 (newRaftLog 0 0) n'"
  using save_ok [of "fresh_persist []" 1 noVote] save_ok [of "snd (saveHardState 1 noVote (fresh_persist []))" 1 2]
    fresh_persist_healthy assms
  by (simp add: HandleRequestVote_def real_poll_def heardLeaderRecentlyLocked_def upToDate_def persistHardState_eq looks_def)

lemma stage4: "stage (looks Candidate 1 2 (newRaftLog 0 0)) (looks Follower 1 3 (newRaftLog 0 0))
  (\<lambda>c. length (running c 2) = 2 \<and> running c 2 ! 1 = (real_poll, {3}) \<and>
    (pollRequest (nodes c 2) real_poll, 3, \<lparr>rvrTerm = 1, VoteGranted = True\<rparr>) \<in> vresps c)"
proof (rule stageE [OF stage3])
  fix c assume c: "unapplied_runs c" "looks Candidate 1 2 (newRaftLog 0 0) (nodes c 2)" "nodes c 3 = pair_node 3"
    "length (running c 2) = 2 \<and> running c 2 ! 1 = (real_poll, {3}) \<and> pollRequest (nodes c 2) real_poll \<in> vreqs c"
    "\<forall>p. p \<noteq> 2 \<longrightarrow> p \<noteq> 3 \<longrightarrow> nodes c p = pair_node p"
  let ?r = "\<lparr>rvrTerm = 1, VoteGranted = True\<rparr>" and ?q = "pollRequest (nodes c 2) real_poll"
  obtain n' where n': "HandleRequestVote late ?q (pair_node 3) = (?r, n')" "looks Follower 1 3 (newRaftLog 0 0) n'"
    using ex_vote [OF c(2)] by blast
  have "cstep {2, 3} pair_cfg some_pb c ((set_node 3 n' c)\<lparr>vresps := insert (?q, 3, ?r) (vresps c)\<rparr>)"
    by (rule cstep.vote [of _ _ late]) (use c n' in \<open>simp_all add: looks_def\<close>)
  then show ?thesis
    by (rule stageI [OF c(1)]) (use c(2,4,5) n'(2) in \<open>simp_all add: looks_def\<close>)
qed

lemma stage5: "stage (\<lambda>n. looks Leader 1 2 (newRaftLog 0 0) n \<and> nextIndex n 3 = 1)
  (looks Follower 1 3 (newRaftLog 0 0)) (\<lambda>c. True)"
proof (rule stageE [OF stage4])
  fix c assume c: "unapplied_runs c" "looks Candidate 1 2 (newRaftLog 0 0) (nodes c 2)"
    "looks Follower 1 3 (newRaftLog 0 0) (nodes c 3)"
    "length (running c 2) = 2 \<and> running c 2 ! 1 = (real_poll, {3}) \<and>
      (pollRequest (nodes c 2) real_poll, 3, \<lparr>rvrTerm = 1, VoteGranted = True\<rparr>) \<in> vresps c"
    "\<forall>p. p \<noteq> 2 \<longrightarrow> p \<noteq> 3 \<longrightarrow> nodes c p = pair_node p"
  let ?q = "real_poll\<lparr>pl_votes := 2\<rparr>"
  let ?n = "becomeLeaderLocked late (nodes c 2)"
  have run: "onVoteResponse late real_poll \<lparr>rvrTerm = 1, VoteGranted = True\<rparr> (nodes c 2) = (?n, ?q)"
    using c(2) by (simp add: onVoteResponse_def looks_def real_poll_def majority_def)
  have "cstep {2, 3} pair_cfg some_pb c (answered 2 1 (?q, {3} - {3}) (set_node 2 ?n c))"
    by (rule cstep.counted [OF _ _ _ _ _ _ _ run]) (use c(4) in \<open>simp_all add: real_poll_def\<close>)
  then show ?thesis
  proof (rule stageI [OF c(1)])
    show "looks Leader 1 2 (newRaftLog 0 0) (nodes (answered 2 1 (?q, {3} - {3}) (set_node 2 ?n c)) 2) \<and>
      nextIndex (nodes (answered 2 1 (?q, {3} - {3}) (set_node 2 ?n c)) 2) 3 = 1"
      using c(2) by (simp add: looks_def answered_def) (simp add: becomeLeaderLocked_def)
  qed (use c(2,3,5) in \<open>simp_all add: answered_def looks_def\<close>)
qed

definition first_data :: bytes where
  "first_data = Encode \<lparr>kv_Op = OpPut_kv, ClientID = [65], RequestID = 1, kv_Key = [1], kv_Value = [7], Expect = []\<rparr>"

lemma length_first_data [simp]: "length first_data = 24"
  by (simp add: first_data_def)

definition first_entry :: LogEntry where
  "first_entry = \<lparr>Index = 1, Term = 1, Data = first_data\<rparr>"

definition first_append :: AppendEntriesRequest where
  "first_append = \<lparr>aeTerm = 1, LeaderId = 2, PrevLogIndex = 0, PrevLogTerm = 0, Entries = [first_entry], LeaderCommit = 0\<rparr>"

abbreviation one_log :: raftLog where
  "one_log \<equiv> log_append [first_entry] (newRaftLog 0 0)"

lemma one_log_simps [simp]:
  "lastIndex one_log = 1" "firstIndex one_log = 0" "log_suffix one_log 1 = [first_entry]" "log_term one_log 0 = (0, True)"
  "log_term one_log 1 = (1, True)" "log_entry one_log 1 = Some first_entry" "allEntries one_log = [first_entry]"
  by (simp_all add: log_append_def newRaftLog_def lastIndex_def firstIndex_def log_suffix_def log_term_def log_entry_def
      first_entry_def sentinel_def allEntries_def)

lemma stage6: "stage (\<lambda>n. looks Leader 1 2 one_log n \<and> nextIndex n 3 = 1) (looks Follower 1 3 (newRaftLog 0 0)) (\<lambda>c. True)"
proof (rule stageE [OF stage5])
  fix c assume c: "unapplied_runs c"
    "looks Leader 1 2 (newRaftLog 0 0) (nodes c 2) \<and> nextIndex (nodes c 2) 3 = 1"
    "looks Follower 1 3 (newRaftLog 0 0) (nodes c 3)" "\<forall>p. p \<noteq> 2 \<longrightarrow> p \<noteq> 3 \<longrightarrow> nodes c p = pair_node p"
  let ?n = "nodes c 2"
  have be: "batchEntries (currentTerm ?n) [first_data] (nlog ?n) = ([first_entry], one_log)"
    using c(2) by (simp add: looks_def first_entry_def Let_def)
  obtain q where q: "appendEntries some_pb [first_entry] (persist ?n) = (Inr (), q)" "p_healthy q"
    using p_succeedsD [OF p_succeeds_appendEntries, of some_pb "[first_entry]" "persist ?n"] c(2)
    by (cases "appendEntries some_pb [first_entry] (persist ?n)") (auto simp: looks_def first_entry_def some_pb_ok)
  let ?m = "notifyReplicatorsLocked (?n\<lparr>nlog := one_log, persist := q\<rparr>)"
  obtain res where run: "commitPropBatch late [first_data] ?n = (res, ?m)"
    using c(2) be q(1) by (simp add: commitPropBatch_def looks_def)
  have ok: "list_all (codec_ok some_pb) (fst (batchEntries (currentTerm ?n) [first_data] (nlog ?n)))"
    unfolding be by (simp add: first_entry_def some_pb_ok)
  have "cstep {2, 3} pair_cfg some_pb c (set_node 2 ?m c)"
    by (rule cstep.batch [OF _ _ run ok]) simp_all
  then show ?thesis
    by (rule stageI [OF c(1)]) (use c(2-4) q(2) in \<open>simp_all add: looks_def notifyReplicatorsLocked_def\<close>)
qed

lemma stage7: "stage (\<lambda>n. looks Leader 1 2 one_log n \<and> nextIndex n 3 = 1) (looks Follower 1 3 (newRaftLog 0 0))
  (\<lambda>c. (3, first_append) \<in> areqs c)"
proof (rule stageE [OF stage6])
  fix c assume c: "unapplied_runs c" "looks Leader 1 2 one_log (nodes c 2) \<and> nextIndex (nodes c 2) 3 = 1"
    "looks Follower 1 3 (newRaftLog 0 0) (nodes c 3)" "\<forall>p. p \<noteq> 2 \<longrightarrow> p \<noteq> 3 \<longrightarrow> nodes c p = pair_node p"
  have "prepareAppend 3 1 (nodes c 2) = (PassAppend first_append, nodes c 2)"
    using c(2) one_log_simps by (simp add: prepareAppend_def looks_def appendRequest_def first_append_def maxAppendEntries_def)
  then have "cstep {2, 3} pair_cfg some_pb c ((set_node 2 (nodes c 2) c)\<lparr>areqs := insert (3, first_append) (areqs c)\<rparr>)"
    by (rule cstep.send [rotated 2]) (use c(2) in \<open>simp_all add: looks_def\<close>)
  then show ?thesis
    by (rule stageI [OF c(1)]) (use c(2-4) one_log_simps in \<open>simp_all add: looks_def\<close>)
qed

lemma merged_first: "merged (newRaftLog 0 0) [first_entry] = one_log"
  by (simp add: merged_def log_term_def first_entry_def)

lemma stage8: "stage (\<lambda>n. looks Leader 1 2 one_log n \<and> nextIndex n 3 = 1) (looks Follower 1 3 one_log)
  (\<lambda>c. \<exists>resp. (3, first_append, resp) \<in> aresps c \<and> Success resp \<and> aerTerm resp = 1)"
proof (rule stageE [OF stage7])
  fix c assume c: "unapplied_runs c" "looks Leader 1 2 one_log (nodes c 2) \<and> nextIndex (nodes c 2) 3 = 1"
    "looks Follower 1 3 (newRaftLog 0 0) (nodes c 3)" "(3, first_append) \<in> areqs c"
    "\<forall>p. p \<noteq> 2 \<longrightarrow> p \<noteq> 3 \<longrightarrow> nodes c p = pair_node p"
  have "prevMatches first_append (nodes c 3)"
    using c(3) by (simp add: prevMatches_def looks_def first_append_def log_term_def newRaftLog_def firstIndex_def lastIndex_def sentinel_def)
  with append_healthy [of "nodes c 3" first_append late] c(3)
  obtain resp n' where run: "HandleAppendEntries late first_append (nodes c 3) = (resp, n')" "Success resp" "p_healthy (persist n')"
    by (auto simp: looks_def first_append_def first_entry_def some_pb_ok)
  note a = append_success [OF run(1,2)]
  have "looks Follower 1 3 one_log n'"
    using a(2,4,6,7,8,10,12,13) run(3) c(3) merged_first by (simp add: looks_def first_append_def newCommit_def)
  moreover have "cstep {2, 3} pair_cfg some_pb c ((set_node 3 n' c)\<lparr>aresps := insert (3, first_append, resp) (aresps c)\<rparr>)"
    by (rule cstep.receive [OF _ _ c(4) run(1)]) simp_all
  moreover have "aerTerm resp = 1" using a(11) by (simp add: first_append_def)
  ultimately show ?thesis
    by (intro stageI [OF c(1)]) (use c(2,5) run(2) one_log_simps in \<open>(simp add: looks_def; blast)+\<close>)
qed

abbreviation leads :: "Node \<Rightarrow> bool" where
  "leads n \<equiv> looks Leader 1 2 one_log (n\<lparr>commitIndex := 0\<rparr>) \<and> commitIndex n = 1 \<and> nextIndex n 3 = 2"

lemma stage9: "stage leads (looks Follower 1 3 one_log) (\<lambda>c. True)"
proof (rule stageE [OF stage8])
  fix c assume c: "unapplied_runs c" "looks Leader 1 2 one_log (nodes c 2) \<and> nextIndex (nodes c 2) 3 = 1"
    "looks Follower 1 3 one_log (nodes c 3)" "\<exists>resp. (3, first_append, resp) \<in> aresps c \<and> Success resp \<and> aerTerm resp = 1"
    "\<forall>p. p \<noteq> 2 \<longrightarrow> p \<noteq> 3 \<longrightarrow> nodes c p = pair_node p"
  obtain resp where resp: "(3, first_append, resp) \<in> aresps c" "Success resp" "aerTerm resp = 1" using c(4) by blast
  let ?n = "raiseMatch 3 1 (noteContactLocked late 3 (nodes c 2))"
  have "commitPoint ?n 1 = Some 1"
    using c(2) one_log_simps by (simp add: looks_def raiseMatch_def noteContactLocked_def replicas_def majority_def)
  then have adv: "maybeAdvanceCommitLocked late ?n =
      notifyReplicatorsLocked (noteCommitProgressLocked late (?n\<lparr>commitIndex := 1\<rparr>))" (is "_ = ?m")
    using c(2) one_log_simps by (simp add: maybeAdvanceCommitLocked_def looks_def raiseMatch_def noteContactLocked_def)
  obtain x where run: "onAppendResponse late 3 (aeTerm first_append) first_append resp (nodes c 2) = (x, ?m)"
    using c(2) resp(2,3) adv by (simp add: onAppendResponse_def looks_def first_append_def Let_def)
  have "cstep {2, 3} pair_cfg some_pb c (set_node 2 ?m c)"
    by (rule cstep.response [OF _ _ resp(1) _ run]) (simp_all add: first_append_def)
  then show ?thesis
    by (rule stageI [OF c(1)]) (use c(2,3,5) one_log_simps in \<open>simp_all add: looks_def notifyReplicatorsLocked_def
        noteCommitProgressLocked_def raiseMatch_def noteContactLocked_def\<close>)
qed

definition second_append :: AppendEntriesRequest where
  "second_append = \<lparr>aeTerm = 1, LeaderId = 2, PrevLogIndex = 1, PrevLogTerm = 1, Entries = [], LeaderCommit = 1\<rparr>"

lemma stage10: "stage leads (looks Follower 1 3 one_log) (\<lambda>c. (3, second_append) \<in> areqs c)"
proof (rule stageE [OF stage9])
  fix c assume c: "unapplied_runs c" "leads (nodes c 2)"
    "looks Follower 1 3 one_log (nodes c 3)" "\<forall>p. p \<noteq> 2 \<longrightarrow> p \<noteq> 3 \<longrightarrow> nodes c p = pair_node p"
  have "heartbeatRequest 3 1 (nodes c 2) = Some second_append"
    using c(2) one_log_simps by (simp add: heartbeatRequest_def looks_def appendRequest_def second_append_def)
  then have "cstep {2, 3} pair_cfg some_pb c (c\<lparr>areqs := insert (3, second_append) (areqs c)\<rparr>)"
    by (rule cstep.heartbeat [rotated 2]) (use c(2) in \<open>simp_all add: looks_def\<close>)
  then show ?thesis
    by (rule stageI [OF c(1)]) (use c(2-4) one_log_simps in \<open>simp_all add: looks_def\<close>)
qed

lemma stage11: "stage leads (\<lambda>n. nlog n = one_log \<and> commitIndex n = 1 \<and> currentTerm n = 1 \<and> lastApplied n = 0) (\<lambda>c. True)"
proof (rule stageE [OF stage10])
  fix c assume c: "unapplied_runs c" "leads (nodes c 2)" "looks Follower 1 3 one_log (nodes c 3)"
    "(3, second_append) \<in> areqs c" "\<forall>p. p \<noteq> 2 \<longrightarrow> p \<noteq> 3 \<longrightarrow> nodes c p = pair_node p"
  have "prevMatches second_append (nodes c 3)"
    using c(3) one_log_simps by (simp add: prevMatches_def looks_def second_append_def)
  with append_healthy [of "nodes c 3" second_append late] c(3)
  obtain resp n' where run: "HandleAppendEntries late second_append (nodes c 3) = (resp, n')" "Success resp"
    by (auto simp: looks_def second_append_def)
  note a = append_success [OF run]
  have "nlog n' = one_log" "commitIndex n' = 1" "currentTerm n' = 1" "lastApplied n' = 0"
    using a(4,6,7,8) c(3) by (simp_all add: looks_def second_append_def newCommit_def merged_def)
  moreover have "cstep {2, 3} pair_cfg some_pb c ((set_node 3 n' c)\<lparr>aresps := insert (3, second_append, resp) (aresps c)\<rparr>)"
    by (rule cstep.receive [OF _ _ c(4) run(1)]) simp_all
  ultimately show ?thesis
    by (intro stageI [OF c(1)]) (use c(2,5) one_log_simps in \<open>(simp add: looks_def; blast)+\<close>)
qed

end
