(* ===== verification/ClusterSafety.thy ===== *)
theory ClusterSafety
  imports ClusterExample
begin

text \<open>
  The safety of the running cluster, read off the protocol it implements: one leader in a
  term, logs that match, leaders that hold every committed entry, and nodes that agree on
  what is committed, at any two moments of a run with message delay, loss, duplication and
  reordering and with crashes that lose everything not yet durable.
\<close>

section \<open>From the protocol to the nodes\<close>

lemma commit_agreement_later:
  assumes "finite N" and "sinv N s" and "sinv N s'" and "sgrows s s'" and "i \<le> scommit s n" and "i \<le> scommit s' m"
  shows "take i (slog s n) = take i (slog s' m)"
proof (cases "i = 0")
  case False
  obtain T j L where 1: "committed N s T j" "tlog s T = Some L" "scommit s n \<le> j"
    "take (scommit s n) (slog s n) = take (scommit s n) L"
    using assms(2,5) False by (auto simp: sinv_def commit_ok_def dest!: spec [of _ n])
  obtain T' j' L' where 2: "committed N s' T' j'" "tlog s' T' = Some L'" "scommit s' m \<le> j'"
    "take (scommit s' m) (slog s' m) = take (scommit s' m) L'"
    using assms(3,6) False by (auto simp: sinv_def commit_ok_def dest!: spec [of _ m])
  obtain es where es: "tlog s' T = Some (L @ es)" using assms(4) 1(2) by (auto simp: sgrows_def elim: tgrowsD)
  have j: "j \<le> length L" using 1(1,2) by (auto simp: committed_def)
  have "take i (slog s n) = take i L" using 1(4) assms(5) by (metis min.absorb1 take_take)
  moreover have "take i (slog s' m) = take i L'" using 2(4) assms(6) by (metis min.absorb1 take_take)
  moreover have "take i (L @ es) = take i L'"
    using committed_comparable [OF assms(1,3) committed_grows [OF assms(4) 1(1)] es 2(1,2)] 1(3) 2(3) assms(5,6) by simp
  moreover have "take i (L @ es) = take i L" using j 1(3) assms(5) by simp
  ultimately show ?thesis by simp
qed simp

lemma committed_prefix_later:
  assumes "finite N" and "sinv N s" and "sinv N s'" and "sgrows s s'" and "tlog s' t = Some M" and "sterm s n \<le> t"
  shows "prefix (take (scommit s n) (slog s n)) M"
proof (cases "scommit s n = 0")
  case False
  obtain T j L where 1: "committed N s T j" "T \<le> sterm s n" "tlog s T = Some L" "scommit s n \<le> j"
    "take (scommit s n) (slog s n) = take (scommit s n) L"
    using assms(2) False by (auto simp: sinv_def commit_ok_def dest!: spec [of _ n])
  obtain es where es: "tlog s' T = Some (L @ es)" using assms(4) 1(3) by (auto simp: sgrows_def elim: tgrowsD)
  have j: "j \<le> length L" using 1(1,3) by (auto simp: committed_def)
  have "prefix (take j (L @ es)) M"
    using commit_covers [OF assms(1,3) committed_grows [OF assms(4) 1(1)] es _ assms(5)] 1(2) assms(6) by simp
  then have "prefix (take j L) M" using j by simp
  moreover have "prefix (take (scommit s n) L) (take j L)" using 1(4) by (metis min.absorb1 take_is_prefix take_take)
  ultimately show ?thesis using 1(5) by (metis prefix_order.trans)
qed simp

text \<open>A moment of a run and a later one, with the protocol states they implement.\<close>

lemma run_simulates:
  assumes "members N cfg" and "creach N cfg b c" and "cruns N cfg b c c'"
  obtains s s' where "simulates N b c s" and "simulates N b c' s'" and "sgrows s s'" and "finite N"
    and "sinv N s" and "sinv N s'"
proof -
  obtain s where s: "within c" "simulates N b c s" using creach_simulates [OF assms(2,1)] by blast
  then obtain s' where s': "simulates N b c' s'" "sgrows s s'" using cruns_simulates [OF assms(3,1)] by blast
  have "finite N" using assms(1) by (simp add: members_def)
  moreover have "sinv N s" "sinv N s'"
    using sreach_inv [OF _ \<open>finite N\<close>] s(2) s'(1) by (auto simp: simulates_def)
  ultimately show thesis using that s(2) s' by blast
qed

lemma sim_entry:
  assumes "simulates N b c s" and "p \<in> N" and "0 < i"
  shows "log_entry (nlog (nodes c p)) i = (if i \<le> length (slog s p) then Some (slog s p ! (i - 1)) else None)"
proof -
  note k = node_okD [OF simulatesD(1) [OF assms(1,2)]]
  have "slog s p = allEntries (nlog (nodes c p))" using simulatesD(2) [OF assms(1,2)] by (simp add: sim_node_def)
  then show ?thesis using log_entry_all [OF k(3), of i] allEntries_wf(2) [OF k(3)] k(4) assms(3) by simp
qed

lemma sim_commit:
  assumes "simulates N b c s" and "p \<in> N" and "sinv N s"
  shows "scommit s p = commitIndex (nodes c p)" and "sterm s p = currentTerm (nodes c p)"
    and "commitIndex (nodes c p) \<le> length (slog s p)" and "length (slog s p) = lastIndex (nlog (nodes c p))"
proof -
  note k = node_okD [OF simulatesD(1) [OF assms(1,2)]]
  show s: "scommit s p = commitIndex (nodes c p)" "sterm s p = currentTerm (nodes c p)"
    using simulatesD(2) [OF assms(1,2)] by (simp_all add: sim_node_def)
  have "commit_ok N s p" using assms(3) by (simp add: sinv_def)
  then show "commitIndex (nodes c p) \<le> length (slog s p)" using s by (auto simp: commit_ok_def)
  show "length (slog s p) = lastIndex (nlog (nodes c p))"
    using simulatesD(2) [OF assms(1,2)] allEntries_wf(2) [OF k(3)] k(4) by (simp add: sim_node_def)
qed

lemma sim_leader:
  assumes "simulates N b c s" and "p \<in> N" and "role (nodes c p) = Leader"
  shows "tlog s (currentTerm (nodes c p)) = Some (slog s p)" and "sleader s (currentTerm (nodes c p)) = p"
  using simulatesD(2) [OF assms(1,2)] assms(3) by (simp_all add: sim_node_def)

lemma take_nth_eq: "take i xs = take i ys \<Longrightarrow> 0 < j \<Longrightarrow> j \<le> i \<Longrightarrow> xs ! (j - 1) = ys ! (j - 1)"
  by (metis Suc_pred' less_eq_Suc_le nth_take)

text \<open>The run of the two nodes.\<close>

lemma pair_run:
  obtains c where "creach {2, 3} pair_cfg some_pb c" and "leads (nodes c 2)"
    and "nlog (nodes c 3) = one_log \<and> commitIndex (nodes c 3) = 1 \<and> currentTerm (nodes c 3) = 1" and "unapplied_runs c"
  by (rule stageE [OF stage11]) (use unapplied_creach in blast)

section \<open>Safety\<close>

text \<open>
  C1. State machine safety. Whatever index two nodes have committed, at two moments of a run
  that may lie any number of steps, crashes and elections apart, they hold the same entry
  there: a committed entry is never lost and never replaced.
\<close>

theorem committed_entries_agree:
  assumes "members N cfg" and "creach N cfg b c" and "cruns N cfg b c c'" and "p \<in> N" and "q \<in> N"
    and "0 < i" and "i \<le> commitIndex (nodes c p)" and "i \<le> commitIndex (nodes c' q)"
  shows "\<exists>e. log_entry (nlog (nodes c p)) i = Some e \<and> log_entry (nlog (nodes c' q)) i = Some e"
proof -
  obtain s s' where s: "simulates N b c s" "simulates N b c' s'" "sgrows s s'" "finite N" "sinv N s" "sinv N s'"
    by (rule run_simulates [OF assms(1-3)])
  note p = sim_commit [OF s(1) assms(4) s(5)] and q = sim_commit [OF s(2) assms(5) s(6)]
  have "take i (slog s p) = take i (slog s' q)"
    using commit_agreement_later [OF s(4,5,6,3)] p(1) q(1) assms(7,8) by simp
  then have "slog s p ! (i - 1) = slog s' q ! (i - 1)" by (rule take_nth_eq [OF _ assms(6) order_refl])
  then show ?thesis
    using sim_entry [OF s(1) assms(4,6)] sim_entry [OF s(2) assms(5,6)] p(3) q(3) assms(7,8) by simp
qed

theorem committed_entries_agree_witness:
  "\<exists>c. creach {2, 3} pair_cfg some_pb c \<and>
     (\<exists>e. log_entry (nlog (nodes c 2)) 1 = Some e \<and> log_entry (nlog (nodes c 3)) 1 = Some e)"
proof -
  obtain c where c: "creach {2, 3} pair_cfg some_pb c" "leads (nodes c 2)"
    "nlog (nodes c 3) = one_log \<and> commitIndex (nodes c 3) = 1 \<and> currentTerm (nodes c 3) = 1"
    by (rule pair_run)
  with committed_entries_agree [OF pair_members c(1) cruns_refl, of 2 3 1] show ?thesis by auto
qed

text \<open>
  C2. Election safety. A term has at most one leader in the whole life of the cluster.
\<close>

theorem one_leader_per_term:
  assumes "members N cfg" and "creach N cfg b c" and "cruns N cfg b c c'" and "p \<in> N" and "q \<in> N"
    and "role (nodes c p) = Leader" and "role (nodes c' q) = Leader"
    and "currentTerm (nodes c p) = currentTerm (nodes c' q)"
  shows "p = q"
proof -
  obtain s s' where s: "simulates N b c s" "simulates N b c' s'" "sgrows s s'"
    by (rule run_simulates [OF assms(1-3)]) blast
  note p = sim_leader [OF s(1) assms(4,6)] and q = sim_leader [OF s(2) assms(5,7)]
  have "sleader s' (currentTerm (nodes c p)) = p" using s(3) p by (simp add: sgrows_def)
  then show ?thesis using q(2) assms(8) by simp
qed

theorem one_leader_per_term_witness:
  "\<exists>c. creach {2, 3} pair_cfg some_pb c \<and> role (nodes c 2) = Leader \<and>
     \<not> (role (nodes c 3) = Leader \<and> currentTerm (nodes c 2) = currentTerm (nodes c 3))"
proof -
  obtain c where c: "creach {2, 3} pair_cfg some_pb c" "leads (nodes c 2)" by (rule pair_run)
  then have "role (nodes c 2) = Leader" by (simp add: looks_def)
  with one_leader_per_term [OF pair_members c(1) cruns_refl, of 2 3] c(1) show ?thesis by (intro exI [of _ c]) auto
qed

text \<open>
  C3. Leader completeness. An entry a node has committed is in the log of every node that
  leads then or later with a term that is not older.
\<close>

theorem leaders_hold_committed:
  assumes "members N cfg" and "creach N cfg b c" and "cruns N cfg b c c'" and "p \<in> N" and "q \<in> N"
    and "0 < i" and "i \<le> commitIndex (nodes c p)"
    and "role (nodes c' q) = Leader" and "currentTerm (nodes c p) \<le> currentTerm (nodes c' q)"
  shows "\<exists>e. log_entry (nlog (nodes c p)) i = Some e \<and> log_entry (nlog (nodes c' q)) i = Some e"
proof -
  obtain s s' where s: "simulates N b c s" "simulates N b c' s'" "sgrows s s'" "finite N" "sinv N s" "sinv N s'"
    by (rule run_simulates [OF assms(1-3)])
  note p = sim_commit [OF s(1) assms(4) s(5)]
  have "prefix (take (commitIndex (nodes c p)) (slog s p)) (slog s' q)"
    using committed_prefix_later [OF s(4,5,6,3) sim_leader(1) [OF s(2) assms(5,8)], of p] p(1,2) assms(9) by simp
  then obtain es where es: "slog s' q = take (commitIndex (nodes c p)) (slog s p) @ es" by (auto simp: prefix_def)
  have "i - 1 < commitIndex (nodes c p)" using assms(6,7) by simp
  then have "slog s' q ! (i - 1) = slog s p ! (i - 1)" "i \<le> length (slog s' q)"
    using p(3) assms(7) by (simp_all add: es nth_append)
  then show ?thesis using sim_entry [OF s(1) assms(4,6)] sim_entry [OF s(2) assms(5,6)] p(3) assms(7) by simp
qed

theorem leaders_hold_committed_witness:
  "\<exists>c. creach {2, 3} pair_cfg some_pb c \<and> role (nodes c 2) = Leader \<and>
     (\<exists>e. log_entry (nlog (nodes c 3)) 1 = Some e \<and> log_entry (nlog (nodes c 2)) 1 = Some e)"
proof -
  obtain c where c: "creach {2, 3} pair_cfg some_pb c" "leads (nodes c 2)"
    "nlog (nodes c 3) = one_log \<and> commitIndex (nodes c 3) = 1 \<and> currentTerm (nodes c 3) = 1"
    by (rule pair_run)
  then have "role (nodes c 2) = Leader" "currentTerm (nodes c 3) \<le> currentTerm (nodes c 2)" by (simp_all add: looks_def)
  with leaders_hold_committed [OF pair_members c(1) cruns_refl, of 3 2 1] c show ?thesis by auto
qed

text \<open>
  C6. Log matching. Where two nodes hold an entry of the same term at the same index, their
  logs are the same up to there.
\<close>

theorem logs_match:
  assumes "members N cfg" and "creach N cfg b c" and "p \<in> N" and "q \<in> N"
    and "log_entry (nlog (nodes c p)) i = Some e" and "log_entry (nlog (nodes c q)) i = Some e'" and "Term e = Term e'"
    and "0 < j" and "j \<le> i"
  shows "\<exists>d. log_entry (nlog (nodes c p)) j = Some d \<and> log_entry (nlog (nodes c q)) j = Some d"
proof -
  obtain s where s: "simulates N b c s" "sinv N s"
    by (rule run_simulates [OF assms(1,2) cruns_refl]) blast
  have i: "0 < i" using assms(8,9) by simp
  have le: "i \<le> length (slog s p)" "i \<le> length (slog s q)" "e = slog s p ! (i - 1)" "e' = slog s q ! (i - 1)"
    using assms(5,6) sim_entry [OF s(1) assms(3) i] sim_entry [OF s(1) assms(4) i] by (auto split: if_splits)
  have "log_ok (tlog s) (slog s p)" "log_ok (tlog s) (slog s q)" using s(2) by (auto simp: sinv_def log_inv_def)
  from log_matching [OF this, of "i - 1"] have "take i (slog s p) = take i (slog s q)"
    using le assms(7) i by simp
  then have "slog s p ! (j - 1) = slog s q ! (j - 1)" by (rule take_nth_eq [OF _ assms(8,9)])
  then show ?thesis
    using sim_entry [OF s(1) assms(3,8)] sim_entry [OF s(1) assms(4,8)] le(1,2) assms(9) by simp
qed

theorem logs_match_witness:
  "\<exists>c d. creach {2, 3} pair_cfg some_pb c \<and> log_entry (nlog (nodes c 2)) 1 = Some d \<and> log_entry (nlog (nodes c 3)) 1 = Some d"
proof -
  obtain c where c: "creach {2, 3} pair_cfg some_pb c" "leads (nodes c 2)"
    "nlog (nodes c 3) = one_log \<and> commitIndex (nodes c 3) = 1 \<and> currentTerm (nodes c 3) = 1"
    by (rule pair_run)
  have "log_entry (nlog (nodes c 2)) 1 = Some first_entry" "log_entry (nlog (nodes c 3)) 1 = Some first_entry"
    using c(2,3) one_log_simps by (simp_all add: looks_def)
  from logs_match [OF pair_members c(1) _ _ this, of 1] c(1) show ?thesis by auto
qed

text \<open>
  C4. Refinement. Every state the running cluster reaches implements a state of the Raft
  protocol: the terms, votes, logs and commit points of the nodes are those of the protocol.
\<close>

theorem cluster_implements_raft:
  assumes "members N cfg" and "creach N cfg b c"
  shows "\<exists>s. sreach N s \<and> (\<forall>p \<in> N. sterm s p = currentTerm (nodes c p) \<and> svote s p = votedFor (nodes c p) \<and>
    slog s p = allEntries (nlog (nodes c p)) \<and> scommit s p = commitIndex (nodes c p))"
proof -
  obtain s where s: "simulates N b c s" by (rule run_simulates [OF assms cruns_refl]) blast
  then have "\<forall>p \<in> N. sim_node s p (nodes c p)" and "sreach N s" by (auto simp: simulates_def)
  then show ?thesis by (intro exI [of _ s]) (simp add: sim_node_def)
qed

theorem cluster_implements_raft_witness:
  "\<exists>c s. commitIndex (nodes c 2) = 1 \<and> creach {2, 3} pair_cfg some_pb c \<and> sreach {2, 3} s \<and> scommit s 2 = 1"
proof -
  obtain c where c: "creach {2, 3} pair_cfg some_pb c" "leads (nodes c 2)" by (rule pair_run)
  from cluster_implements_raft [OF pair_members c(1)] c show ?thesis by force
qed

lemma those_Some: "(\<And>x. x \<in> set xs \<Longrightarrow> f x = Some (g x)) \<Longrightarrow> those (map f xs) = Some (map g xs)"
  by (induction xs) auto

lemma applier_delivers:
  assumes "\<not> stopped n" and "pendingSnapshot n = None" and "wf_log (nlog n)" and "firstIndex (nlog n) = 0"
    and "lastApplied n \<le> commitIndex n" and "commitIndex n \<le> lastIndex (nlog n)"
  shows "applierStep n = Some (map commandMsg (drop (lastApplied n) (take (commitIndex n) (allEntries (nlog n)))),
    n\<lparr>lastApplied := commitIndex n\<rparr>)"
proof -
  let ?L = "allEntries (nlog n)"
  have len: "commitIndex n \<le> length ?L" using assms(4,6) allEntries_wf(2) [OF assms(3)] by simp
  have "those (map (log_entry (nlog n)) [lastApplied n + 1 ..< commitIndex n + 1]) =
      Some (map (\<lambda>i. ?L ! (i - 1)) [lastApplied n + 1 ..< commitIndex n + 1])"
    by (rule those_Some) (use assms(3,4,6) in \<open>auto simp: log_entry_all\<close>)
  moreover have "map (\<lambda>i. ?L ! (i - 1)) [lastApplied n + 1 ..< commitIndex n + 1] = drop (lastApplied n) (take (commitIndex n) ?L)"
    using len by (intro nth_equalityI) (auto simp: min_def simp del: upt_Suc)
  ultimately show ?thesis using assms(1,2) by (simp add: applierStep_def)
qed

text \<open>
  C7. A node applies only what is committed and commits only what it holds, and its log is
  well-formed; so the applier finds every entry it goes through: no step of it panics, and
  it delivers exactly the committed entries that were not yet applied, in order.
\<close>

theorem applier_never_panics:
  assumes "members N cfg" and "creach N cfg b c" and "p \<in> N"
  shows "wf_log (nlog (nodes c p)) \<and> lastApplied (nodes c p) \<le> commitIndex (nodes c p) \<and>
    commitIndex (nodes c p) \<le> lastIndex (nlog (nodes c p)) \<and>
    applierStep (nodes c p) =
      Some (map commandMsg (drop (lastApplied (nodes c p)) (take (commitIndex (nodes c p)) (allEntries (nlog (nodes c p))))),
        (nodes c p)\<lparr>lastApplied := commitIndex (nodes c p)\<rparr>)"
proof -
  obtain s where s: "simulates N b c s" "sinv N s"
    by (rule run_simulates [OF assms(1,2) cruns_refl]) blast
  note k = node_okD [OF simulatesD(1) [OF s(1) assms(3)]] and q = sim_commit [OF s(1) assms(3) s(2)]
  have "commitIndex (nodes c p) \<le> lastIndex (nlog (nodes c p))" using q(3,4) by simp
  with applier_delivers [OF k(6,11,3,4,10)] k(3,10) show ?thesis by blast
qed

theorem applier_never_panics_witness:
  "\<exists>c n'. creach {2, 3} pair_cfg some_pb c \<and> applierStep (nodes c 2) = Some (map commandMsg [first_entry], n')"
proof -
  obtain c where c: "creach {2, 3} pair_cfg some_pb c" "leads (nodes c 2)" by (rule pair_run)
  from applier_never_panics [OF pair_members c(1), of 2] c one_log_simps show ?thesis
    by (auto simp: looks_def)
qed



end
