(* ===== verification/KvSystem.thy ===== *)
theory KvSystem
  imports KvCluster ClusterSafety
begin

text \<open>
  The whole replicated store: the Raft nodes of the cluster, each with its machine, the
  channel between them and its callers. Raft's steps, deliveries, applications, calls and
  restarts interleave in any order. Runs are followed up to the first compaction of a log.
\<close>

section \<open>The system\<close>

record system =
  net :: cluster
  app :: "nat \<Rightarrow> Cluster_kv"

text \<open>A node as the code has it: its application with the Raft node in place.\<close>

definition node_of :: "system \<Rightarrow> nat \<Rightarrow> Cluster_kv" where
  "node_of y p = (app y p)\<lparr>raft := nodes (net y) p\<rparr>"

definition place :: "nat \<Rightarrow> Cluster_kv \<Rightarrow> system \<Rightarrow> system" where
  "place p a y = y\<lparr>net := set_node p (raft a) (net y), app := (app y)(p := a)\<rparr>"

text \<open>
  \<open>silent\<close> is every step of the Raft cluster but delivery and restart, which are the ones that
  change \<open>lastApplied\<close>.
\<close>

inductive kvstep :: "nat set \<Rightarrow> (nat \<Rightarrow> Config_kv) \<Rightarrow> pbcodec \<Rightarrow> (nat \<Rightarrow> channel) \<Rightarrow> system \<Rightarrow> system \<Rightarrow> bool"
  for N kcfg b cs y where
  silent: "cstep N (\<lambda>p. kvc_raft (kcfg p)) b (net y) c' \<Longrightarrow>
    \<forall>p. lastApplied (nodes c' p) = lastApplied (nodes (net y) p) \<Longrightarrow> within c' \<Longrightarrow> kvstep N kcfg b cs y (y\<lparr>net := c'\<rparr>)"
| delivery: "p \<in> N \<Longrightarrow> raftDeliver (node_of y p) = Some a \<Longrightarrow> kvstep N kcfg b cs y (place p a y)"
| application: "p \<in> N \<Longrightarrow> applyCh (app y p) = msg # rest \<Longrightarrow>
    CommandIndex msg < add64 (lastSnapIndex (app y p)) (snapEvery (app y p)) \<Longrightarrow>
    runApplier ev g (node_of y p) = Some a \<Longrightarrow> kvstep N kcfg b cs y (place p a y)"
| attempt: "p \<in> N \<Longrightarrow> proposeTry ctxErr pr call (node_of y p) = (x, a) \<Longrightarrow> kvstep N kcfg b cs y (place p a y)"
| woken: "p \<in> N \<Longrightarrow> proposeWake wk i call (node_of y p) = (x, a) \<Longrightarrow> kvstep N kcfg b cs y (place p a y)"
| read: "p \<in> N \<Longrightarrow> cluster_Get ok key (node_of y p) = (x, a) \<Longrightarrow> kvstep N kcfg b cs y (place p a y)"
| restart: "p \<in> N \<Longrightarrow> pb ev = b \<Longrightarrow> crash (snd (persist (nodes (net y) p))) w \<Longrightarrow> faults w = [] \<Longrightarrow>
    NewCluster ev cs (kcfg p) w = (Inr a, w') \<Longrightarrow> within (net (place p a y)) \<Longrightarrow>
    kvstep N kcfg b cs y ((place p a y)\<lparr>net := (net (place p a y))\<lparr>running := (running (net y))(p := [])\<rparr>\<rparr>)"

definition kvinit :: "(nat \<Rightarrow> Config_kv) \<Rightarrow> pbcodec \<Rightarrow> (nat \<Rightarrow> channel) \<Rightarrow> system \<Rightarrow> bool" where
  "kvinit kcfg b cs y \<longleftrightarrow> cinit (\<lambda>p. kvc_raft (kcfg p)) b (net y) \<and>
     (\<forall>p. machine (app y p) = NewMachine cs \<and> applyCh (app y p) = [] \<and> lastSnapIndex (app y p) = 0)"

inductive kvruns :: "nat set \<Rightarrow> (nat \<Rightarrow> Config_kv) \<Rightarrow> pbcodec \<Rightarrow> (nat \<Rightarrow> channel) \<Rightarrow> system \<Rightarrow> system \<Rightarrow> bool"
  for N kcfg b cs y where
  kvruns_refl: "kvruns N kcfg b cs y y"
| kvruns_step: "kvruns N kcfg b cs y y' \<Longrightarrow> kvstep N kcfg b cs y' y'' \<Longrightarrow> kvruns N kcfg b cs y y''"

section \<open>The invariant\<close>

text \<open>
  The machine of a node has applied a prefix of the entries Raft has delivered, and the
  channel holds the rest, in order.
\<close>

definition app_ok :: "(nat \<Rightarrow> channel) \<Rightarrow> Node \<Rightarrow> Cluster_kv \<Rightarrow> nat \<Rightarrow> Command_kv list \<Rightarrow> bool" where
  "app_ok cs n a k cmds \<longleftrightarrow> k + length (applyCh a) = lastApplied n \<and>
     applyCh a = map commandMsg (drop k (take (lastApplied n) (allEntries (nlog n)))) \<and>
     map (Decode \<circ> Data) (take k (allEntries (nlog n))) = map Inr cmds \<and>
     agree (machine a) (snd (applyAll cmds (NewMachine cs))) \<and> lastSnapIndex a = 0"

lemma committed_take:
  assumes "members N cfg" and "creach N cfg b c" and "cruns N cfg b c c'" and "p \<in> N" and "q \<in> N"
    and "i \<le> commitIndex (nodes c p)" and "i \<le> commitIndex (nodes c' q)"
  shows "take i (allEntries (nlog (nodes c p))) = take i (allEntries (nlog (nodes c' q)))"
proof -
  obtain s s' where s: "simulates N b c s" "simulates N b c' s'" "sgrows s s'" "finite N" "sinv N s" "sinv N s'"
    by (rule run_simulates [OF assms(1-3)])
  have "slog s p = allEntries (nlog (nodes c p))" "slog s' q = allEntries (nlog (nodes c' q))"
    using simulatesD(2) [OF s(1) assms(4)] simulatesD(2) [OF s(2) assms(5)] by (simp_all add: sim_node_def)
  then show ?thesis
    using commit_agreement_later [OF s(4,5,6,3), of i p q] sim_commit(1) [OF s(1) assms(4) s(5)]
      sim_commit(1) [OF s(2) assms(5) s(6)] assms(6,7) by simp
qed

lemma node_facts:
  assumes "members N cfg" and "creach N cfg b c" and "p \<in> N"
  shows "lastApplied (nodes c p) \<le> commitIndex (nodes c p)" and "commitIndex (nodes c p) \<le> length (allEntries (nlog (nodes c p)))"
    and "wf_log (nlog (nodes c p))" and "firstIndex (nlog (nodes c p)) = 0" and "\<not> stopped (nodes c p)"
    and "pendingSnapshot (nodes c p) = None"
proof -
  obtain s where s: "simulates N b c s" "sinv N s" by (rule run_simulates [OF assms(1,2) cruns_refl]) blast
  note k = node_okD [OF simulatesD(1) [OF s(1) assms(3)]] and q = sim_commit [OF s(1) assms(3) s(2)]
  show "lastApplied (nodes c p) \<le> commitIndex (nodes c p)" "wf_log (nlog (nodes c p))" "firstIndex (nlog (nodes c p)) = 0"
    "\<not> stopped (nodes c p)" "pendingSnapshot (nodes c p) = None" using k by auto
  show "commitIndex (nodes c p) \<le> length (allEntries (nlog (nodes c p)))"
    using simulatesD(2) [OF s(1) assms(3)] q(3) by (simp add: sim_node_def)
qed

text \<open>Raft's own steps keep it: what is applied is committed, and stays.\<close>

lemma app_ok_log:
  assumes "app_ok cs n a k cmds" and "lastApplied n' = lastApplied n"
    and "take (lastApplied n) (allEntries (nlog n')) = take (lastApplied n) (allEntries (nlog n))"
  shows "app_ok cs n' a k cmds"
proof -
  have k: "k \<le> lastApplied n" using assms(1) by (simp add: app_ok_def)
  have t: "take k (allEntries (nlog n')) = take k (allEntries (nlog n))"
    using arg_cong [OF assms(3), of "take k"] k by (simp add: min_def)
  show ?thesis using assms(1) unfolding app_ok_def assms(2,3) t by blast
qed

lemma drop_take_split:
  assumes "k \<le> m" and "m \<le> n"
  shows "drop k (take n xs) = drop k (take m xs) @ drop m (take n xs)"
proof -
  have "take m (take n xs) = take m xs" using assms(2) by (simp add: min_def)
  then have "take n xs = take m xs @ drop m (take n xs)" using append_take_drop_id [of m "take n xs"] by simp
  then have "drop k (take n xs) = drop k (take m xs @ drop m (take n xs))" by simp
  also have "\<dots> = drop k (take m xs) @ drop m (take n xs)" using assms(1) by (cases "m \<le> length xs") simp_all
  finally show ?thesis .
qed

lemma app_ok_deliver:
  assumes "app_ok cs n a k cmds" and "raftDeliver (a\<lparr>raft := n\<rparr>) = Some a'" and "\<not> stopped n" and "pendingSnapshot n = None"
    and "wf_log (nlog n)" and "firstIndex (nlog n) = 0" and "lastApplied n \<le> commitIndex n"
    and "commitIndex n \<le> length (allEntries (nlog n))"
  shows "app_ok cs (raft a') a' k cmds" and "raft a' = n\<lparr>lastApplied := commitIndex n\<rparr>"
proof -
  let ?L = "allEntries (nlog n)"
  have "commitIndex n \<le> lastIndex (nlog n)" using assms(6,8) allEntries_wf(2) [OF assms(5)] by simp
  from applier_delivers [OF assms(3-7) this]
  have a': "a' = a\<lparr>raft := n\<lparr>lastApplied := commitIndex n\<rparr>, applyCh := applyCh a @ map commandMsg (drop (lastApplied n) (take (commitIndex n) ?L))\<rparr>"
    using assms(2) by (auto simp: raftDeliver_def)
  then show "raft a' = n\<lparr>lastApplied := commitIndex n\<rparr>" by simp
  have k: "k \<le> lastApplied n" using assms(1) by (simp add: app_ok_def)
  have "drop k (take (commitIndex n) ?L) = drop k (take (lastApplied n) ?L) @ drop (lastApplied n) (take (commitIndex n) ?L)"
    using k assms(7) by (rule drop_take_split)
  then show "app_ok cs (raft a') a' k cmds"
    using assms(1,7,8) k by (simp add: app_ok_def a')
qed

lemma runApplier_command:
  assumes "applyCh a = commandMsg e # rest" and "runApplier ev g a = Some a'"
    and "Index e < add64 (lastSnapIndex a) (snapEvery a)"
  obtains cmd where "Decode (Data e) = Inr cmd" and "machine a' = snd (Apply cmd (machine a))" and "applyCh a' = rest"
    and "raft a' = raft a" and "lastSnapIndex a' = lastSnapIndex a"
proof -
  let ?m = "commandMsg e" and ?a = "a\<lparr>applyCh := rest\<rparr>"
  have m: "\<not> SnapshotValid ?m" "CommandValid ?m" "ApCommand ?m = Data e" "CommandIndex ?m = Index e" by (simp_all add: commandMsg_def)
  have run: "handleApply ev g ?m ?a = Some a'" using assms(1,2) by (simp add: runApplier_def)
  then obtain cmd where d: "Decode (Data e) = Inr cmd" using m by (cases "Decode (Data e)") (auto simp: handleApply_def)
  let ?c = "deliverResult (Index e) (fst (Apply cmd (machine a)))
    (?a\<lparr>machine := snd (Apply cmd (machine a)), telemetry := map_option (countApply cmd) (telemetry a)\<rparr>)"
  have "a' = ?c" using run m d assms(3) by (simp add: handleApply_def split_beta Let_def)
  then show thesis using that d by simp
qed

lemma app_ok_apply:
  assumes "app_ok cs n a k cmds" and "applyCh a = msg # rest" and "runApplier ev g (a\<lparr>raft := n\<rparr>) = Some a'"
    and "CommandIndex msg < add64 (lastSnapIndex a) (snapEvery a)"
  obtains cmd where "app_ok cs n a' (Suc k) (cmds @ [cmd])" and "raft a' = n"
proof -
  let ?L = "allEntries (nlog n)" and ?t = "drop k (take (lastApplied n) (allEntries (nlog n)))"
  obtain e es where t: "?t = e # es" and msg: "msg = commandMsg e" "rest = map commandMsg es"
    using assms(1,2) by (cases ?t) (auto simp: app_ok_def)
  have "Index e < add64 (lastSnapIndex a) (snapEvery a)" using assms(4) by (simp add: msg commandMsg_def)
  then obtain cmd where c: "Decode (Data e) = Inr cmd" "machine a' = snd (Apply cmd (machine a))" "applyCh a' = rest" "raft a' = n"
    "lastSnapIndex a' = lastSnapIndex a"
    using runApplier_command [of "a\<lparr>raft := n\<rparr>" e rest ev g a'] assms(2,3) msg by auto
  have k: "k < lastApplied n" "k < length ?L" using t by (auto simp: drop_eq_Nil not_le [symmetric] dest!: arg_cong [of _ _ length])
  have "?L ! k = e" using t k by (metis drop_take hd_drop_conv_nth hd_take list.sel(1) zero_less_diff)
  then have take: "take (Suc k) ?L = take k ?L @ [e]" using k by (simp add: take_Suc_conv_app_nth)
  have "drop (Suc k) (take (lastApplied n) ?L) = es" using t by (metis drop_Suc list.sel(3) tl_drop)
  moreover have "agree (snd (Apply cmd (machine a))) (snd (applyAll (cmds @ [cmd]) (NewMachine cs)))"
    using assms(1) agree_Apply(2) by (simp add: app_ok_def applyAll_append split_beta)
  ultimately have "app_ok cs n a' (Suc k) (cmds @ [cmd])"
    using assms(1,2) c take msg by (simp add: app_ok_def)
  then show thesis using that c(4) by blast
qed

definition kvinv :: "nat set \<Rightarrow> (nat \<Rightarrow> Config_kv) \<Rightarrow> pbcodec \<Rightarrow> (nat \<Rightarrow> channel) \<Rightarrow> system \<Rightarrow> bool" where
  "kvinv N kcfg b cs y \<longleftrightarrow> creach N (\<lambda>p. kvc_raft (kcfg p)) b (net y) \<and>
     (\<forall>p \<in> N. \<exists>k cmds. app_ok cs (nodes (net y) p) (app y p) k cmds)"

lemma place_same: "raft a = nodes (net y) p \<Longrightarrow> place p a y = y\<lparr>app := (app y)(p := a)\<rparr>"
  by (simp add: place_def set_node_def)

lemma kvinv_app:
  assumes "kvinv N kcfg b cs y" and "raft a = nodes (net y) p" and "\<exists>k cmds. app_ok cs (nodes (net y) p) a k cmds"
  shows "kvinv N kcfg b cs (place p a y)" and "net (place p a y) = net y"
  using assms by (simp_all add: kvinv_def place_same)

lemma app_ok_cong:
  assumes "applyCh a' = applyCh a" and "machine a' = machine a" and "lastSnapIndex a' = lastSnapIndex a"
  shows "app_ok cs n a' k cmds = app_ok cs n a k cmds"
  using assms by (simp add: app_ok_def)

lemma app_ok_fresh:
  "machine a = NewMachine cs \<Longrightarrow> applyCh a = [] \<Longrightarrow> lastSnapIndex a = 0 \<Longrightarrow> lastApplied n = 0 \<Longrightarrow> app_ok cs n a 0 []"
  by (simp add: app_ok_def)

lemma proposeTry_frame:
  "proposeTry x pr call a = (r, a') \<Longrightarrow> raft a' = raft a \<and> applyCh a' = applyCh a \<and> machine a' = machine a \<and> lastSnapIndex a' = lastSnapIndex a"
  by (auto simp: proposeTry_def split: if_splits option.splits)

lemma proposeWake_frame:
  "proposeWake wk i call a = (r, a') \<Longrightarrow> raft a' = raft a \<and> applyCh a' = applyCh a \<and> machine a' = machine a \<and> lastSnapIndex a' = lastSnapIndex a"
  by (auto simp: proposeWake_def dropWaiter_def Let_def split: wake.splits option.splits)

lemma cluster_Get_frame:
  "cluster_Get ok key a = (r, a') \<Longrightarrow> raft a' = raft a \<and> applyCh a' = applyCh a \<and> machine a' = machine a \<and> lastSnapIndex a' = lastSnapIndex a"
  by (auto simp: cluster_Get_def split: if_splits prod.splits)

lemma kvstep_inv:
  assumes m: "members N (\<lambda>p. kvc_raft (kcfg p))" and inv: "kvinv N kcfg b cs y" and step: "kvstep N kcfg b cs y y'"
  shows "kvinv N kcfg b cs y' \<and> cruns N (\<lambda>p. kvc_raft (kcfg p)) b (net y) (net y')"
proof -
  let ?cfg = "\<lambda>p. kvc_raft (kcfg p)" and ?c = "net y"
  have cr: "creach N ?cfg b ?c" and ok: "\<And>p. p \<in> N \<Longrightarrow> \<exists>k cmds. app_ok cs (nodes ?c p) (app y p) k cmds"
    using inv by (auto simp: kvinv_def)
  have wi: "within ?c" using creach_simulates [OF cr m] by blast
  have one: "cruns N ?cfg b ?c c'" if "cstep N ?cfg b ?c c'" "within c'" for c'
    using that cruns_step [OF cruns_refl] by blast
  have idle: "kvinv N kcfg b cs (place p a y) \<and> cruns N ?cfg b ?c (net (place p a y))"
    if "p \<in> N" "raft a = nodes ?c p" "applyCh a = applyCh (app y p)" "machine a = machine (app y p)"
      "lastSnapIndex a = lastSnapIndex (app y p)" for p a
    using kvinv_app [OF inv that(2)] app_ok_cong [OF that(3-5)] ok [OF that(1)] cruns_refl by metis
  show ?thesis using step
  proof cases
    case (silent c')
    have c': "creach N ?cfg b c'" using creach_step [OF cr silent(2,4)] .
    have "\<exists>k cmds. app_ok cs (nodes c' p) (app y p) k cmds" if p: "p \<in> N" for p
    proof -
      have l: "lastApplied (nodes c' p) = lastApplied (nodes ?c p)" using silent(3) by blast
      obtain k cmds where a: "app_ok cs (nodes ?c p) (app y p) k cmds" using ok [OF p] by blast
      have "take (lastApplied (nodes ?c p)) (allEntries (nlog (nodes c' p))) = take (lastApplied (nodes ?c p)) (allEntries (nlog (nodes ?c p)))"
        using committed_take [OF m cr one [OF silent(2,4)] p p, of "lastApplied (nodes ?c p)"] node_facts(1) [OF m cr p]
          node_facts(1) [OF m c' p] l by simp
      then show ?thesis using app_ok_log [OF a l] by blast
    qed
    then show ?thesis using c' one [OF silent(2,4)] by (simp add: silent(1) kvinv_def)
  next
    case (delivery p a)
    note f = node_facts [OF m cr delivery(2)]
    obtain k cmds where o: "app_ok cs (nodes ?c p) (app y p) k cmds" using ok [OF delivery(2)] by blast
    note d = app_ok_deliver [OF o _ f(5,6,3,4,1,2), folded node_of_def, OF delivery(3)]
    obtain msgs where "applierStep (nodes ?c p) = Some (msgs, raft a)"
      using delivery(3) by (auto simp: raftDeliver_def node_of_def split: option.splits)
    from cstep.deliver [OF delivery(2) this] have st: "cstep N ?cfg b ?c (set_node p (raft a) ?c)" .
    moreover have wi': "within (set_node p (raft a) ?c)" using wi d(2) by (simp add: within_def set_node_def)
    ultimately have "creach N ?cfg b (set_node p (raft a) ?c)" by (rule creach_step [OF cr])
    then show ?thesis using one [OF st wi'] d(1) ok by (auto simp: delivery(1) kvinv_def place_def set_node_def)
  next
    case (application p msg rest ev g a)
    obtain k cmds where o: "app_ok cs (nodes ?c p) (app y p) k cmds" using ok [OF application(2)] by blast
    obtain cmd where "app_ok cs (nodes ?c p) a (Suc k) (cmds @ [cmd])" "raft a = nodes ?c p"
      by (rule app_ok_apply [OF o application(3) application(5) [unfolded node_of_def] application(4)])
    then show ?thesis using kvinv_app [OF inv] cruns_refl unfolding application(1) by metis
  next
    case (attempt p ctxErr pr call x a)
    then show ?thesis using idle [OF attempt(2)] proposeTry_frame [OF attempt(3)] by (simp add: node_of_def)
  next
    case (woken p wk i call x a)
    then show ?thesis using idle [OF woken(2)] proposeWake_frame [OF woken(3)] by (simp add: node_of_def)
  next
    case (read p ok key x a)
    then show ?thesis using idle [OF read(2)] cluster_Get_frame [OF read(3)] by (simp add: node_of_def)
  next
    case (restart p ev w a w')
    obtain s where s: "simulates N b ?c s" by (rule run_simulates [OF m cr cruns_refl]) blast
    note k = node_okD [OF simulatesD(1) [OF s restart(2)]]
    have nn: "NewNode ev (?cfg p) w = (Inr (raft a), w')" and a: "machine a = NewMachine cs" "applyCh a = []" "lastSnapIndex a = 0"
      using restart(6) by (auto simp: NewCluster_def split: prod.splits sum.splits)
    have sync: "in_sync (pb ev) 0 (nodes ?c p)" using k(1) restart(3) by simp
    obtain n' w'' where r: "NewNode ev (?cfg p) w = (Inr n', w'')" "restarted (nodes ?c p) n'" "firstIndex (nlog n') = 0"
      by (rule restart_in_sync [OF sync k(3) restart(4,5), of "?cfg p"]) blast
    then have la: "lastApplied (raft a) = 0" using nn by (simp add: restarted_def)
    let ?c' = "(set_node p (raft a) ?c)\<lparr>running := (running ?c)(p := [])\<rparr>"
    have st: "cstep N ?cfg b ?c ?c'" by (rule cstep.reboot [where cfg = ?cfg, OF restart(2,3,4,5) nn])
    have wi': "within ?c'" using restart(7) by (simp add: within_def place_def)
    have "creach N ?cfg b ?c'" by (rule creach_step [OF cr st wi'])
    then show ?thesis
      using one [OF st wi'] app_ok_fresh [OF a la] ok by (auto simp: restart(1) kvinv_def place_def set_node_def)
  qed
qed

lemma kvinv_init:
  assumes "kvinit kcfg b cs y"
  shows "kvinv N kcfg b cs y"
proof -
  have c: "cinit (\<lambda>p. kvc_raft (kcfg p)) b (net y)" using assms by (simp add: kvinit_def)
  then have "lastApplied (nodes (net y) p) = 0" for p by (auto simp: cinit_def emptyState_def)
  then have "app_ok cs (nodes (net y) p) (app y p) 0 []" for p using assms by (intro app_ok_fresh) (auto simp: kvinit_def)
  then show ?thesis unfolding kvinv_def using creach_init [OF c] by blast
qed

lemma kvruns_inv:
  assumes "kvruns N kcfg b cs y y'" and "members N (\<lambda>p. kvc_raft (kcfg p))" and "kvinv N kcfg b cs y"
  shows "kvinv N kcfg b cs y' \<and> cruns N (\<lambda>p. kvc_raft (kcfg p)) b (net y) (net y')"
  using assms
proof induction
  case kvruns_refl
  then show ?case using cruns_refl by blast
next
  case (kvruns_step y' y'')
  then have 1: "kvinv N kcfg b cs y'" "cruns N (\<lambda>p. kvc_raft (kcfg p)) b (net y) (net y')" by blast+
  have 2: "kvinv N kcfg b cs y''" "cruns N (\<lambda>p. kvc_raft (kcfg p)) b (net y') (net y'')"
    using kvstep_inv [OF kvruns_step.prems(1) 1(1) kvruns_step.hyps(2)] by blast+
  from cruns_trans [OF 1(2) 2(2)] 2(1) show ?case by blast
qed

section \<open>Replicas agree\<close>

text \<open>How many commands the machine of a node has applied.\<close>

definition appliedBy :: "system \<Rightarrow> nat \<Rightarrow> nat" where
  "appliedBy y p = lastApplied (nodes (net y) p) - length (applyCh (app y p))"

lemma map_Inr_take:
  fixes f :: "'a \<Rightarrow> 'e + 'b"
  assumes "map f (take k xs) = map Inr cmds" and "map f (take l ys) = map Inr ds" and "take k xs = take k ys" and "k \<le> l"
  shows "take (length cmds) ds = cmds"
proof -
  have "take k (map f (take l ys)) = map Inr cmds" using assms(1,3,4) by (simp add: take_map min_def)
  then have "map Inr (take k ds) = (map Inr cmds :: ('e + 'b) list)" unfolding assms(2) take_map .
  then have *: "take k ds = cmds" by (simp add: inj_map_eq_map inj_def)
  have "take (length cmds) ds = take (min k (length ds)) ds" unfolding * [symmetric] by (simp add: min.commute)
  then show ?thesis using * by (simp add: min_def split: if_splits)
qed


text \<open>The run of two nodes, with the leader's machine applying the committed command.\<close>

definition pair_kcfg :: "nat \<Rightarrow> Config_kv" where
  "pair_kcfg p = \<lparr>kvc_raft = pair_cfg p, SnapshotEntries = 0\<rparr>"

definition pair_system :: system where
  "pair_system = \<lparr>net = pair_init, app = (\<lambda>p. kv_node (pair_node p))\<rparr>"

lemma pair_kcfg_raft [simp]: "(\<lambda>p. kvc_raft (pair_kcfg p)) = pair_cfg"
  by (simp add: pair_kcfg_def)

lemma pair_kvinit: "kvinit pair_kcfg some_pb no_chan pair_system"
  by (simp add: kvinit_def pair_system_def pair_cinit kv_node_def)

lemma unapplied_zero: "unapplied_runs c \<Longrightarrow> lastApplied (nodes c p) = 0"
  by (induction rule: unapplied_runs.induct) (auto simp: pair_init_def emptyState_def)

lemma unapplied_kvruns: "unapplied_runs c \<Longrightarrow> kvruns {2, 3} pair_kcfg some_pb no_chan pair_system (pair_system\<lparr>net := c\<rparr>)"
proof (induction rule: unapplied_runs.induct)
  case unapplied_init
  have "pair_system\<lparr>net := pair_init\<rparr> = pair_system" by (simp add: pair_system_def)
  then show ?case by (simp add: kvruns_refl)
next
  case (unapplied_step c c')
  have "\<forall>p. lastApplied (nodes c' p) = lastApplied (nodes (net (pair_system\<lparr>net := c\<rparr>)) p)"
    using unapplied_step.hyps(4) unapplied_zero [OF unapplied_step.hyps(1)] by simp
  then have "kvstep {2, 3} pair_kcfg some_pb no_chan (pair_system\<lparr>net := c\<rparr>) ((pair_system\<lparr>net := c\<rparr>)\<lparr>net := c'\<rparr>)"
    using unapplied_step.hyps(2,3) by (intro kvstep.silent) simp_all
  then show ?case using kvruns_step [OF unapplied_step.IH] by simp
qed

lemma pair_applies:
  obtains y where "kvruns {2, 3} pair_kcfg some_pb no_chan pair_system y"
    and "appliedBy y 2 = 1" and "appliedBy y 3 = 0" and "fmlookup (m_data (machine (app y 2))) [1] = Some [7]"
proof -
  let ?cmd = "\<lparr>kv_Op = OpPut_kv, ClientID = [65], RequestID = 1, kv_Key = [1], kv_Value = [7], Expect = []\<rparr>"
  obtain c where c: "creach {2, 3} pair_cfg some_pb c" "leads (nodes c 2)" "unapplied_runs c" by (rule pair_run)
  let ?y1 = "pair_system\<lparr>net := c\<rparr>" and ?n = "nodes c 2"
  let ?a1 = "(kv_node (pair_node 2))\<lparr>raft := ?n\<lparr>lastApplied := 1\<rparr>, applyCh := [commandMsg first_entry]\<rparr>"
  note f = node_facts [OF pair_members c(1), of 2, simplified]
  have "commitIndex ?n \<le> lastIndex (nlog ?n)" using c(2) one_log_simps by (simp add: looks_def)
  then have "applierStep ?n = Some ([commandMsg first_entry], ?n\<lparr>lastApplied := 1\<rparr>)"
    using applier_delivers [OF f(5,6,3,4,1)] c(2) one_log_simps by (simp add: looks_def)
  then have "raftDeliver (node_of ?y1 2) = Some ?a1"
    by (simp add: raftDeliver_def node_of_def pair_system_def kv_node_def)
  then have s2: "kvstep {2, 3} pair_kcfg some_pb no_chan ?y1 (place 2 ?a1 ?y1)" by (intro kvstep.delivery) simp_all
  let ?y2 = "place 2 ?a1 ?y1"
  have n2: "node_of ?y2 2 = ?a1" by (simp add: node_of_def place_def set_node_def)
  have dec: "Decode first_data = Inr ?cmd" unfolding first_data_def by (rule Decode_Encode) (simp add: fits_def)
  obtain a2 where a2: "handleApply late undefined (commandMsg first_entry) (?a1\<lparr>applyCh := []\<rparr>) = Some a2"
    "machine a2 = snd (Apply ?cmd (NewMachine no_chan))" "applyCh a2 = []"
    by (rule handleApply_command [of "commandMsg first_entry" ?cmd late undefined "?a1\<lparr>applyCh := []\<rparr>"])
      (simp_all add: commandMsg_def first_entry_def dec kv_node_def)
  have r: "runApplier late undefined (node_of ?y2 2) = Some a2" unfolding n2 using a2(1) by (simp add: runApplier_def)
  have "kvstep {2, 3} pair_kcfg some_pb no_chan ?y2 (place 2 a2 ?y2)"
    by (rule kvstep.application [where msg = "commandMsg first_entry" and rest = "[]", OF _ _ _ r]) (simp_all add: place_def kv_node_def add64_def commandMsg_def first_entry_def)
  then have run: "kvruns {2, 3} pair_kcfg some_pb no_chan pair_system (place 2 a2 ?y2)"
    using kvruns_step [OF kvruns_step [OF unapplied_kvruns [OF c(3)] s2]] by blast
  have "raft a2 = ?n\<lparr>lastApplied := 1\<rparr>"
    by (rule runApplier_command [of ?a1 first_entry "[]" late undefined a2])
      (use r n2 in \<open>simp_all add: kv_node_def add64_def first_entry_def\<close>)
  then have "appliedBy (place 2 a2 ?y2) 2 = 1" "appliedBy (place 2 a2 ?y2) 3 = 0"
    using a2(3) unapplied_zero [OF c(3)] by (simp_all add: appliedBy_def place_def set_node_def)
  moreover have "fmlookup (m_data (machine (app (place 2 a2 ?y2) 2))) [1] = Some [7]"
    by (simp add: place_def a2(2) Apply_def execute_def OpPut_kv_def OpGet_def NewMachine_def split_beta identified_def)
  ultimately show thesis using that [OF run] by blast
qed


end
