(* ===== verification/KvClient.thy ===== *)
theory KvClient
  imports KvCluster
begin

text \<open>
  \<^verbatim>\<open>src/internal/kv/grpc.go\<close> and \<^verbatim>\<open>client.go\<close>: the service a node offers to remote clients and
  the client that looks for the leader. The connections, the clock and the answers of the
  peers are the environment: arguments of the definitions.
\<close>

section \<open>The service\<close>

text \<open>
  Every response carries whether the node was not the leader, who it thinks leads, and the
  outcome.
\<close>

datatype 'a response = NotLeaderResp nat | OkResp 'a

definition respond :: "Cluster_kv \<Rightarrow> (ApplyResult \<Rightarrow> 'a) \<Rightarrow> kv_error + ApplyResult \<Rightarrow> kv_error + 'a response" where
  "respond c f r =
     (case r of
        Inl e \<Rightarrow> if e = ErrNotLeader then Inr (NotLeaderResp (cluster_LeaderID c)) else Inl e
      | Inr res \<Rightarrow> Inr (OkResp (f res)))"

record GetResponse =
  gr_Found :: bool
  gr_Value :: bytes
  gr_Duplicate :: bool

record PutResponse =
  PreviousValue :: bytes
  pr_Duplicate :: bool

record CASResponse =
  Swapped :: bool
  cr_PreviousValue :: bytes
  cr_Duplicate :: bool

record ExecuteOnceResponse =
  er_Ok :: bool
  er_Value :: bytes
  er_Duplicate :: bool

record CheckpointResponse =
  kr_Ok :: bool
  kr_Duplicate :: bool

definition grpcGet :: "Cluster_kv \<Rightarrow> kv_error + ApplyResult \<Rightarrow> kv_error + GetResponse response" where
  "grpcGet c = respond c (\<lambda>res. \<lparr>gr_Found = Found res, gr_Value = ar_Value res, gr_Duplicate = Duplicate res\<rparr>)"

definition grpcPut :: "Cluster_kv \<Rightarrow> kv_error + ApplyResult \<Rightarrow> kv_error + PutResponse response" where
  "grpcPut c = respond c (\<lambda>res. \<lparr>PreviousValue = ar_Value res, pr_Duplicate = Duplicate res\<rparr>)"

definition grpcCAS :: "Cluster_kv \<Rightarrow> kv_error + ApplyResult \<Rightarrow> kv_error + CASResponse response" where
  "grpcCAS c = respond c (\<lambda>res. \<lparr>Swapped = Found res, cr_PreviousValue = ar_Value res, cr_Duplicate = Duplicate res\<rparr>)"

definition grpcExecuteOnce :: "Cluster_kv \<Rightarrow> kv_error + ApplyResult \<Rightarrow> kv_error + ExecuteOnceResponse response" where
  "grpcExecuteOnce c = respond c (\<lambda>res. \<lparr>er_Ok = Found res, er_Value = ar_Value res, er_Duplicate = Duplicate res\<rparr>)"

definition grpcCheckpoint :: "Cluster_kv \<Rightarrow> kv_error + ApplyResult \<Rightarrow> kv_error + CheckpointResponse response" where
  "grpcCheckpoint c = respond c (\<lambda>res. \<lparr>kr_Ok = Found res, kr_Duplicate = Duplicate res\<rparr>)"

text \<open>
  One turn of the loop of \<open>Watch\<close>: the client has gone, or the next event is taken from the channel and
  sent, or there is none yet. The flag says whether the stream goes on; when it ends the channel is
  unregistered, as the deferred call does. Nobody closes the channel.
\<close>

definition watchTurn ::
  "bytes \<Rightarrow> nat \<Rightarrow> bool \<Rightarrow> (WatchEvent \<Rightarrow> bool) \<Rightarrow> Cluster_kv \<Rightarrow> (WatchEvent option \<times> bool) \<times> Cluster_kv" where
  "watchTurn key ch gone sends c =
     (if gone then ((None, False), cluster_Unwatch key ch c)
      else case ch_buf (chans (machine c) ch) of
             [] \<Rightarrow> ((None, True), c)
           | ev # evs \<Rightarrow>
               (let c1 = c\<lparr>machine := (machine c)\<lparr>chans := (chans (machine c))
                          (ch := (chans (machine c) ch)\<lparr>ch_buf := evs\<rparr>)\<rparr>\<rparr>
                in if sends ev then ((Some ev, True), c1) else ((None, False), cluster_Unwatch key ch c1)))"

record ExecuteOnceRequest =
  eo_ClientId :: bytes
  eo_RequestId :: u64
  eo_Key :: bytes
  eo_Value :: bytes
  UseCas :: bool
  eo_Expect :: bytes

text \<open>The command the server runs for an \<open>ExecuteOnce\<close> request.\<close>

definition executeOnceOf :: "ExecuteOnceRequest \<Rightarrow> kv_error + Command_kv" where
  "executeOnceOf req =
     (let cmd = \<lparr>kv_Op = OpPut_kv, ClientID = [], RequestID = 0, kv_Key = eo_Key req, kv_Value = eo_Value req, Expect = []\<rparr>
      in executeOnceCommand (eo_ClientId req) (eo_RequestId req)
           (if UseCas req then cmd\<lparr>kv_Op := OpCAS, Expect := eo_Expect req\<rparr> else cmd))"

section \<open>The client\<close>

text \<open>Durations are nanoseconds.\<close>

definition peerPenalty :: int where
  "peerPenalty = 2 * 1000000000"

record Client =
  addrs :: "nat \<rightharpoonup> string"
  conns :: "nat set"
  order :: "nat list"
  badUntil :: "nat \<Rightarrow> int"
  leader :: nat

definition NewClient :: "(nat \<times> string) list \<Rightarrow> Client" where
  "NewClient as = \<lparr>addrs = map_of as, conns = {}, order = sort (remdups (map fst as)), badUntil = (\<lambda>_. 0), leader = 0\<rparr>"

definition client_Close :: "Client \<Rightarrow> Client" where
  "client_Close c = c\<lparr>conns := {}\<rparr>"

text \<open>\<open>stub\<close>: whether there is a connection to the peer now. \<open>dialErr\<close> is a failing dial.\<close>

definition stub :: "bool \<Rightarrow> nat \<Rightarrow> Client \<Rightarrow> bool \<times> Client" where
  "stub dialErr i c =
     (if i \<in> conns c then (True, c)
      else if addrs c i = None then (False, c)
      else if dialErr then (False, c)
      else (True, c\<lparr>conns := insert i (conns c)\<rparr>))"

definition tryOrder :: "int \<Rightarrow> nat \<Rightarrow> Client \<Rightarrow> nat list" where
  "tryOrder tnow prefer c =
     (let first = (if prefer \<noteq> 0 then [prefer] else []);
          ids = first @ filter (\<lambda>i. i \<noteq> prefer) (order c)
      in filter (\<lambda>i. \<not> tnow < badUntil c i) ids @ filter (\<lambda>i. tnow < badUntil c i) ids)"

definition demote :: "int \<Rightarrow> nat \<Rightarrow> Client \<Rightarrow> Client" where
  "demote tnow i c =
     (let c1 = c\<lparr>badUntil := (badUntil c)(i := tnow + peerPenalty)\<rparr>
      in if leader c1 = i then c1\<lparr>leader := 0\<rparr> else c1)"

definition invalidate :: "nat \<Rightarrow> Client \<Rightarrow> Client" where
  "invalidate i c = c\<lparr>conns := conns c - {i}\<rparr>"

text \<open>
  One attempt: what the context says before it, whether a dial fails, the time when a failed
  call is booked, and the answer of the peer (\<open>True\<close> in \<open>RpcErr\<close>: the code \<open>Unavailable\<close>).
\<close>

datatype 'a answer = RpcErr bool | RpcNotLeader nat | RpcOk 'a

record 'a attempt =
  at_ctxErr :: bool
  at_dialErr :: bool
  at_now :: int
  at_answer :: "'a answer"

datatype 'a sweep = Done 'a | CtxDone | NoLeader

text \<open>The inner loop of \<open>viaLeader\<close>: one walk over the peers.\<close>

fun sweepPeers :: "(nat \<Rightarrow> 'a attempt) \<Rightarrow> nat list \<Rightarrow> nat \<Rightarrow> Client \<Rightarrow> 'a sweep \<times> nat \<times> Client" where
  "sweepPeers env [] prefer c = (NoLeader, prefer, c)"
| "sweepPeers env (i # ids) prefer c =
     (if at_ctxErr (env i) then (CtxDone, prefer, c)
      else
        case stub (at_dialErr (env i)) i c of
          (False, c1) \<Rightarrow> sweepPeers env ids prefer c1
        | (True, c1) \<Rightarrow>
            (case at_answer (env i) of
               RpcErr unavailable \<Rightarrow>
                 sweepPeers env ids prefer (demote (at_now (env i)) i (if unavailable then invalidate i c1 else c1))
             | RpcNotLeader hint \<Rightarrow> sweepPeers env ids (if hint \<noteq> 0 then hint else prefer) c1
             | RpcOk x \<Rightarrow> (Done x, prefer, c1\<lparr>leader := i\<rparr>)))"

text \<open>
  A round of the outer loop: the time and the context at its start, the attempts, and
  whether the context ends during the wait after it. The loop runs until the deadline; the
  list is what the environment does, and \<open>None\<close> means that the call is still running at its
  end.
\<close>

record 'a round =
  ro_now :: int
  ro_ctxErr :: bool
  ro_attempts :: "nat \<Rightarrow> 'a attempt"
  ro_ctxDone :: bool

datatype client_error = ContextErr | NoLeaderAvailable | UnsupportedOp

definition callTimeout :: int where
  "callTimeout = 8 * 1000000000"

fun viaLeaderLoop :: "int \<Rightarrow> 'a round list \<Rightarrow> nat \<Rightarrow> Client \<Rightarrow> ((client_error + 'a) \<times> Client) option" where
  "viaLeaderLoop deadline [] prefer c = None"
| "viaLeaderLoop deadline (r # rs) prefer c =
     (if \<not> ro_now r < deadline then Some (Inl NoLeaderAvailable, c)
      else if ro_ctxErr r then Some (Inl ContextErr, c)
      else
        case sweepPeers (ro_attempts r) (tryOrder (ro_now r) prefer c) prefer c of
          (Done x, prefer', c') \<Rightarrow> Some (Inr x, c')
        | (CtxDone, prefer', c') \<Rightarrow> Some (Inl ContextErr, c')
        | (NoLeader, prefer', c') \<Rightarrow>
            if ro_ctxDone r then Some (Inl ContextErr, c') else viaLeaderLoop deadline rs prefer' c')"

definition viaLeader :: "int \<Rightarrow> 'a round list \<Rightarrow> Client \<Rightarrow> ((client_error + 'a) \<times> Client) option" where
  "viaLeader start rs c = viaLeaderLoop (start + callTimeout) rs (leader c) c"

text \<open>What the client sends for \<open>ExecuteOnce\<close>, and how it reads the responses.\<close>

definition clientRequest :: "bytes \<Rightarrow> u64 \<Rightarrow> Command_kv \<Rightarrow> client_error + ExecuteOnceRequest" where
  "clientRequest clientID requestID cmd =
     (if kv_Op cmd \<noteq> OpPut_kv \<and> kv_Op cmd \<noteq> OpCAS then Inl UnsupportedOp
      else Inr \<lparr>eo_ClientId = clientID, eo_RequestId = requestID, eo_Key = kv_Key cmd, eo_Value = kv_Value cmd,
                UseCas = (kv_Op cmd = OpCAS), eo_Expect = Expect cmd\<rparr>)"

definition readGet :: "kv_error + GetResponse response \<Rightarrow> ApplyResult answer" where
  "readGet r =
     (case r of
        Inl _ \<Rightarrow> RpcErr False
      | Inr (NotLeaderResp l) \<Rightarrow> RpcNotLeader l
      | Inr (OkResp g) \<Rightarrow> RpcOk \<lparr>Found = gr_Found g, ar_Value = gr_Value g, Duplicate = gr_Duplicate g\<rparr>)"

definition readExecuteOnce :: "kv_error + ExecuteOnceResponse response \<Rightarrow> ApplyResult answer" where
  "readExecuteOnce r =
     (case r of
        Inl _ \<Rightarrow> RpcErr False
      | Inr (NotLeaderResp l) \<Rightarrow> RpcNotLeader l
      | Inr (OkResp e) \<Rightarrow> RpcOk \<lparr>Found = er_Ok e, ar_Value = er_Value e, Duplicate = er_Duplicate e\<rparr>)"

section \<open>Properties\<close>

text \<open>A stream sends the events of its channel in order, and its end leaves no registration behind.\<close>

lemma watchTurn_sends:
  "watchTurn key ch gone sends c = ((Some ev, goes), c') \<Longrightarrow>
   ch_buf (chans (machine c) ch) = ev # ch_buf (chans (machine c') ch) \<and> m_data (machine c') = m_data (machine c)"
  by (auto simp: watchTurn_def Let_def split: if_splits list.splits)

lemma watchTurn_ends:
  "watchTurn key ch gone sends c = ((r, False), c') \<Longrightarrow> distinct (watchers (machine c) key) \<Longrightarrow>
   ch \<notin> set (watchers (machine c') key)"
  by (auto simp: watchTurn_def Let_def cluster_Unwatch_def Unwatch_def split: if_splits list.splits)


lemma order_NewClient: "distinct (order (NewClient as))" "set (order (NewClient as)) = dom (addrs (NewClient as))"
  "sorted (order (NewClient as))"
  by (simp_all add: NewClient_def dom_map_of_conv_image_fst)

text \<open>
  A walk tries every peer exactly once: the preferred one first and the others in ascending
  order, where those within their penalty come after all the others. No peer is skipped, so
  a penalty never hides the leader.
\<close>

theorem tryOrder_visits_all:
  assumes "distinct (order c)" and "0 \<notin> set (order c)" and "prefer = 0 \<or> prefer \<in> set (order c)"
  shows "distinct (tryOrder tnow prefer c) \<and> set (tryOrder tnow prefer c) = set (order c) \<and>
    (\<exists>good bad. tryOrder tnow prefer c = good @ bad \<and> (\<forall>i \<in> set good. badUntil c i \<le> tnow) \<and> (\<forall>i \<in> set bad. tnow < badUntil c i) \<and>
       (prefer \<noteq> 0 \<and> badUntil c prefer \<le> tnow \<longrightarrow> hd good = prefer))"
proof -
  define ids where "ids = (if prefer \<noteq> 0 then [prefer] else []) @ filter (\<lambda>i. i \<noteq> prefer) (order c)"
  have d: "distinct ids" "set ids = set (order c)" using assms by (auto simp: ids_def intro: gr0I)
  define good bad where "good = filter (\<lambda>i. \<not> tnow < badUntil c i) ids" and "bad = filter (\<lambda>i. tnow < badUntil c i) ids"
  have t: "tryOrder tnow prefer c = good @ bad" by (simp add: tryOrder_def Let_def ids_def good_def bad_def)
  have g: "\<forall>i \<in> set good. badUntil c i \<le> tnow" "\<forall>i \<in> set bad. tnow < badUntil c i" "distinct good" "distinct bad"
    "set good \<union> set bad = set (order c)"
    using d by (auto simp: good_def bad_def)
  have h: "prefer \<noteq> 0 \<and> badUntil c prefer \<le> tnow \<longrightarrow> hd good = prefer" by (simp add: good_def ids_def)
  have "distinct (good @ bad)" using g by fastforce
  moreover have "set (good @ bad) = set (order c)" using g(5) by simp
  ultimately show ?thesis unfolding t using g h by blast
qed

definition three_peers :: Client where
  "three_peers = (NewClient [(3, ''c''), (1, ''a''), (2, ''b'')])\<lparr>badUntil := (\<lambda>i. if i = 1 then 50 else 0)\<rparr>"

theorem tryOrder_visits_all_witness:
  "distinct (tryOrder 10 3 three_peers) \<and> set (tryOrder 10 3 three_peers) = {1, 2, 3}"
proof -
  have o: "order three_peers = [1, 2, 3]" by (simp add: three_peers_def NewClient_def)
  then show ?thesis using tryOrder_visits_all [of three_peers 3 10] by simp
qed

lemma client_frame [simp]:
  "addrs (snd (stub d i c)) = addrs c" "addrs (demote t i c) = addrs c" "addrs (invalidate i c) = addrs c"
  "order (snd (stub d i c)) = order c" "order (demote t i c) = order c" "order (invalidate i c) = order c"
  by (simp_all add: stub_def demote_def invalidate_def Let_def)

lemma stub_ok: "addrs c i \<noteq> None \<Longrightarrow> fst (stub False i c)"
  by (auto simp: stub_def)

lemma sweep_finds:
  assumes "l \<in> set ids" and "\<forall>i \<in> set ids. \<not> at_ctxErr (env i)" and "\<not> at_dialErr (env l)" and "addrs c l \<noteq> None"
    and "at_answer (env l) = RpcOk x"
  shows "\<exists>i y p c'. sweepPeers env ids pf c = (Done y, p, c') \<and> i \<in> set ids \<and> at_answer (env i) = RpcOk y \<and> leader c' = i"
  using assms(1,2,4)
proof (induction ids arbitrary: pf c)
  case (Cons i ids)
  obtain ok c1 where st: "stub (at_dialErr (env i)) i c = (ok, c1)" by fastforce
  have c1: "addrs c1 l \<noteq> None" using client_frame(1) [of "at_dialErr (env i)" i c] st Cons.prems(3) by simp
  have later: "\<exists>j y p c'. sweepPeers env ids q d = (Done y, p, c') \<and> j \<in> set (i # ids) \<and> at_answer (env j) = RpcOk y \<and> leader c' = j"
    if "i \<noteq> l" "addrs d l \<noteq> None" for q d
    using Cons.IH [of d q] Cons.prems(1,2) that by auto
  show ?case
  proof (cases "i = l")
    case True
    then have "ok" using stub_ok [OF Cons.prems(3)] st assms(3) by simp
    then show ?thesis using True st Cons.prems(2) assms(5) by auto
  next
    case False
    show ?thesis
    proof (cases ok)
      case True
      then show ?thesis
        using st Cons.prems(2) later [OF False] c1 by (cases "at_answer (env i)") auto
    next
      case no: False
      then show ?thesis using st Cons.prems(2) later [OF False c1] by simp
    qed
  qed
qed simp


definition two_fails :: "nat \<Rightarrow> ApplyResult attempt" where
  "two_fails i = \<lparr>at_ctxErr = False, at_dialErr = False, at_now = 20,
     at_answer = (if i = 2 then RpcOk noResult else if i = 1 then RpcNotLeader 7 else RpcErr True)\<rparr>"


text \<open>The waits between the rounds are at least 250 ms.\<close>

primrec paced :: "int \<Rightarrow> 'a round list \<Rightarrow> bool" where
  "paced t [] \<longleftrightarrow> True"
| "paced t (r # rs) \<longleftrightarrow> t \<le> ro_now r \<and> paced (ro_now r + 250000000) rs"

lemma paced_mono: "paced t rs \<Longrightarrow> t' \<le> t \<Longrightarrow> paced t' rs"
  by (cases rs) auto

lemma loop_returns:
  assumes "paced t rs" and "rs \<noteq> []" and "deadline \<le> t + int (length rs - 1) * 250000000"
  shows "\<exists>res. viaLeaderLoop deadline rs pf c = Some res"
  using assms
proof (induction rs arbitrary: t pf c)
  case (Cons r rs)
  show ?case
  proof (cases "rs = []")
    case True
    then show ?thesis using Cons.prems by simp
  next
    case False
    then have l: "length rs = Suc (length rs - 1)" by (cases rs) auto
    have "deadline \<le> t + 250000000 + int (length rs - 1) * 250000000"
      using Cons.prems(3) l by (simp add: algebra_simps)
    moreover have "paced (t + 250000000) rs" using Cons.prems(1) paced_mono by fastforce
    ultimately have "\<exists>res. viaLeaderLoop deadline rs q d = Some res" for q d using Cons.IH False by blast
    then show ?thesis by (auto split: sweep.split prod.split)
  qed
qed simp



text \<open>
  What a remote client asks for is what runs: a command sent through \<open>ExecuteOnce\<close> reaches
  the proposal of the node with its key, value and condition and the identity of the
  request, other operations are refused, and the client reads back exactly the outcome the
  machine gave, or who the node thinks leads.
\<close>

theorem remote_execute_once:
  "(case clientRequest clientID requestID cmd of
      Inl e \<Rightarrow> e = UnsupportedOp \<and> kv_Op cmd \<noteq> OpPut_kv \<and> kv_Op cmd \<noteq> OpCAS
    | Inr req \<Rightarrow> executeOnceOf req = Inr (cmd\<lparr>ClientID := clientID, RequestID := requestID,
        Expect := (if kv_Op cmd = OpCAS then Expect cmd else [])\<rparr>)) \<and>
   readExecuteOnce (grpcExecuteOnce c (Inr res)) = RpcOk res \<and> readGet (grpcGet c (Inr res)) = RpcOk res \<and>
   readExecuteOnce (grpcExecuteOnce c (Inl ErrNotLeader)) = RpcNotLeader (leaderID (raft c))"
proof -
  have "OpPut_kv \<noteq> OpCAS" by (simp add: OpPut_kv_def OpCAS_def)
  then show ?thesis
    by (auto simp: clientRequest_def executeOnceOf_def executeOnceCommand_def Let_def readExecuteOnce_def grpcExecuteOnce_def
        respond_def readGet_def grpcGet_def cluster_LeaderID_def)
qed

end
