(* ===== verification/Batching.thy ===== *)
theory Batching
  imports Replicate
begin

text \<open>
  The batchers of \<^verbatim>\<open>batch.go\<close>: the goroutines that gather concurrent proposals into one write and
  concurrent reads into one round of heartbeats. What a goroutine can receive on is a sequence of
  events: a request on its channel, the batch timer, and the close of the node's \<^verbatim>\<open>done\<close> channel.
  A \<^verbatim>\<open>select\<close> takes the next event; a timer that no batch has started is never received from, so
  the loops skip it. A goroutine whose events are used up waits, and has the batch it has.
\<close>

section \<open>Gathering a batch\<close>

datatype 'a arrival = Arrives 'a | Timer | Done

text \<open>The loop of \<open>collectProps\<close>; the result is the batch and what is received after it.\<close>

fun collectLoop :: "nat option \<Rightarrow> 'a list \<Rightarrow> 'a arrival list \<Rightarrow> 'a list \<times> 'a arrival list" where
  "collectLoop limit batch [] = (batch, [])"
| "collectLoop limit batch (ev # evs) =
     (if (case limit of Some m \<Rightarrow> \<not> length batch < m | None \<Rightarrow> False) then (batch, ev # evs)
      else case ev of
             Done \<Rightarrow> (batch, ev # evs)
           | Arrives req \<Rightarrow> collectLoop limit (batch @ [req]) evs
           | Timer \<Rightarrow> (batch, evs))"

definition collectProps :: "bytes \<Rightarrow> bytes arrival list \<Rightarrow> bytes list \<times> bytes arrival list" where
  "collectProps first evs = collectLoop (Some proposeBatchMax) [first] evs"

definition collectReads :: "'r \<Rightarrow> 'r arrival list \<Rightarrow> 'r list \<times> 'r arrival list" where
  "collectReads first evs = collectLoop None [first] evs"

lemma collectLoop_shorter: "length (snd (collectLoop limit batch evs)) \<le> length evs"
  by (induction limit batch evs rule: collectLoop.induct) (auto split: arrival.splits)

section \<open>The goroutines\<close>

text \<open>
  The batches a batcher hands on, in order. The comparison of lengths is for termination only: what
  \<open>collectProps\<close> and \<open>collectReads\<close> leave is never longer (\<open>collectLoop_shorter\<close>).
\<close>

function batches :: "('a \<Rightarrow> 'a arrival list \<Rightarrow> 'a list \<times> 'a arrival list) \<Rightarrow> 'a arrival list \<Rightarrow> 'a list list" where
  "batches gather [] = []"
| "batches gather (Done # evs) = []"
| "batches gather (Timer # evs) = batches gather evs"
| "batches gather (Arrives req # evs) =
     (case gather req evs of (batch, evs') \<Rightarrow>
        batch # (if length evs' \<le> length evs then batches gather evs' else []))"
  by pat_completeness auto
termination by (relation "measure (length \<circ> snd)") auto

text \<open>\<open>runProposeBatcher\<close>: every batch is committed before the next is gathered.\<close>

fun commitBatches :: "env list \<Rightarrow> bytes list list \<Rightarrow> Node \<Rightarrow> propResult list list \<times> Node" where
  "commitBatches (ev # envs) (b # bs) n =
     (case commitPropBatch ev b n of (r, n') \<Rightarrow>
        (case commitBatches envs bs n' of (rs, n'') \<Rightarrow> (r # rs, n'')))"
| "commitBatches _ _ n = ([], n)"

definition runProposeBatcher :: "env list \<Rightarrow> bytes arrival list \<Rightarrow> Node \<Rightarrow> propResult list list \<times> Node" where
  "runProposeBatcher envs evs n = commitBatches envs (batches collectProps evs) n"

definition runReadIndexBatcher :: "'r arrival list \<Rightarrow> 'r list list" where
  "runReadIndexBatcher evs = batches collectReads evs"

section \<open>Every request is in one batch\<close>

text \<open>The requests that come in before the node stops.\<close>

fun arrivals :: "'a arrival list \<Rightarrow> 'a list" where
  "arrivals [] = []"
| "arrivals (Arrives req # evs) = req # arrivals evs"
| "arrivals (Timer # evs) = arrivals evs"
| "arrivals (Done # evs) = []"

lemma collectLoop_keeps:
  "fst (collectLoop limit batch evs) @ arrivals (snd (collectLoop limit batch evs)) = batch @ arrivals evs"
  by (induction limit batch evs rule: collectLoop.induct) (auto split: arrival.splits)

lemma collectLoop_bounds:
  "length batch \<le> m \<Longrightarrow> length (fst (collectLoop (Some m) batch evs)) \<le> m"
  by (induction "Some m" batch evs rule: collectLoop.induct) (auto split: arrival.splits)

lemma collectLoop_grows: "length batch \<le> length (fst (collectLoop limit batch evs))"
  by (induction limit batch evs rule: collectLoop.induct) (fastforce split: arrival.splits)+

text \<open>What a batcher relies on: gathering takes a prefix of the requests and leaves the rest.\<close>

locale gathering =
  fixes gather :: "'a \<Rightarrow> 'a arrival list \<Rightarrow> 'a list \<times> 'a arrival list"
  assumes shorter: "length (snd (gather req evs)) \<le> length evs"
    and keeps: "fst (gather req evs) @ arrivals (snd (gather req evs)) = req # arrivals evs"
    and nonempty: "fst (gather req evs) \<noteq> []"
begin

lemma all_batched: "concat (batches gather evs) = arrivals evs"
proof (induction evs rule: length_induct)
  case (1 evs)
  show ?case
  proof (cases evs)
    case (Cons ev rest)
    show ?thesis
    proof (cases ev)
      case (Arrives req)
      obtain b evs' where c: "gather req rest = (b, evs')" by fastforce
      have "length evs' \<le> length rest" "b @ arrivals evs' = req # arrivals rest"
        using shorter [of req rest] keeps [of req rest] c by simp_all
      with 1 Cons Arrives c show ?thesis by simp
    qed (use 1 Cons in simp_all)
  qed simp
qed

lemma batch_gathered: "b \<in> set (batches gather evs) \<Longrightarrow> \<exists>req rest. b = fst (gather req rest)"
proof (induction evs rule: length_induct)
  case (1 evs)
  show ?case
  proof (cases evs)
    case (Cons ev rest)
    show ?thesis
    proof (cases ev)
      case (Arrives req)
      obtain b' evs' where c: "gather req rest = (b', evs')" by fastforce
      have l: "length evs' < length evs" using shorter [of req rest] c Cons by simp
      then consider "b = b'" | "b \<in> set (batches gather evs')"
        using 1(2) Cons Arrives c by (auto split: if_splits)
      then show ?thesis
      proof cases
        case 1
        then have "b = fst (gather req rest)" by (simp add: c)
        then show ?thesis by blast
      qed (use 1(1) l in blast)
    qed (use 1 Cons in auto)
  qed (use 1 in simp)
qed

lemma batch_nonempty: "b \<in> set (batches gather evs) \<Longrightarrow> b \<noteq> []"
  by (metis batch_gathered nonempty)

end

lemma collectLoop_first: "fst (collectLoop limit [req] evs) \<noteq> []"
  using collectLoop_grows [of "[req]" limit evs] by auto

interpretation props: gathering collectProps
  by unfold_locales (simp_all add: collectProps_def collectLoop_shorter collectLoop_keeps collectLoop_first)

interpretation reads: gathering collectReads
  by unfold_locales (simp_all add: collectReads_def collectLoop_shorter collectLoop_keeps collectLoop_first)

lemma collectProps_max: "length (fst (collectProps req evs)) \<le> proposeBatchMax"
  unfolding collectProps_def by (rule collectLoop_bounds) (simp add: proposeBatchMax_def)

section \<open>One log position each\<close>

lemma batchEntries_log: "batchEntries t ds l = (es, l') \<Longrightarrow> map Data es = ds \<and> length es = length ds"
  by (induction t ds l arbitrary: es l' rule: batchEntries.induct) (auto simp: Let_def split: prod.splits)

lemma commitPropBatch_answers: "length (fst (commitPropBatch ev b n)) = length b"
  using batchEntries_log by (fastforce simp: commitPropBatch_def failProps_def split: prod.splits sum.splits)

lemma commitBatches_answers:
  "map length (fst (commitBatches envs bs n)) = take (length envs) (map length bs)"
proof (induction envs bs n rule: commitBatches.induct)
  case (1 ev envs b bs n)
  obtain r n' where c: "commitPropBatch ev b n = (r, n')" by fastforce
  with 1 commitPropBatch_answers [of ev b n] show ?case by (simp split: prod.splits) (metis fst_conv)
qed (auto simp: take_Cons')


end
