(* ===== verification/Transport.thy ===== *)
theory Transport
  imports Replicate "HOL-Library.Multiset"
begin

text \<open>
  The raft transport (\<^verbatim>\<open>raft/transport.go\<close>): one cached connection per peer, dialed at the first
  call, dropped when a call says that the connection is bad, and closed with the transport. The
  gRPC library is a parameter: \<open>dial\<close> is \<^verbatim>\<open>grpc.NewClient\<close> and may answer differently at each
  dial, and an RPC on a connection is the answer of the peer or a status code. \<open>dialed\<close> and
  \<open>closed\<close> record the calls of \<^verbatim>\<open>grpc.NewClient\<close> that gave a connection and of \<^verbatim>\<open>Close\<close>.
\<close>

section \<open>State\<close>

record 'c GRPCTransport =
  t_addrs :: "nat \<rightharpoonup> string"
  t_conns :: "nat \<rightharpoonup> 'c"
  dialed :: "'c list"
  closed :: "'c list"

datatype code = Unavailable | DeadlineExceeded | OtherCode nat

datatype transportError = UnknownPeer nat | DialFailed nat string | Rpc code

type_synonym 'c dial = "nat \<Rightarrow> string \<Rightarrow> 'c option"

section \<open>Operations\<close>

definition NewGRPCTransport :: "(nat \<rightharpoonup> string) \<Rightarrow> 'c GRPCTransport" where
  "NewGRPCTransport peerAddrs = \<lparr>t_addrs = peerAddrs, t_conns = Map.empty, dialed = [], closed = []\<rparr>"

definition client_of :: "'c dial \<Rightarrow> nat \<Rightarrow> 'c GRPCTransport \<Rightarrow> (transportError + 'c) \<times> 'c GRPCTransport" where
  "client_of dial peer t =
     (case t_conns t peer of
        Some conn \<Rightarrow> (Inr conn, t)
      | None \<Rightarrow>
          (case t_addrs t peer of
             None \<Rightarrow> (Inl (UnknownPeer peer), t)
           | Some addr \<Rightarrow>
               (case dial (length (dialed t)) addr of
                  None \<Rightarrow> (Inl (DialFailed peer addr), t)
                | Some conn \<Rightarrow>
                    (Inr conn, t\<lparr>t_conns := (t_conns t)(peer \<mapsto> conn), dialed := dialed t @ [conn]\<rparr>))))"

definition isConnError :: "code \<Rightarrow> bool" where
  "isConnError err \<longleftrightarrow> err = Unavailable"

definition InvalidatePeer :: "nat \<Rightarrow> 'c GRPCTransport \<Rightarrow> 'c GRPCTransport" where
  "InvalidatePeer peer t =
     (case t_conns t peer of
        Some conn \<Rightarrow> t\<lparr>t_conns := (t_conns t)(peer := None), closed := closed t @ [conn]\<rparr>
      | None \<Rightarrow> t)"

text \<open>What a call does after an error of the RPC.\<close>

definition rpcFailed :: "nat \<Rightarrow> code \<Rightarrow> 'c GRPCTransport \<Rightarrow> 'c GRPCTransport" where
  "rpcFailed peer err t = (if isConnError err then InvalidatePeer peer t else t)"

text \<open>The three calls have one body; \<open>rpc\<close> is the generated stub's method on the connection.\<close>

definition transport_call ::
  "('c \<Rightarrow> 'q \<Rightarrow> code + 'r) \<Rightarrow> 'c dial \<Rightarrow> nat \<Rightarrow> 'q \<Rightarrow> 'c GRPCTransport \<Rightarrow> (transportError + 'r) \<times> 'c GRPCTransport" where
  "transport_call rpc dial peer req t =
     (case client_of dial peer t of
        (Inl err, t') \<Rightarrow> (Inl err, t')
      | (Inr c, t') \<Rightarrow>
          (case rpc c req of
             Inl err \<Rightarrow> (Inl (Rpc err), rpcFailed peer err t')
           | Inr resp \<Rightarrow> (Inr resp, t')))"

text \<open>\<open>Close\<close>, for an order in which the map is walked.\<close>

definition transport_Close :: "nat list \<Rightarrow> 'c GRPCTransport \<Rightarrow> 'c GRPCTransport" where
  "transport_Close order t = t\<lparr>t_conns := Map.empty, closed := closed t @ List.map_filter (t_conns t) order\<rparr>"

section \<open>No connection is leaked\<close>

text \<open>
  The steps of concurrent calls: a call takes its connection, and may later fail, when another call
  may have replaced or dropped the connection of the peer. A call that succeeds changes nothing
  after its first step.
\<close>

inductive tstep :: "'c dial \<Rightarrow> 'c GRPCTransport \<Rightarrow> 'c GRPCTransport \<Rightarrow> bool" for dial where
  begins: "tstep dial t (snd (client_of dial peer t))"
| fails: "tstep dial t (rpcFailed peer err t)"
| invalidates: "tstep dial t (InvalidatePeer peer t)"
| closes: "distinct order \<Longrightarrow> set order = dom (t_conns t) \<Longrightarrow> tstep dial t (transport_Close order t)"

inductive_cases tstep_cases: "tstep dial t t'"

lemma call_runs: "(tstep dial)\<^sup>*\<^sup>* t (snd (transport_call rpc dial peer req t))"
proof -
  obtain r t' where c: "client_of dial peer t = (r, t')" by fastforce
  have b: "tstep dial t t'" using tstep.begins [of dial t peer] c by simp
  then have "tstep dial t t' \<and> tstep dial t' (rpcFailed peer err t')" for err using tstep.fails by blast
  with b c show ?thesis
    by (auto simp: transport_call_def split: sum.splits intro: converse_rtranclp_into_rtranclp)
qed

definition transport_ok :: "(nat \<rightharpoonup> string) \<Rightarrow> 'c GRPCTransport \<Rightarrow> bool" where
  "transport_ok addrs t \<longleftrightarrow>
     t_addrs t = addrs \<and> dom (t_conns t) \<subseteq> dom addrs \<and> finite (dom (t_conns t)) \<and>
     mset (dialed t) = mset (closed t) + image_mset (\<lambda>p. the (t_conns t p)) (mset_set (dom (t_conns t)))"

lemma conns_insert:
  "finite (dom m) \<Longrightarrow> m p = None \<Longrightarrow>
   image_mset (\<lambda>q. the ((m(p \<mapsto> c)) q)) (mset_set (dom (m(p \<mapsto> c)))) =
   add_mset c (image_mset (\<lambda>q. the (m q)) (mset_set (dom m)))"
  by (auto simp: domIff intro!: image_mset_cong)

lemma conns_delete:
  assumes "finite (dom m)" and "m p = Some c"
  shows "image_mset (\<lambda>q. the (m q)) (mset_set (dom m)) =
   add_mset c (image_mset (\<lambda>q. the ((m(p := None)) q)) (mset_set (dom (m(p := None)))))"
proof -
  have m: "(m(p := None))(p \<mapsto> c) = m" using assms(2) by (simp add: fun_eq_iff)
  have "finite (dom (m(p := None)))" using assms(1) by simp
  from conns_insert [OF this, of p c, unfolded m] show ?thesis by simp
qed

lemma ok_invalidate: "transport_ok addrs t \<Longrightarrow> transport_ok addrs (InvalidatePeer p t)"
  using conns_delete [of "t_conns t" p]
  by (auto simp: transport_ok_def InvalidatePeer_def simp del: fun_upd_apply split: option.splits)

lemma ok_client: "transport_ok addrs t \<Longrightarrow> transport_ok addrs (snd (client_of dial p t))"
  using conns_insert [of "t_conns t" p]
  by (auto simp: transport_ok_def client_of_def simp del: fun_upd_apply split: option.splits)

lemma ok_close:
  assumes "transport_ok addrs t" and "distinct order" and "set order = dom (t_conns t)"
  shows "transport_ok addrs (transport_Close order t)"
proof -
  have "List.map_filter (t_conns t) order = map (\<lambda>p. the (t_conns t p)) order"
    using assms(3) by (auto simp: List.map_filter_def domIff filter_id_conv)
  moreover have "mset order = mset_set (dom (t_conns t))" using assms(2,3) by (metis mset_set_set)
  ultimately show ?thesis using assms(1) by (simp add: transport_ok_def transport_Close_def)
qed

lemma tstep_ok: "tstep dial t t' \<Longrightarrow> transport_ok addrs t \<Longrightarrow> transport_ok addrs t'"
  by (erule tstep_cases) (auto simp: rpcFailed_def ok_invalidate ok_client ok_close)

lemma truns_ok: "(tstep dial)\<^sup>*\<^sup>* t t' \<Longrightarrow> transport_ok addrs t \<Longrightarrow> transport_ok addrs t'"
  by (induction rule: rtranclp_induct) (auto intro: tstep_ok)

text \<open>
  C17. The transport leaks no connection. Whatever calls run at the same time, whatever the library
  answers at each dial and however the calls fail: every connection that was dialed is either closed,
  once, or in the cache, and only peers with an address have one; so after \<^verbatim>\<open>Close\<close> everything
  that was dialed is closed.
\<close>

theorem transport_leaks_nothing:
  assumes "(tstep dial)\<^sup>*\<^sup>* (NewGRPCTransport addrs) t" and "distinct order" and "set order = dom (t_conns t)"
  shows "mset (dialed t) = mset (closed t) + image_mset (\<lambda>p. the (t_conns t p)) (mset_set (dom (t_conns t))) \<and>
    dom (t_conns t) \<subseteq> dom addrs \<and>
    mset (dialed (transport_Close order t)) = mset (closed (transport_Close order t))"
proof -
  have "transport_ok addrs (NewGRPCTransport addrs)" by (simp add: transport_ok_def NewGRPCTransport_def)
  from truns_ok [OF assms(1) this] have ok: "transport_ok addrs t" .
  then show ?thesis
    using ok_close [OF ok assms(2,3)] by (simp add: transport_ok_def) (simp add: transport_Close_def)
qed

section \<open>Example\<close>

definition fourDials :: "nat dial" where
  "fourDials k addr = (if k < 4 then Some k else None)"

text \<open>A call that finds its peer down, and the next one.\<close>

definition twoCalls :: "nat GRPCTransport" where
  "twoCalls =
     snd (transport_call (\<lambda>c q. Inr q) fourDials 2 ()
       (snd (transport_call (\<lambda>c q. (Inl Unavailable :: code + unit)) fourDials 2 () (NewGRPCTransport [2 \<mapsto> ''b'']))))"

lemma twoCalls_state:
  "t_conns twoCalls = [2 \<mapsto> 1]" "dialed twoCalls = [0, 1]" "closed twoCalls = [0]"
  by (simp_all add: twoCalls_def transport_call_def client_of_def NewGRPCTransport_def fourDials_def rpcFailed_def
      isConnError_def InvalidatePeer_def fun_eq_iff)

theorem transport_leaks_nothing_witness:
  "mset (dialed (transport_Close [2] twoCalls)) = mset (closed (transport_Close [2] twoCalls)) \<and>
   dialed (transport_Close [2] twoCalls) = [0, 1]"
proof -
  have "(tstep fourDials)\<^sup>*\<^sup>* (NewGRPCTransport [2 \<mapsto> ''b'']) twoCalls"
    unfolding twoCalls_def by (rule rtranclp_trans [OF call_runs call_runs])
  from transport_leaks_nothing [OF this, of "[2]"] show ?thesis
    by (simp add: twoCalls_state transport_Close_def)
qed

end
