(* ===== verification/Metrics.thy ===== *)
theory Metrics
  imports Replicate
begin

text \<open>
  The metrics of a node (\<^verbatim>\<open>src/internal/metrics\<close>): the collector's series, the updates of the
  \<^verbatim>\<open>Telemetry\<close> interface, and the reporter that copies the state of the Raft node into gauges. The
  Prometheus library keeps a gauge as its last value and a counter as a number; \<open>fl\<close> is the
  conversion to \<^verbatim>\<open>float64\<close>. The histograms of durations are left out.
\<close>

section \<open>The collector\<close>

record 'f Collector =
  g_isLeader :: 'f
  g_term :: 'f
  g_commitIndex :: 'f
  g_role :: 'f
  g_leaderID :: 'f
  g_commitStallStepdowns :: 'f
  proposalsTotal :: nat
  appliesTotal :: nat
  writesTotal :: nat
  readsTotal :: nat

definition NewCollector :: "(int \<Rightarrow> 'f) \<Rightarrow> 'f Collector" where
  "NewCollector fl =
     \<lparr>g_isLeader = fl 0, g_term = fl 0, g_commitIndex = fl 0, g_role = fl 0, g_leaderID = fl 0,
      g_commitStallStepdowns = fl 0, proposalsTotal = 0, appliesTotal = 0, writesTotal = 0, readsTotal = 0\<rparr>"

definition SetCommitStallStepdowns :: "(int \<Rightarrow> 'f) \<Rightarrow> nat \<Rightarrow> 'f Collector \<Rightarrow> 'f Collector" where
  "SetCommitStallStepdowns fl k c = c\<lparr>g_commitStallStepdowns := fl (int k)\<rparr>"

definition SetRaft ::
  "(int \<Rightarrow> 'f) \<Rightarrow> nat \<Rightarrow> bool \<Rightarrow> int \<Rightarrow> nat \<Rightarrow> nat \<Rightarrow> 'f Collector \<Rightarrow> 'f Collector" where
  "SetRaft fl trm isLeader rl commit leader c =
     c\<lparr>g_isLeader := (if isLeader then fl 1 else fl 0), g_term := fl (int trm),
       g_commitIndex := fl (int commit), g_role := fl rl, g_leaderID := fl (int leader)\<rparr>"

definition ObservePropose :: "'f Collector \<Rightarrow> 'f Collector" where
  "ObservePropose c = c\<lparr>proposalsTotal := proposalsTotal c + 1\<rparr>"

definition IncApply :: "'f Collector \<Rightarrow> 'f Collector" where
  "IncApply c = c\<lparr>appliesTotal := appliesTotal c + 1\<rparr>"

definition IncWrite :: "'f Collector \<Rightarrow> 'f Collector" where
  "IncWrite c = c\<lparr>writesTotal := writesTotal c + 1\<rparr>"

definition IncRead :: "'f Collector \<Rightarrow> 'f Collector" where
  "IncRead c = c\<lparr>readsTotal := readsTotal c + 1\<rparr>"

section \<open>The reporter\<close>

definition Role_String :: "Role \<Rightarrow> string" where
  "Role_String r = (case r of Follower \<Rightarrow> ''follower'' | Candidate \<Rightarrow> ''candidate'' | Leader \<Rightarrow> ''leader'')"

definition RoleInt :: "string \<Rightarrow> int" where
  "RoleInt r =
     (if r = ''follower'' then 0 else if r = ''candidate'' then 1 else if r = ''leader'' then 2 else - 1)"

text \<open>
  \<^verbatim>\<open>sample\<close> takes the node's lock five times, in the order of the arguments here: each accessor
  sees the node at its own moment.
\<close>

definition sample ::
  "(int \<Rightarrow> 'f) \<Rightarrow> Node \<Rightarrow> Node \<Rightarrow> Node \<Rightarrow> Node \<Rightarrow> Node \<Rightarrow> 'f Collector \<Rightarrow> 'f Collector" where
  "sample fl n1 n2 n3 n4 n5 c =
     (case Status n1 of (trm, isLeader) \<Rightarrow>
        SetCommitStallStepdowns fl (commitStallStepdowns n5)
          (SetRaft fl trm isLeader (RoleInt (Role_String (role n2))) (commitIndex n3) (leaderID n4) c))"

text \<open>The interval of \<^verbatim>\<open>NewReporter\<close>.\<close>

definition reporterInterval :: "int \<Rightarrow> int" where
  "reporterInterval every = (if every \<le> 0 then 500 * Millisecond else every)"

section \<open>What is exported\<close>

text \<open>
  The encoding of roles loses nothing and never gives \<open>-1\<close>; a sample that no step of the node
  interrupts shows one state, in which the two gauges about leadership agree.
\<close>

lemma RoleInt_String: "RoleInt (Role_String r) \<in> {0, 1, 2}" "inj (\<lambda>r. RoleInt (Role_String r))"
  by (auto simp: RoleInt_def Role_String_def inj_def split: Role.splits)

lemma sample_undisturbed:
  assumes "inj fl" and "c' = sample fl n n n n n c"
  shows "(g_isLeader c' = fl 1 \<longleftrightarrow> g_role c' = fl 2) \<and> g_term c' = fl (int (currentTerm n)) \<and>
    g_commitIndex c' = fl (int (commitIndex n)) \<and> writesTotal c' = writesTotal c"
  using assms
  by (auto simp: sample_def Status_def SetRaft_def SetCommitStallStepdowns_def RoleInt_def Role_String_def inj_eq
      split: Role.splits)

text \<open>One that a step-down interrupts shows a leader whose role is follower.\<close>

lemma sample_interrupted:
  assumes "role n1 = Leader" and "role n2 = Follower"
  shows "g_isLeader (sample fl n1 n2 n3 n4 n5 c) = fl 1 \<and> g_role (sample fl n1 n2 n3 n4 n5 c) = fl 0"
  using assms by (simp add: sample_def Status_def SetRaft_def SetCommitStallStepdowns_def RoleInt_def Role_String_def)

end
