(* ===== verification/GoText.thy ===== *)
theory GoText
  imports Prelude
begin

text \<open>
  The parts of Go's \<^verbatim>\<open>strings\<close>, \<^verbatim>\<open>strconv\<close>, \<^verbatim>\<open>net/url\<close> and \<^verbatim>\<open>time\<close> packages that the
  control plane and the command-line programs use, on strings of bytes: decimal printing and
  parsing with the 64-bit range check, splitting, cutting and trimming, percent escaping of a
  path segment, and the text of a whole-second duration. Case folding and white space are those
  of ASCII. The lemmas are the round trips the components rest on: a printed number parses to
  itself, joined fields split into themselves, and trimming leaves a trimmed text alone.
\<close>

section \<open>Decimal numbers (strconv)\<close>

definition digits :: string where
  "digits = ''0123456789''"

definition digit :: "nat \<Rightarrow> char" where
  "digit d = digits ! d"

definition digitVal :: "char \<Rightarrow> nat option" where
  "digitVal c = map_of (zip digits [0, 1, 2, 3, 4, 5, 6, 7, 8, 9]) c"

fun showNat :: "nat \<Rightarrow> string" where
  "showNat n = (if n < 10 then [digit n] else showNat (n div 10) @ [digit (n mod 10)])"

declare showNat.simps [simp del]

definition showInt :: "int \<Rightarrow> string" where
  "showInt i = (if i < 0 then CHR ''-'' # showNat (nat (- i)) else showNat (nat i))"

fun parseDigits :: "string \<Rightarrow> nat \<Rightarrow> nat option" where
  "parseDigits [] n = Some n"
| "parseDigits (c # cs) n =
     (case digitVal c of None \<Rightarrow> None | Some d \<Rightarrow> parseDigits cs (10 * n + d))"

text \<open>\<^verbatim>\<open>strconv.ParseUint(s, 10, 64)\<close>; every error is \<^term>\<open>None\<close>.\<close>

definition parseUint :: "string \<Rightarrow> nat option" where
  "parseUint s =
     (if s = [] then None
      else case parseDigits s 0 of
             None \<Rightarrow> None
           | Some n \<Rightarrow> (if n < 2 ^ 64 then Some n else None))"

text \<open>\<^verbatim>\<open>strconv.Atoi\<close> on a 64-bit platform.\<close>

definition signedBody :: "string \<Rightarrow> bool \<times> string" where
  "signedBody s =
     (case s of
        c # cs \<Rightarrow> (if c = CHR ''-'' then (True, cs) else if c = CHR ''+'' then (False, cs) else (False, s))
      | [] \<Rightarrow> (False, []))"

definition atoi :: "string \<Rightarrow> int option" where
  "atoi s =
     (case signedBody s of (neg, ds) \<Rightarrow>
        (case parseUint ds of
           None \<Rightarrow> None
         | Some n \<Rightarrow>
             (if neg then (if n \<le> 2 ^ 63 then Some (- int n) else None)
              else (if n < 2 ^ 63 then Some (int n) else None))))"

lemma digit_cases: "d < 10 \<Longrightarrow> d \<in> {0, 1, 2, 3, 4, 5, 6, 7, 8, 9::nat}"
  by auto

lemma digitVal_digit [simp]: "d < 10 \<Longrightarrow> digitVal (digit d) = Some d"
  by (drule digit_cases) (auto simp: digitVal_def digit_def digits_def)

lemma parseDigits_append:
  "parseDigits (xs @ ys) n = (case parseDigits xs n of None \<Rightarrow> None | Some m \<Rightarrow> parseDigits ys m)"
  by (induction xs n rule: parseDigits.induct) (auto split: option.splits)

lemma showNat_not_Nil [simp]: "showNat n \<noteq> []"
  by (subst showNat.simps) simp

lemma parseDigits_showNat: "parseDigits (showNat n) 0 = Some n"
proof (induction n rule: showNat.induct)
  case (1 n)
  show ?case
  proof (cases "n < 10")
    case True
    then show ?thesis by (subst showNat.simps) simp
  next
    case False
    then show ?thesis using 1 [OF False] by (subst showNat.simps) (simp add: parseDigits_append)
  qed
qed

lemma parseUint_showNat [simp]: "n < 2 ^ 64 \<Longrightarrow> parseUint (showNat n) = Some n"
  by (simp add: parseUint_def parseDigits_showNat)

lemma parseUint_range: "parseUint s = Some n \<Longrightarrow> n < 2 ^ 64"
  by (auto simp: parseUint_def split: if_splits option.splits)

lemma digit_in_digits: "d < 10 \<Longrightarrow> digit d \<in> set digits"
  by (drule digit_cases) (auto simp: digit_def digits_def)

lemma showNat_digits: "set (showNat n) \<subseteq> set digits"
proof (induction n rule: showNat.induct)
  case (1 n)
  then show ?case
    by (subst showNat.simps) (auto intro: digit_in_digits)
qed

lemma signedBody_digit: "c \<in> set digits \<Longrightarrow> signedBody (c # cs) = (False, c # cs)"
  by (auto simp: signedBody_def digits_def)

lemma atoi_showInt:
  assumes "- (2 ^ 63) \<le> i" and "i < 2 ^ 63"
  shows "atoi (showInt i) = Some i"
proof (cases "i < 0")
  case True
  with assms have "nat (- i) \<le> 2 ^ 63" by simp
  moreover from this have "nat (- i) < 2 ^ 64" by simp
  ultimately show ?thesis
    using True by (simp add: atoi_def showInt_def signedBody_def)
next
  case False
  with assms have b: "nat i < 2 ^ 63" by simp
  then have u: "nat i < 2 ^ 64" by simp
  obtain c cs where c: "showNat (nat i) = c # cs" by (cases "showNat (nat i)") auto
  with showNat_digits [of "nat i"] have "c \<in> set digits" by simp
  with False b parseUint_showNat [OF u] show ?thesis
    by (simp add: atoi_def showInt_def c signedBody_digit)
qed

section \<open>Splitting, cutting and trimming (strings)\<close>

text \<open>\<^verbatim>\<open>strings.Split(s, sep)\<close> for a one-byte separator.\<close>

fun split :: "char \<Rightarrow> string \<Rightarrow> string list" where
  "split c [] = [[]]"
| "split c (x # xs) =
     (if x = c then [] # split c xs
      else case split c xs of y # ys \<Rightarrow> (x # y) # ys | [] \<Rightarrow> [[x]])"

text \<open>\<^verbatim>\<open>strings.Join\<close>\<close>

fun join :: "string \<Rightarrow> string list \<Rightarrow> string" where
  "join sep [] = []"
| "join sep [s] = s"
| "join sep (s # t # ts) = s @ sep @ join sep (t # ts)"

text \<open>\<^verbatim>\<open>strings.Cut(s, sep)\<close>: \<^term>\<open>None\<close> when the separator does not occur.\<close>

fun cut :: "char \<Rightarrow> string \<Rightarrow> (string \<times> string) option" where
  "cut c [] = None"
| "cut c (x # xs) =
     (if x = c then Some ([], xs)
      else case cut c xs of None \<Rightarrow> None | Some (a, b) \<Rightarrow> Some (x # a, b))"

definition isSpace :: "char \<Rightarrow> bool" where
  "isSpace c \<longleftrightarrow> c \<in> {CHR 0x09, CHR 0x0A, CHR 0x0B, CHR 0x0C, CHR 0x0D, CHR 0x20}"

definition trimSpace :: "string \<Rightarrow> string" where
  "trimSpace s = rev (dropWhile isSpace (rev (dropWhile isSpace s)))"

definition trimPrefix :: "string \<Rightarrow> string \<Rightarrow> string" where
  "trimPrefix p s = (if take (length p) s = p then drop (length p) s else s)"

text \<open>\<^verbatim>\<open>strings.TrimRight(s, cutset)\<close> for a cutset of one byte.\<close>

definition trimRight :: "char \<Rightarrow> string \<Rightarrow> string" where
  "trimRight c s = rev (dropWhile (\<lambda>x. x = c) (rev s))"

fun contains :: "string \<Rightarrow> string \<Rightarrow> bool" where
  "contains sub [] \<longleftrightarrow> sub = []"
| "contains sub (c # cs) \<longleftrightarrow> take (length sub) (c # cs) = sub \<or> contains sub cs"

definition containsAny :: "string \<Rightarrow> string \<Rightarrow> bool" where
  "containsAny s chars \<longleftrightarrow> list_ex (\<lambda>c. c \<in> set chars) s"

definition lowerChar :: "char \<Rightarrow> char" where
  "lowerChar c = (case map_of (zip ''ABCDEFGHIJKLMNOPQRSTUVWXYZ'' ''abcdefghijklmnopqrstuvwxyz'') c of
                    Some l \<Rightarrow> l | None \<Rightarrow> c)"

definition toLower :: "string \<Rightarrow> string" where
  "toLower s = map lowerChar s"

definition equalFold :: "string \<Rightarrow> string \<Rightarrow> bool" where
  "equalFold s t \<longleftrightarrow> toLower s = toLower t"

lemma split_not_Nil [simp]: "split c s \<noteq> []"
  by (cases s) (auto split: list.splits)

lemma split_plain: "c \<notin> set s \<Longrightarrow> split c s = [s]"
  by (induction s) auto

lemma split_append_sep: "c \<notin> set s \<Longrightarrow> split c (s @ c # t) = s # split c t"
  by (induction s) auto

lemma split_join:
  "ss \<noteq> [] \<Longrightarrow> list_all (\<lambda>s. c \<notin> set s) ss \<Longrightarrow> split c (join [c] ss) = ss"
  by (induction "[c]" ss rule: join.induct) (auto simp: split_plain split_append_sep)

lemma split_pieces: "list_all (\<lambda>p. c \<notin> set p) (split c s)"
  by (induction c s rule: split.induct) (auto split: list.splits)

lemma cut_append: "c \<notin> set s \<Longrightarrow> cut c (s @ c # t) = Some (s, t)"
  by (induction s) auto

definition trimmed :: "string \<Rightarrow> bool" where
  "trimmed s \<longleftrightarrow> (s = [] \<or> (\<not> isSpace (hd s) \<and> \<not> isSpace (last s)))"

lemma trimSpace_trimmed [simp]: "trimmed s \<Longrightarrow> trimSpace s = s"
proof (cases s)
  case (Cons c cs)
  assume t: "trimmed s"
  with Cons have l: "dropWhile isSpace s = s" by (simp add: trimmed_def)
  have "rev s \<noteq> []" using Cons by simp
  then obtain d ds where r: "rev s = d # ds" by (cases "rev s") auto
  then have "d = last s" by (metis hd_rev list.sel(1))
  with t Cons have "dropWhile isSpace (rev s) = rev s" unfolding r by (simp add: trimmed_def)
  with l show ?thesis by (simp add: trimSpace_def)
qed (simp add: trimSpace_def)

lemma trimmed_no_space: "list_all (\<lambda>c. \<not> isSpace c) s \<Longrightarrow> trimmed s"
  by (cases s rule: rev_cases) (auto simp: trimmed_def list_all_iff, metis hd_append2 hd_in_set list.sel(1) self_append_conv2)

lemma contains_refl_append: "contains sub (xs @ sub @ ys)"
proof (induction xs)
  case Nil
  show ?case by (cases "sub @ ys") (auto simp: take_append [symmetric] simp del: take_append, metis append_eq_conv_conj)
qed auto

section \<open>Escaping (net/url) and durations (time)\<close>

definition hexDigits :: string where
  "hexDigits = ''0123456789ABCDEF''"

text \<open>
  \<^verbatim>\<open>url.PathEscape\<close>: letters, digits and \<^verbatim>\<open>-_.~$&+:=@\<close> stay, every other byte becomes a
  percent sign and two hexadecimal digits.
\<close>

definition pathSafe :: "char \<Rightarrow> bool" where
  "pathSafe c \<longleftrightarrow>
     c \<in> set ''abcdefghijklmnopqrstuvwxyzABCDEFGHIJKLMNOPQRSTUVWXYZ0123456789-_.~$&+:=@''"

definition escapeChar :: "char \<Rightarrow> string" where
  "escapeChar c =
     (if pathSafe c then [c]
      else [CHR ''%'', hexDigits ! (of_char c div 16), hexDigits ! (of_char c mod 16)])"

definition pathEscape :: "string \<Rightarrow> string" where
  "pathEscape s = concat (map escapeChar s)"

text \<open>\<^verbatim>\<open>Duration.Round(time.Second)\<close> and the text of the result; durations are nanoseconds.\<close>

definition second :: int where
  "second = 1000000000"

definition milliseconds :: "int \<Rightarrow> int" where
  "milliseconds d = (if d < 0 then - ((- d) div 1000000) else d div 1000000)"

definition roundSeconds :: "int \<Rightarrow> int" where
  "roundSeconds d = (if d < 0 then - ((- d + second div 2) div second) else (d + second div 2) div second)"

definition secondsText :: "nat \<Rightarrow> string" where
  "secondsText s =
     (let h = s div 3600; m = s div 60 mod 60
      in (if h > 0 then showNat h @ ''h'' else []) @
         (if h > 0 \<or> m > 0 then showNat m @ ''m'' else []) @ showNat (s mod 60) @ ''s'')"

definition roundedText :: "int \<Rightarrow> string" where
  "roundedText d =
     (let s = roundSeconds d
      in if s < 0 then CHR ''-'' # secondsText (nat (- s)) else secondsText (nat s))"

text \<open>
  An escaped segment contains neither a slash nor a question mark: a name placed in a request
  path stays inside its own segment.
\<close>

lemma hexDigits_len: "length hexDigits = 16"
  by (simp add: hexDigits_def)

lemma escapeChar_chars: "d \<in> set (escapeChar c) \<Longrightarrow> pathSafe d \<or> d = CHR ''%''"
proof -
  have n: "(of_char c :: nat) < 256" by (rule nat_of_char_less_256)
  then have h: "(of_char c :: nat) div 16 < length hexDigits" and l: "(of_char c :: nat) mod 16 < length hexDigits"
    by (simp_all add: hexDigits_len less_mult_imp_div_less)
  have hex: "k \<in> set hexDigits \<Longrightarrow> pathSafe k" for k
    by (auto simp: hexDigits_def pathSafe_def)
  assume "d \<in> set (escapeChar c)"
  then show ?thesis
    using hex nth_mem [OF h] nth_mem [OF l] by (auto simp: escapeChar_def split: if_splits)
qed

lemma pathEscape_segment: "CHR ''/'' \<notin> set (pathEscape s)" "CHR ''?'' \<notin> set (pathEscape s)"
  by (auto simp: pathEscape_def pathSafe_def dest!: escapeChar_chars)

text \<open>Escaping can be undone, so different names give different segments.\<close>

definition hexVal :: "char \<Rightarrow> nat" where
  "hexVal c = length (takeWhile (\<lambda>x. x \<noteq> c) hexDigits)"

fun unescape :: "string \<Rightarrow> string" where
  "unescape (c # a # b # cs) =
     (if c = CHR ''%'' then char_of (16 * hexVal a + hexVal b) # unescape cs else c # unescape (a # b # cs))"
| "unescape cs = cs"

lemma hexVal_nth: "k < 16 \<Longrightarrow> hexVal (hexDigits ! k) = k"
proof -
  have "list_all (\<lambda>k. hexVal (hexDigits ! k) = k) [0..<16]" by code_simp
  then show "k < 16 \<Longrightarrow> hexVal (hexDigits ! k) = k" by (simp add: list_all_iff)
qed

lemma unescape_safe: "c \<noteq> CHR ''%'' \<Longrightarrow> unescape (c # cs) = c # unescape cs"
  by (cases "c # cs" rule: unescape.cases) auto

lemma unescape_char: "unescape (escapeChar c @ cs) = c # unescape cs"
proof (cases "pathSafe c")
  case True
  then have "c \<noteq> CHR ''%''" by (auto simp: pathSafe_def)
  with True show ?thesis by (simp add: escapeChar_def unescape_safe)
next
  case False
  have "(of_char c :: nat) < 256" by (rule nat_of_char_less_256)
  then have "hexVal (hexDigits ! (of_char c div 16)) = of_char c div 16"
    "hexVal (hexDigits ! (of_char c mod 16)) = of_char c mod 16"
    by (simp_all add: hexVal_nth less_mult_imp_div_less)
  then have "(char_of (16 * hexVal (hexDigits ! (of_char c div 16)) +
      hexVal (hexDigits ! (of_char c mod 16))) :: char) = c"
    by (simp add: mult.commute)
  with False show ?thesis by (simp add: escapeChar_def)
qed

lemma unescape_pathEscape [simp]: "unescape (pathEscape s) = s"
  by (induction s) (simp_all add: pathEscape_def unescape_char)

lemma pathEscape_inject [simp]: "pathEscape s = pathEscape t \<longleftrightarrow> s = t"
  by (metis unescape_pathEscape)

lemma first_segment:
  "pathEscape s @ CHR ''/'' # x = pathEscape t @ CHR ''/'' # y \<Longrightarrow> s = t"
  using split_append_sep [of "CHR ''/''" "pathEscape s" x] split_append_sep [of "CHR ''/''" "pathEscape t" y]
  by (simp add: pathEscape_segment)

end
