(* ===== verification/CpState.thy ===== *)
theory CpState
  imports GoText Complex_Main
begin

text \<open>
  The data the control plane passes around: the status of one machine, the cluster view sent to
  the browsers, feed events, the chaos monkey's public state (\<^verbatim>\<open>engine.go\<close>, \<^verbatim>\<open>chaos.go\<close>), and
  the cache of Prometheus rates (\<^verbatim>\<open>prom.go\<close>). Instants and durations are nanoseconds; the zero
  \<^verbatim>\<open>time.Time\<close> is \<^term>\<open>None\<close>. A \<^verbatim>\<open>float64\<close> is a rational number or one of the IEEE special
  values, with Go's comparisons, under which nothing holds of a NaN; rounding of finite results
  is not modelled.
\<close>

section \<open>Floating-point values\<close>

datatype float64 = Fin rat | NaN | PosInf | NegInf

fun fLe :: "float64 \<Rightarrow> float64 \<Rightarrow> bool" where
  "fLe NaN _ \<longleftrightarrow> False"
| "fLe _ NaN \<longleftrightarrow> False"
| "fLe NegInf _ \<longleftrightarrow> True"
| "fLe _ PosInf \<longleftrightarrow> True"
| "fLe (Fin a) (Fin b) \<longleftrightarrow> a \<le> b"
| "fLe _ _ \<longleftrightarrow> False"

definition fLess :: "float64 \<Rightarrow> float64 \<Rightarrow> bool" where
  "fLess a b \<longleftrightarrow> fLe a b \<and> \<not> fLe b a"

fun fSub :: "float64 \<Rightarrow> float64 \<Rightarrow> float64" where
  "fSub (Fin a) (Fin b) = Fin (a - b)"
| "fSub NaN _ = NaN"
| "fSub _ NaN = NaN"
| "fSub PosInf PosInf = NaN"
| "fSub NegInf NegInf = NaN"
| "fSub PosInf _ = PosInf"
| "fSub NegInf _ = NegInf"
| "fSub _ PosInf = NegInf"
| "fSub _ NegInf = PosInf"

text \<open>The conversion \<^verbatim>\<open>uint64(f)\<close>; out of range it has the value amd64 gives.\<close>

fun toUint64 :: "float64 \<Rightarrow> nat" where
  "toUint64 (Fin q) = (if 0 \<le> q \<and> q < 2 ^ 64 then nat \<lfloor>q\<rfloor> else 2 ^ 63)"
| "toUint64 _ = 2 ^ 63"

section \<open>The cluster view\<close>

record NodeStatus =
  st_ID :: nat
  st_ContainerName :: string
  st_Running :: bool
  st_Status :: string
  st_Partitioned :: bool
  st_HealDueMs :: int
  st_HealKind :: string
  st_Term :: nat
  st_CommitIndex :: nat
  st_LeaderID :: nat
  st_IsLeader :: bool
  st_Role :: string

record Event =
  ev_Time :: int
  ev_Kind :: string
  ev_Message :: string

record ChaosInfo =
  ci_Node :: nat
  ci_AgeMs :: int
  ci_IntervalMs :: int

record Snapshot =
  sn_Nodes :: "NodeStatus list"
  sn_Alive :: nat
  sn_Total :: nat
  sn_Quorum :: bool
  sn_HealAfterMs :: int
  sn_LeaderID :: nat
  sn_Term :: nat
  sn_UptimeMs :: int
  sn_SinceLastQuorumLossMs :: int
  sn_ActiveUsers :: nat
  sn_WritesPerSec :: float64
  sn_ReadsPerSec :: float64
  sn_HostCpuBusyPct :: "float64 option"
  sn_HostMemUsedBytes :: "float64 option"
  sn_HostMemTotalBytes :: "float64 option"
  sn_Chaos :: "ChaosInfo option"
  sn_Events :: "Event list"

section \<open>The rate cache (prom.go)\<close>

record RateCache =
  rc_baseURL :: string
  rc_writes :: float64
  rc_reads :: float64
  rc_stepdowns :: float64
  rc_stepdownsOK :: bool
  rc_hostOK :: bool
  rc_cpuBusyPct :: float64
  rc_memUsedBytes :: float64
  rc_memTotalBytes :: float64

definition NewRateCache :: "string \<Rightarrow> RateCache" where
  "NewRateCache prometheusURL =
     \<lparr>rc_baseURL = trimRight (CHR ''/'') prometheusURL, rc_writes = Fin 0, rc_reads = Fin 0,
      rc_stepdowns = Fin 0, rc_stepdownsOK = False, rc_hostOK = False, rc_cpuBusyPct = Fin 0,
      rc_memUsedBytes = Fin 0, rc_memTotalBytes = Fin 0\<rparr>"

text \<open>
  A query's answer is Prometheus's: a parameter, \<^term>\<open>None\<close> for every way in which
  \<^verbatim>\<open>queryOK\<close> fails to obtain a number.
\<close>

type_synonym prom = "string \<Rightarrow> float64 option"

definition queryOK :: "prom \<Rightarrow> string \<Rightarrow> float64 \<times> bool" where
  "queryOK q expr = (case q expr of None \<Rightarrow> (Fin 0, False) | Some f \<Rightarrow> (f, True))"

definition query :: "prom \<Rightarrow> string \<Rightarrow> float64" where
  "query q expr = fst (queryOK q expr)"

definition rates_refresh :: "prom \<Rightarrow> RateCache \<Rightarrow> RateCache" where
  "rates_refresh q r =
     (let w = query q ''sum(rate(kmc_kv_writes_total[15s]) and on(instance) (kmc_raft_is_leader == 1))'';
          rd = query q ''sum(rate(kmc_kv_reads_total[15s]) and on(instance) (kmc_raft_is_leader == 1))'';
          (step, stepOK) = queryOK q ''sum(kmc_raft_commit_stall_stepdowns)'';
          (cpu, cpuOK) = queryOK q ''100 * (1 - avg(rate(node_cpu_seconds_total{mode=\"idle\"}[30s])))'';
          (memTotal, memTotalOK) = queryOK q ''node_memory_MemTotal_bytes'';
          (memAvail, memAvailOK) = queryOK q ''node_memory_MemAvailable_bytes'';
          host = (cpuOK \<and> memTotalOK \<and> memAvailOK \<and> fLess (Fin 0) memTotal);
          memUsed = (if fLess (fSub memTotal memAvail) (Fin 0) then Fin 0 else fSub memTotal memAvail);
          hostOK = (host \<and> cpu \<noteq> NaN \<and> cpu \<noteq> PosInf \<and> cpu \<noteq> NegInf)
      in r\<lparr>rc_writes := w, rc_reads := rd, rc_stepdowns := step, rc_stepdownsOK := stepOK,
           rc_hostOK := hostOK,
           rc_cpuBusyPct := (if hostOK then cpu else Fin 0),
           rc_memUsedBytes := (if hostOK then memUsed else Fin 0),
           rc_memTotalBytes := (if hostOK then memTotal else Fin 0)\<rparr>)"

text \<open>\<^verbatim>\<open>Run\<close> with one answer per tick: without a URL it returns before the first query.\<close>

definition rates_Run :: "prom list \<Rightarrow> RateCache \<Rightarrow> RateCache" where
  "rates_Run qs r = (if rc_baseURL r = [] then r else foldl (\<lambda>r q. rates_refresh q r) r qs)"

definition rates_Rates :: "RateCache option \<Rightarrow> float64 \<times> float64" where
  "rates_Rates r = (case r of None \<Rightarrow> (Fin 0, Fin 0) | Some r \<Rightarrow> (rc_writes r, rc_reads r))"

definition rates_Host :: "RateCache option \<Rightarrow> (float64 \<times> float64 \<times> float64) \<times> bool" where
  "rates_Host r =
     (case r of
        None \<Rightarrow> ((Fin 0, Fin 0, Fin 0), False)
      | Some r \<Rightarrow> ((rc_cpuBusyPct r, rc_memUsedBytes r, rc_memTotalBytes r), rc_hostOK r))"

definition rates_Stepdowns :: "RateCache option \<Rightarrow> nat \<times> bool" where
  "rates_Stepdowns r =
     (case r of
        None \<Rightarrow> (0, False)
      | Some r \<Rightarrow>
          (if \<not> rc_stepdownsOK r \<or> fLess (rc_stepdowns r) (Fin 0) then (0, False)
           else (toUint64 (rc_stepdowns r), True)))"

lemma rates_Run_disabled [simp]: "rates_Run qs (NewRateCache []) = NewRateCache []"
  by (simp add: rates_Run_def NewRateCache_def trimRight_def)

end
