(* ===== verification/Programs.thy ===== *)
theory Programs
  imports GoText CpState KvCluster
begin

text \<open>
  The command-line programs (\<^verbatim>\<open>cmd/node\<close>, \<^verbatim>\<open>cmd/loadgen\<close>, \<^verbatim>\<open>cmd/controlplane\<close>): how they read
  their configuration from the environment, the load generator's rate controller and requests,
  and the node's traffic agent. The environment is a function, empty where a variable is unset;
  parsing of durations and floating-point numbers is a parameter. Rates are rational numbers.

  The lemmas: printed peer lists parse to themselves, the two peer parsers agree, the controller
  keeps its rate between its bounds and returns to the ceiling, and the requests of a restarted
  traffic agent are taken for retries.
\<close>

section \<open>Peer lists\<close>

type_synonym environ = "string \<Rightarrow> string"

definition env :: "environ \<Rightarrow> string \<Rightarrow> string \<Rightarrow> string" where
  "env os k def = (if os k \<noteq> [] then os k else def)"

datatype peerError = WantIdAddr string | BadId string

text \<open>One part between commas: nothing when it is blank, else an identifier and an address.\<close>

definition parsePart :: "string \<Rightarrow> peerError + (nat \<times> string) option" where
  "parsePart part0 =
     (let part = trimSpace part0
      in if part = [] then Inr None
         else case cut (CHR ''='') part of
                None \<Rightarrow> Inl (WantIdAddr part)
              | Some (idStr, addr) \<Rightarrow>
                  (case parseUint (trimSpace idStr) of
                     None \<Rightarrow> Inl (BadId idStr)
                   | Some n \<Rightarrow> Inr (Some (n, trimSpace addr))))"

fun parseParts :: "string list \<Rightarrow> (nat \<rightharpoonup> string) \<Rightarrow> peerError + (nat \<rightharpoonup> string)" where
  "parseParts [] out = Inr out"
| "parseParts (p # ps) out =
     (case parsePart p of
        Inl err \<Rightarrow> Inl err
      | Inr None \<Rightarrow> parseParts ps out
      | Inr (Some (n, addr)) \<Rightarrow> parseParts ps (out(n \<mapsto> addr)))"

definition parsePeers :: "string \<Rightarrow> peerError + (nat \<rightharpoonup> string)" where
  "parsePeers s0 =
     (let s = trimSpace s0 in if s = [] then Inr Map.empty else parseParts (split (CHR '','') s) Map.empty)"

definition loadgen_parsePeers :: "string \<Rightarrow> peerError + (nat \<rightharpoonup> string)" where
  "loadgen_parsePeers s = parseParts (split (CHR '','') s) Map.empty"

fun parseNodeParts :: "string list \<Rightarrow> (nat \<times> string) list \<Rightarrow> peerError + (nat \<times> string) list" where
  "parseNodeParts [] out = Inr out"
| "parseNodeParts (p # ps) out =
     (case parsePart p of
        Inl err \<Rightarrow> Inl err
      | Inr None \<Rightarrow> parseNodeParts ps out
      | Inr (Some n) \<Rightarrow> parseNodeParts ps (out @ [n]))"

definition parseNodes :: "string \<Rightarrow> peerError + (nat \<times> string) list" where
  "parseNodes s = parseNodeParts (split (CHR '','') s) []"

definition defaultNodes :: string where
  "defaultNodes = join '','' (map (\<lambda>i. showNat i @ ''=kmc-node-'' @ showNat i) [1, 2, 3, 4, 5, 6, 7])"

section \<open>The node program\<close>

record config =
  cf_id :: nat
  cf_dataDir :: string
  cf_raftAddr :: string
  cf_kvAddr :: string
  cf_metricsAddr :: string
  cf_peerIDs :: "nat set"
  cf_raftPeers :: "nat \<rightharpoonup> string"
  cf_kvPeers :: "nat \<rightharpoonup> string"
  cf_runAgent :: bool
  cf_timings :: Timings
  cf_snapshotEntries :: nat
  cf_snapshotRetain :: int

type_synonym parseDuration = "string \<Rightarrow> int option"

definition loadSnapshotRetain :: "environ \<Rightarrow> int" where
  "loadSnapshotRetain os =
     (let v = os ''SNAPSHOT_RETAIN''
      in if v = [] then 0 else case atoi v of None \<Rightarrow> 0 | Some n \<Rightarrow> n)"

definition loadSnapshotEntries :: "environ \<Rightarrow> nat" where
  "loadSnapshotEntries os =
     (let v = os ''SNAPSHOT_ENTRIES''
      in if v = [] then 0 else case parseUint v of None \<Rightarrow> 0 | Some n \<Rightarrow> (if n < 512 then 512 else n))"

definition durVar :: "parseDuration \<Rightarrow> environ \<Rightarrow> string \<Rightarrow> int" where
  "durVar pd os key =
     (let v = os key
      in if v = [] then 0 else case pd v of None \<Rightarrow> 0 | Some d \<Rightarrow> (if d \<le> 0 then 0 else d))"

definition stallVar :: "parseDuration \<Rightarrow> environ \<Rightarrow> string \<Rightarrow> int" where
  "stallVar pd os key =
     (let v = os key in if v = [] then 0 else case pd v of None \<Rightarrow> 0 | Some d \<Rightarrow> d)"

definition loadTimings :: "parseDuration \<Rightarrow> environ \<Rightarrow> Timings" where
  "loadTimings pd os =
     \<lparr>ElectionTimeoutMin = durVar pd os ''RAFT_ELECTION_TIMEOUT_MIN'',
      ElectionTimeoutMax = durVar pd os ''RAFT_ELECTION_TIMEOUT_MAX'',
      HeartbeatInterval = durVar pd os ''RAFT_HEARTBEAT_INTERVAL'',
      TickInterval = durVar pd os ''RAFT_TICK_INTERVAL'',
      CommitStallTimeout = stallVar pd os ''RAFT_COMMIT_STALL_TIMEOUT''\<rparr>"

datatype loadError = NodeIdError | PeersError peerError | KvPeersError peerError | AgentNeedsPeers

definition loadConfig :: "parseDuration \<Rightarrow> environ \<Rightarrow> loadError + config" where
  "loadConfig pd os =
     (case parseUint (env os ''NODE_ID'' []) of
        None \<Rightarrow> Inl NodeIdError
      | Some n \<Rightarrow>
          if n = 0 then Inl NodeIdError
          else case parsePeers (env os ''PEERS'' []) of
            Inl err \<Rightarrow> Inl (PeersError err)
          | Inr raftPeers \<Rightarrow>
              (case parsePeers (env os ''KV_PEERS'' []) of
                 Inl err \<Rightarrow> Inl (KvPeersError err)
               | Inr kvPeers \<Rightarrow>
                   (let runAgent = equalFold (env os ''RUN_AGENT'' ''false'') ''true''
                    in if runAgent \<and> kvPeers = Map.empty then Inl AgentNeedsPeers
                       else Inr \<lparr>cf_id = n, cf_dataDir = env os ''DATA_DIR'' ''/data'',
                                 cf_raftAddr = env os ''RAFT_ADDR'' ''0.0.0.0:7000'',
                                 cf_kvAddr = env os ''KV_ADDR'' ''0.0.0.0:8000'',
                                 cf_metricsAddr = env os ''METRICS_ADDR'' ''0.0.0.0:9100'',
                                 cf_peerIDs = dom raftPeers, cf_raftPeers = raftPeers, cf_kvPeers = kvPeers,
                                 cf_runAgent = runAgent, cf_timings = loadTimings pd os,
                                 cf_snapshotEntries = loadSnapshotEntries os,
                                 cf_snapshotRetain = loadSnapshotRetain os\<rparr>)))"

definition agentInterval :: "parseDuration \<Rightarrow> environ \<Rightarrow> int" where
  "agentInterval pd os =
     (let v = os ''AGENT_INTERVAL''
      in if v = [] then 1500 * 1000000
         else case pd v of Some d \<Rightarrow> (if d > 0 then d else 1500 * 1000000) | None \<Rightarrow> 1500 * 1000000)"

text \<open>
  The traffic agent: one tick issues the next request of client \<^verbatim>\<open>traffic\<close>; after an error the
  next tick uses the same number again. \<open>val\<close> is the printed time, \<open>ok\<close> whether the call
  succeeded.
\<close>

definition bytesOf :: "string \<Rightarrow> bytes" where
  "bytesOf s = map of_char s"

definition trafficCommand :: "u64 \<Rightarrow> string \<Rightarrow> Command_kv" where
  "trafficCommand seq val =
     \<lparr>kv_Op = OpPut_kv, ClientID = bytesOf ''traffic'', RequestID = seq, kv_Key = bytesOf ''demo/heartbeat'',
      kv_Value = bytesOf val, Expect = []\<rparr>"

definition trafficTick :: "string \<Rightarrow> bool \<Rightarrow> u64 \<Rightarrow> Command_kv \<times> u64" where
  "trafficTick val ok seq0 =
     (let seq = seq0 + 1 in (trafficCommand seq val, if ok then seq else seq - 1))"

section \<open>The load generator\<close>

definition envInt :: "environ \<Rightarrow> string \<Rightarrow> int \<Rightarrow> int" where
  "envInt os k def =
     (let v = env os k [] in if v = [] then def else case atoi v of None \<Rightarrow> def | Some n \<Rightarrow> n)"

definition envFloat :: "(string \<Rightarrow> float64 option) \<Rightarrow> environ \<Rightarrow> string \<Rightarrow> float64 \<Rightarrow> float64" where
  "envFloat pf os k def =
     (let v = env os k [] in if v = [] then def else case pf v of None \<Rightarrow> def | Some n \<Rightarrow> n)"

record pool =
  pl_workers :: int
  pl_maxQPS :: rat
  pl_minQPS :: rat
  pl_adapt :: bool

text \<open>The normalisation at the start of \<^verbatim>\<open>runPool\<close>; \<^term>\<open>None\<close> when the pool is off.\<close>

definition startPool :: "pool \<Rightarrow> pool option" where
  "startPool p0 =
     (let p = (if pl_workers p0 < 1 then p0\<lparr>pl_workers := 1\<rparr> else p0)
      in if pl_maxQPS p \<le> 0 then None
         else Some (if pl_minQPS p \<le> 0 \<or> pl_minQPS p > pl_maxQPS p then p\<lparr>pl_minQPS := pl_maxQPS p\<rparr> else p))"

definition intervalFor :: "rat \<Rightarrow> int" where
  "intervalFor qps = (let iv = \<lfloor>1000000000 / qps\<rfloor> in if iv < 1000 then 1000 else iv)"

record controller =
  ct_cur :: rat
  ct_interval :: int
  ct_lastOK :: u64
  ct_lastFail :: u64

definition startController :: "pool \<Rightarrow> controller" where
  "startController p =
     \<lparr>ct_cur = pl_maxQPS p, ct_interval = intervalFor (pl_maxQPS p), ct_lastOK = 0, ct_lastFail = 0\<rparr>"

text \<open>One control tick with the counters' values \<open>okN\<close> and \<open>failN\<close>.\<close>

definition controlTick :: "pool \<Rightarrow> controller \<Rightarrow> u64 \<times> u64 \<Rightarrow> controller" where
  "controlTick p c counts =
     (case counts of (okN, failN) \<Rightarrow>
        if \<not> pl_adapt p then c
        else let dOK = okN - ct_lastOK c; dFail = failN - ct_lastFail c;
                 c1 = c\<lparr>ct_lastOK := okN, ct_lastFail := failN\<rparr>; total = dOK + dFail
             in if total = 0 then c1
                else let rate = of_nat (unat dFail) / of_nat (unat total) :: rat; cur = ct_cur c
                     in if rate > 1/5
                        then (let nxt = max (cur / 2) (pl_minQPS p)
                              in if nxt \<noteq> cur then c1\<lparr>ct_cur := nxt, ct_interval := intervalFor nxt\<rparr> else c1)
                        else if rate < 1/20 \<and> cur < pl_maxQPS p
                        then (let nxt = min (cur + 1/20 * pl_maxQPS p) (pl_maxQPS p)
                              in c1\<lparr>ct_cur := nxt, ct_interval := intervalFor nxt\<rparr>)
                        else c1)"

text \<open>A worker's requests; the counter starts at zero in every process.\<close>

definition loadWrite :: "nat \<Rightarrow> u64 \<Rightarrow> Command_kv" where
  "loadWrite worker n =
     \<lparr>kv_Op = OpPut_kv, ClientID = bytesOf (''loadgen-w-'' @ showNat worker), RequestID = n,
      kv_Key = bytesOf (''load/w/'' @ showNat (unat n mod 10000)), kv_Value = bytesOf (showNat (unat n)), Expect = []\<rparr>"

definition loadReadKey :: "u64 \<Rightarrow> bytes" where
  "loadReadKey n = bytesOf (''load/w/'' @ showNat (unat n mod 10000))"

definition workerTick :: "bool \<Rightarrow> u64 \<times> u64 \<times> u64 \<Rightarrow> u64 \<times> u64 \<times> u64" where
  "workerTick ok s = (case s of (n, okN, failN) \<Rightarrow> (n + 1, if ok then okN + 1 else okN, if ok then failN else failN + 1))"

section \<open>Peer lists: proofs\<close>

definition printPeers :: "(nat \<times> string) list \<Rightarrow> string" where
  "printPeers ps = join '','' (map (\<lambda>(n, a). showNat n @ ''='' @ a) ps)"

definition plainAddr :: "string \<Rightarrow> bool" where
  "plainAddr a \<longleftrightarrow> a \<noteq> [] \<and> trimmed a \<and> CHR '','' \<notin> set a"

lemma digits_plain:
  "set s \<subseteq> set digits \<Longrightarrow> c \<in> set s \<Longrightarrow> \<not> isSpace c \<and> c \<noteq> CHR ''='' \<and> c \<noteq> CHR '',''"
  by (auto simp: digits_def isSpace_def)

lemma showNat_plain: "c \<in> set (showNat n) \<Longrightarrow> \<not> isSpace c \<and> c \<noteq> CHR ''='' \<and> c \<noteq> CHR '',''"
  using digits_plain [OF showNat_digits] .

lemma showNat_trimmed [simp]: "trimmed (showNat n)"
  using showNat_plain by (intro trimmed_no_space) (auto simp: list_all_iff)

lemma parsePart_print:
  assumes "n < 2 ^ 64" and "plainAddr a"
  shows "parsePart (showNat n @ ''='' @ a) = Inr (Some (n, a))"
proof -
  let ?p = "showNat n @ CHR ''='' # a"
  have "hd ?p = hd (showNat n)" by (simp add: hd_append)
  moreover have "\<not> isSpace (hd (showNat n))" using showNat_plain [OF hd_in_set [OF showNat_not_Nil]] by blast
  moreover have "last ?p = last a" using assms(2) by (simp add: plainAddr_def)
  ultimately have "trimmed ?p" using assms(2) by (auto simp: trimmed_def plainAddr_def)
  moreover have "cut (CHR ''='') ?p = Some (showNat n, a)"
    using showNat_plain by (intro cut_append) blast
  ultimately show ?thesis
    using assms by (simp add: parsePart_def plainAddr_def)
qed

lemma parseParts_print:
  "list_all (\<lambda>(n, a). n < 2 ^ 64 \<and> plainAddr a) ps \<Longrightarrow>
     parseParts (map (\<lambda>(n, a). showNat n @ ''='' @ a) ps) out = Inr (out ++ map_of (rev ps))"
proof (induction ps arbitrary: out)
  case (Cons p ps)
  then show ?case
    using parsePart_print [of "fst p" "snd p"] by (simp add: split_beta)
qed simp

lemma print_parts:
  assumes "list_all (\<lambda>(n, a). n < 2 ^ 64 \<and> plainAddr a) ps" and "ps \<noteq> []"
  shows "split (CHR '','') (printPeers ps) = map (\<lambda>(n, a). showNat n @ ''='' @ a) ps"
  unfolding printPeers_def
  using assms showNat_plain
  by (intro split_join) (auto simp: list_all_iff plainAddr_def)

text \<open>Blank space around the whole list is blank space around its first and last parts.\<close>

lemma trimSpace_parts:
  obtains ws vs where "s = ws @ trimSpace s @ vs" and "list_all isSpace ws" and "list_all isSpace vs"
proof -
  let ?d = "dropWhile isSpace s"
  have "?d = trimSpace s @ rev (takeWhile isSpace (rev ?d))"
    using takeWhile_dropWhile_id [of isSpace "rev ?d"] by (metis rev_append rev_rev_ident trimSpace_def)
  then have "s = takeWhile isSpace s @ trimSpace s @ rev (takeWhile isSpace (rev ?d))"
    by (metis takeWhile_dropWhile_id)
  moreover have "list_all isSpace (takeWhile isSpace s)" "list_all isSpace (rev (takeWhile isSpace (rev ?d)))"
    by (auto simp: list_all_iff dest: set_takeWhileD)
  ultimately show ?thesis using that by blast
qed

lemma trimSpace_Cons: "isSpace x \<Longrightarrow> trimSpace (x # s) = trimSpace s"
  by (simp add: trimSpace_def)

lemma trimSpace_snoc: "isSpace x \<Longrightarrow> trimSpace (s @ [x]) = trimSpace s"
  by (cases "\<forall>y\<in>set s. isSpace y") (auto simp: trimSpace_def dropWhile_append dest: set_dropWhileD)

lemma trimSpace_idem [simp]: "trimSpace (trimSpace s) = trimSpace s"
proof -
  obtain ws vs where s: "s = ws @ trimSpace s @ vs" "list_all isSpace ws" "list_all isSpace vs"
    by (rule trimSpace_parts)
  have l: "list_all isSpace ws \<Longrightarrow> trimSpace (ws @ t) = trimSpace t" for t
    by (induction ws) (simp_all add: trimSpace_Cons)
  have r: "list_all isSpace vs \<Longrightarrow> trimSpace (t @ vs) = trimSpace t" for t
    by (induction vs rule: rev_induct) (simp_all add: trimSpace_snoc append_assoc [symmetric] del: append_assoc)
  have "trimSpace s = trimSpace (ws @ trimSpace s @ vs)" using s(1) by simp
  also have "\<dots> = trimSpace (trimSpace s)" using l [OF s(2)] r [OF s(3)] by simp
  finally show ?thesis by simp
qed

lemma parsePart_trim: "parsePart (trimSpace p) = parsePart p"
  by (simp add: parsePart_def)

lemma parseParts_trim: "parseParts (map trimSpace ps) out = parseParts ps out"
  by (induction ps arbitrary: out) (simp_all add: parsePart_trim split: sum.split option.split)

lemma split_Cons_space:
  assumes "isSpace x" and "\<not> isSpace c"
  shows "map trimSpace (split c (x # s)) = map trimSpace (split c s)"
  using assms by (cases "split c s") (auto simp: trimSpace_Cons)

lemma split_snoc:
  "x \<noteq> c \<Longrightarrow> split c (s @ [x]) = butlast (split c s) @ [last (split c s) @ [x]]"
proof (induction s)
  case (Cons a s)
  obtain y ys where "split c s = y # ys" by (cases "split c s") simp_all
  with Cons show ?case by auto
qed simp

lemma split_snoc_space:
  assumes "isSpace x" and "\<not> isSpace c"
  shows "map trimSpace (split c (s @ [x])) = map trimSpace (split c s)"
proof -
  have "x \<noteq> c" using assms by auto
  then have "map trimSpace (split c (s @ [x])) = map trimSpace (butlast (split c s)) @ [trimSpace (last (split c s))]"
    using assms(1) by (simp add: split_snoc trimSpace_snoc)
  also have "\<dots> = map trimSpace (split c s)"
    by (metis append_butlast_last_id list.simps(8,9) map_append split_not_Nil)
  finally show ?thesis .
qed

lemma split_trim:
  assumes "\<not> isSpace c"
  shows "map trimSpace (split c (trimSpace s)) = map trimSpace (split c s)"
proof -
  obtain ws vs where s: "s = ws @ trimSpace s @ vs" "list_all isSpace ws" "list_all isSpace vs"
    by (rule trimSpace_parts)
  have l: "list_all isSpace ws \<Longrightarrow> map trimSpace (split c (ws @ t)) = map trimSpace (split c t)" for t
    using assms by (induction ws) (auto simp: split_Cons_space simp del: split.simps)
  have r: "list_all isSpace vs \<Longrightarrow> map trimSpace (split c (t @ vs)) = map trimSpace (split c t)" for t
    using assms
    by (induction vs rule: rev_induct)
       (auto simp: split_snoc_space append_assoc [symmetric] simp del: append_assoc)
  have "map trimSpace (split c s) = map trimSpace (split c (ws @ trimSpace s @ vs))" using s(1) by simp
  also have "\<dots> = map trimSpace (split c (trimSpace s))" using l [OF s(2)] r [OF s(3)] by simp
  finally show ?thesis by simp
qed

lemma parsePart_Nil: "parsePart [] = Inr None"
  by (simp add: parsePart_def trimSpace_def)

lemma parsers_equal: "parsePeers s = loadgen_parsePeers s"
proof -
  have sp: "map trimSpace (split (CHR '','') s) = map trimSpace (split (CHR '','') (trimSpace s))"
    by (rule split_trim [symmetric]) (simp add: isSpace_def)
  have "loadgen_parsePeers s = parseParts (map trimSpace (split (CHR '','') s)) Map.empty"
    by (simp add: loadgen_parsePeers_def parseParts_trim)
  also have "\<dots> = parseParts (split (CHR '','') (trimSpace s)) Map.empty"
    unfolding sp parseParts_trim ..
  also have "\<dots> = parsePeers s"
    by (cases "trimSpace s = []") (simp_all add: parsePeers_def parsePart_Nil Let_def)
  finally show ?thesis by simp
qed

section \<open>The rate controller: proofs\<close>

definition poolOk :: "pool \<Rightarrow> bool" where
  "poolOk p \<longleftrightarrow> 0 < pl_minQPS p \<and> pl_minQPS p \<le> pl_maxQPS p \<and> pl_workers p \<ge> 1"

lemma startPool_ok: "startPool p0 = Some p \<Longrightarrow> poolOk p"
  by (auto simp: startPool_def poolOk_def Let_def split: if_splits)

definition inBounds :: "pool \<Rightarrow> controller \<Rightarrow> bool" where
  "inBounds p c \<longleftrightarrow>
     pl_minQPS p \<le> ct_cur c \<and> ct_cur c \<le> pl_maxQPS p \<and> ct_interval c = intervalFor (ct_cur c)"

lemma controlTick_cases:
  obtains (keep) "ct_cur (controlTick p c counts) = ct_cur c" and "ct_interval (controlTick p c counts) = ct_interval c"
  | (move) r where "r = max (ct_cur c / 2) (pl_minQPS p) \<or> r = min (ct_cur c + 1/20 * pl_maxQPS p) (pl_maxQPS p)"
      and "ct_cur (controlTick p c counts) = r" and "ct_interval (controlTick p c counts) = intervalFor r"
proof -
  have "ct_cur (controlTick p c counts) = ct_cur c \<and> ct_interval (controlTick p c counts) = ct_interval c \<or>
    (\<exists>r. (r = max (ct_cur c / 2) (pl_minQPS p) \<or> r = min (ct_cur c + 1/20 * pl_maxQPS p) (pl_maxQPS p)) \<and>
         ct_cur (controlTick p c counts) = r \<and> ct_interval (controlTick p c counts) = intervalFor r)"
    by (cases counts) (simp add: controlTick_def Let_def)
  then show ?thesis using that by blast
qed

lemma controlTick_bounds:
  assumes "poolOk p" and "inBounds p c"
  shows "inBounds p (controlTick p c counts)"
proof (cases rule: controlTick_cases [of p c counts])
  case keep
  with assms(2) show ?thesis by (simp add: inBounds_def)
next
  case (move r)
  have b: "0 < pl_minQPS p" "pl_minQPS p \<le> ct_cur c" "ct_cur c \<le> pl_maxQPS p"
    using assms by (simp_all add: inBounds_def poolOk_def)
  then have "ct_cur c / 2 \<le> pl_maxQPS p" "pl_minQPS p \<le> ct_cur c + 1/20 * pl_maxQPS p" "pl_minQPS p \<le> pl_maxQPS p"
    by linarith+
  with move show ?thesis by (auto simp: inBounds_def)
qed

text \<open>A healthy tick: some requests were made since the last one, and few of them failed.\<close>

definition healthy :: "controller \<Rightarrow> u64 \<times> u64 \<Rightarrow> bool" where
  "healthy c counts \<longleftrightarrow>
     (case counts of (okN, failN) \<Rightarrow>
        okN - ct_lastOK c + (failN - ct_lastFail c) \<noteq> 0 \<and>
        20 * unat (failN - ct_lastFail c) < unat (okN - ct_lastOK c + (failN - ct_lastFail c)))"

fun allHealthy :: "pool \<Rightarrow> controller \<Rightarrow> (u64 \<times> u64) list \<Rightarrow> bool" where
  "allHealthy p c [] \<longleftrightarrow> True"
| "allHealthy p c (x # xs) \<longleftrightarrow> healthy c x \<and> allHealthy p (controlTick p c x) xs"

lemma healthy_tick:
  assumes "healthy c x" and "pl_adapt p" and "poolOk p" and "ct_cur c \<le> pl_maxQPS p"
  shows "ct_cur (controlTick p c x) = min (ct_cur c + 1/20 * pl_maxQPS p) (pl_maxQPS p)"
proof -
  obtain okN failN where x: "x = (okN, failN)" by fastforce
  let ?f = "failN - ct_lastFail c" and ?n = "okN - ct_lastOK c + (failN - ct_lastFail c)"
  have n: "?n \<noteq> 0" "20 * unat ?f < unat ?n" using assms(1) by (simp_all add: healthy_def x)
  have ratio: "20 * F < N \<Longrightarrow> of_nat F / of_nat N < (1/20 :: rat)" for F N :: nat
  proof -
    assume "20 * F < N"
    then have "of_nat (20 * F) < (of_nat N :: rat)" "(0::rat) < of_nat N" by (simp_all only: of_nat_less_iff of_nat_0_less_iff)
    then show ?thesis by (simp add: divide_less_eq)
  qed
  have r: "of_nat (unat ?f) / of_nat (unat ?n) < (1/20 :: rat)" by (rule ratio [OF n(2)])
  then have nr: "\<not> (of_nat (unat ?f) / of_nat (unat ?n) > (1/5 :: rat))" by linarith
  have max: "0 < pl_maxQPS p" using assms(3) by (auto simp: poolOk_def)
  show ?thesis
  proof (cases "ct_cur c < pl_maxQPS p")
    case True
    then show ?thesis using assms(2) n(1) r nr by (simp add: controlTick_def x Let_def)
  next
    case False
    with assms(4) have "ct_cur c = pl_maxQPS p" by simp
    then show ?thesis using assms(2) n(1) r nr max by (simp add: controlTick_def x Let_def)
  qed
qed

lemma healthy_ramp:
  assumes "poolOk p" and "pl_adapt p"
  shows "allHealthy p c xs \<Longrightarrow> inBounds p c \<Longrightarrow>
    ct_cur (foldl (controlTick p) c xs) = min (ct_cur c + of_nat (length xs) / 20 * pl_maxQPS p) (pl_maxQPS p)"
proof (induction xs arbitrary: c)
  case Nil
  then show ?case by (simp add: inBounds_def min_def)
next
  case (Cons x xs)
  have max: "0 < pl_maxQPS p" using assms(1) by (auto simp: poolOk_def)
  let ?c = "controlTick p c x"
  have t: "ct_cur ?c = min (ct_cur c + 1/20 * pl_maxQPS p) (pl_maxQPS p)"
    using Cons.prems healthy_tick [OF _ assms(2,1)] by (auto simp: inBounds_def)
  have "ct_cur (foldl (controlTick p) ?c xs) = min (ct_cur ?c + of_nat (length xs) / 20 * pl_maxQPS p) (pl_maxQPS p)"
    using Cons.IH [of ?c] Cons.prems controlTick_bounds [OF assms(1)] by simp
  moreover have "0 \<le> of_nat (length xs) / 20 * pl_maxQPS p" using max by simp
  ultimately show ?case using t by (auto simp: min_def field_simps)
qed

lemma ticks_bounds: "poolOk p \<Longrightarrow> inBounds p c \<Longrightarrow> inBounds p (foldl (controlTick p) c xs)"
  by (induction xs arbitrary: c) (simp_all add: controlTick_bounds)

section \<open>Properties\<close>

text \<open>
  C20. Peer lists: a list of peers printed as \<^verbatim>\<open>id=host:port\<close> joined by commas is read back by the
  node and by the load generator as the same map, a later entry for an identifier replacing an
  earlier one; and on any text whatsoever the two parsers agree.
\<close>

theorem peers_round_trip:
  assumes "list_all (\<lambda>(n, a). n < 2 ^ 64 \<and> plainAddr a) ps" and "ps \<noteq> []"
  shows "parsePeers (printPeers ps) = Inr (map_of (rev ps)) \<and> parsePeers s = loadgen_parsePeers s"
  using parseParts_print [OF assms(1), of Map.empty] print_parts [OF assms]
  by (simp add: parsers_equal) (simp add: loadgen_parsePeers_def)

theorem peers_round_trip_witness:
  "parsePeers (printPeers [(1, ''node1:8000''), (2, ''node2:8000'')]) =
     Inr [1 \<mapsto> ''node1:8000'', 2 \<mapsto> ''node2:8000''] \<and> parsePeers '' , '' = loadgen_parsePeers '' , ''"
  using peers_round_trip [of "[(1, ''node1:8000''), (2, ''node2:8000'')]" "'' , ''"]
  by (simp add: plainAddr_def trimmed_def isSpace_def)


fun goodTicks :: "u64 \<Rightarrow> u64 \<Rightarrow> nat \<Rightarrow> (u64 \<times> u64) list" where
  "goodTicks a f 0 = []"
| "goodTicks a f (Suc n) = (a + 1, f) # goodTicks (a + 1) f n"

lemma controlTick_counts:
  "pl_adapt p \<Longrightarrow> ct_lastOK (controlTick p c (a, f)) = a \<and> ct_lastFail (controlTick p c (a, f)) = f"
  by (simp add: controlTick_def Let_def)

lemma goodTicks_healthy:
  "pl_adapt p \<Longrightarrow> ct_lastOK c = a \<Longrightarrow> ct_lastFail c = f \<Longrightarrow> allHealthy p c (goodTicks a f n)"
proof (induction n arbitrary: c a)
  case (Suc n)
  from controlTick_counts [OF Suc.prems(1), of c "a + 1" f] Suc.IH [of "controlTick p c (a + 1, f)" "a + 1"] Suc.prems
  show ?case by (simp add: healthy_def)
qed simp

lemma goodTicks_length: "length (goodTicks a f n) = n"
  by (induction n arbitrary: a) simp_all

definition demoPool :: pool where
  "demoPool = \<lparr>pl_workers = 64, pl_maxQPS = 1500, pl_minQPS = 50, pl_adapt = True\<rparr>"


section \<open>A restarted traffic agent\<close>

text \<open>The requests of one life of the agent in which every call succeeds.\<close>

fun agentRun :: "string list \<Rightarrow> u64 \<Rightarrow> Command_kv list" where
  "agentRun [] seq = []"
| "agentRun (v # vs) seq = (case trafficTick v True seq of (c, seq') \<Rightarrow> c # agentRun vs seq')"

definition agentKey :: "u64 \<Rightarrow> DedupKey" where
  "agentKey n = \<lparr>dk_Client = bytesOf ''traffic'', dk_RequestID = n\<rparr>"

lemma traffic_simps [simp]:
  "dedupKey (trafficCommand n v) = agentKey n" "ClientID (trafficCommand n v) = bytesOf ''traffic''"
  "RequestID (trafficCommand n v) = n" "identified (trafficCommand n v) \<longleftrightarrow> n \<noteq> 0"
  by (simp_all add: trafficCommand_def dedupKey_def agentKey_def identified_def bytesOf_def)

lemma agentRun_Cons [simp]: "agentRun (v # vs) seq = trafficCommand (seq + 1) v # agentRun vs (seq + 1)"
  by (simp add: trafficTick_def Let_def)

declare agentRun.simps(2) [simp del]

lemma small_Suc: "unat (n :: u64) \<le> 128 \<Longrightarrow> unat (n + 1) = unat n + 1 \<and> n + 1 \<noteq> 0"
  by (simp add: unat_word_ariths unat_eq_0 [symmetric])

lemma agentRun_windowed:
  assumes "\<And>mx. unat (mx (bytesOf ''traffic'')) \<le> 129 \<Longrightarrow> windowed mx rest"
  shows "unat seq + length vs \<le> 129 \<Longrightarrow> unat (mx (bytesOf ''traffic'')) \<le> 129 \<Longrightarrow>
     windowed mx (agentRun vs seq @ rest)"
proof (induction vs arbitrary: seq mx)
  case (Cons v vs)
  from Cons.prems(1) have s: "unat (seq + 1) = unat seq + 1" "seq + 1 \<noteq> 0" using small_Suc [of seq] by auto
  let ?mx = "mx(bytesOf ''traffic'' := max (mx (bytesOf ''traffic'')) (seq + 1))"
  have "unat (?mx (bytesOf ''traffic'')) \<le> 129" using Cons.prems s by (simp add: max_def)
  then have w: "windowed ?mx (agentRun vs (seq + 1) @ rest)"
    by (rule Cons.IH [rotated]) (use Cons.prems s in simp)
  have "unat (mx (bytesOf ''traffic'')) \<le> unat (seq + 1) + 128" "unat (seq + 1) + 128 < 2 ^ 64"
    using Cons.prems s(1) by simp_all
  with w s(2) show ?case unfolding agentRun_Cons append_Cons windowed.simps traffic_simps by presburger
qed (simp add: assms)

lemma agentRun_remembers:
  "unat seq + length vs \<le> 129 \<Longrightarrow> i < length vs \<Longrightarrow>
     snd (snd (serveAll (agentRun vs seq) S)) (agentKey (seq + 1 + word_of_nat i)) \<noteq> None"
proof (induction vs arbitrary: seq S i)
  case (Cons v vs)
  from Cons.prems(1) have s: "unat (seq + 1) = unat seq + 1" "seq + 1 \<noteq> 0" using small_Suc [of seq] by auto
  let ?S = "snd (serve (trafficCommand (seq + 1) v) S)"
  show ?case
  proof (cases i)
    case 0
    have "identified (trafficCommand (seq + 1) v)" using s(2) by simp
    then obtain r where "snd ?S (agentKey (seq + 1)) = Some r"
      using serve_records [of "trafficCommand (seq + 1) v" S] by (metis traffic_simps(1))
    from serveAll_remembers [OF this, of "agentRun vs (seq + 1)"] 0 show ?thesis by (simp add: split_beta)
  next
    case (Suc j)
    with Cons.IH [of "seq + 1" j ?S] Cons.prems s(1) show ?thesis by (simp add: split_beta add.assoc)
  qed
qed simp

lemma agentRun_repeats:
  assumes "\<And>i. i < length ws \<Longrightarrow> snd S (agentKey (seq + 1 + word_of_nat i)) \<noteq> None"
    and "unat seq + length ws \<le> 129"
  shows "list_all Duplicate (fst (serveAll (agentRun ws seq) S)) \<and> snd (serveAll (agentRun ws seq) S) = S"
  using assms
proof (induction ws arbitrary: seq)
  case (Cons w ws)
  from Cons.prems(2) have s: "unat (seq + 1) = unat seq + 1" "seq + 1 \<noteq> 0" using small_Suc [of seq] by auto
  obtain r where r: "snd S (agentKey (seq + 1)) = Some r" using Cons.prems(1) [of 0] by auto
  then have c: "serve (trafficCommand (seq + 1) w) S = (r\<lparr>Duplicate := True\<rparr>, S)"
    using s(2) by (cases S) (simp add: serve_def)
  have "snd S (agentKey (seq + 1 + 1 + word_of_nat i)) \<noteq> None" if "i < length ws" for i
    using Cons.prems(1) [of "Suc i"] that by (simp add: add.assoc)
  with Cons.IH [of "seq + 1"] Cons.prems(2) s(1) show ?case by (simp add: c split_beta)
qed simp

text \<open>
  C40. A restarted traffic agent writes nothing. The agent numbers its requests from one in every
  process and always as client \<^verbatim>\<open>traffic\<close>; the requests of its second life carry numbers the
  machine remembers from the first, so for as long as the second life is no longer than the first
  (of up to 128 requests) every heartbeat is answered as a duplicate and the stored heartbeat keeps
  the value of the first life.
\<close>

theorem restarted_agent_writes_nothing:
  assumes "length vs \<le> 128" and "length ws \<le> length vs"
    and "m = snd (applyAll (agentRun vs 0) (NewMachine cs))"
  shows "list_all Duplicate (fst (applyAll (agentRun ws 0) m)) \<and>
    m_data (snd (applyAll (agentRun ws 0) m)) = m_data m"
proof -
  let ?s = "snd (serveAll (agentRun vs 0) (fmempty, Map.empty))"
  have "windowed mx (agentRun ws 0 @ [])" if "unat (mx (bytesOf ''traffic'')) \<le> 129" for mx
    by (rule agentRun_windowed) (use assms that in simp_all)
  then have "windowed (\<lambda>_. 0) (agentRun vs 0 @ agentRun ws 0)"
    by (intro agentRun_windowed) (use assms in simp_all)
  with serves_all [OF serves_NewMachine, of cs "agentRun vs 0" "agentRun ws 0"]
  have m: "serves m ?s" "windowed (goGet (m_maxReq m)) (agentRun ws 0)" by (simp_all add: assms(3))
  have rep: "list_all Duplicate (fst (serveAll (agentRun ws 0) ?s)) \<and> snd (serveAll (agentRun ws 0) ?s) = ?s"
    using agentRun_remembers [of 0 vs _ "(fmempty, Map.empty)"] assms(1,2) by (intro agentRun_repeats) simp_all
  have "fst (applyAll (agentRun ws 0) m) = fst (serveAll (agentRun ws 0) ?s)"
    "serves (snd (applyAll (agentRun ws 0) m)) (snd (serveAll (agentRun ws 0) ?s))"
    using serves_all [OF m(1), of "agentRun ws 0" "[]"] m(2) by simp_all
  with rep servesD(1) [OF m(1)] servesD(1) show ?thesis by fastforce
qed

theorem restarted_agent_writes_nothing_witness:
  "m_data (snd (applyAll (agentRun [''3''] 0) (snd (applyAll (agentRun [''1'', ''2''] 0) (NewMachine no_chan))))) =
   m_data (snd (applyAll (agentRun [''1'', ''2''] 0) (NewMachine no_chan)))"
  using restarted_agent_writes_nothing [of "[''1'', ''2'']" "[''3'']", OF _ _ refl, of no_chan] by simp

end
