(* ===== verification/DockerApi.thy ===== *)
theory DockerApi
  imports GoText "HOL-Library.List_Lexorder" "HOL-Library.Char_ord"
begin

text \<open>
  The client of the Docker Engine API (\<^verbatim>\<open>internal/controlplane/docker.go\<close>). The daemon on the
  other side of the socket is a parameter: a function from a request and the daemon's state to a
  reply and the next state. A reply is a transport error or a status with a body; a body carries
  its text, what decoding it into the three types the client uses yields, \<^term>\<open>None\<close> when
  the text does not decode, and the decoder's error text for that case. Each operation is the request it sends, the statuses it accepts, and
  what it reads from the reply.
\<close>

section \<open>Requests and replies\<close>

record httpReq =
  reqMethod :: string
  urlPath :: string
  containerArg :: "string option"

record listEntry =
  le_Names :: "string list"
  le_State :: string
  le_Networks :: "string list"

record inspectBody =
  ib_Running :: bool
  ib_Status :: string
  ib_Networks :: "string list"

record httpBody =
  rawText :: string
  decodeError :: string
  asMessage :: "string option"
  asList :: "listEntry list option"
  asInspect :: "inspectBody option"

datatype httpReply = NoReply string | Reply nat httpBody

type_synonym 'd daemon = "httpReq \<Rightarrow> 'd \<Rightarrow> httpReply \<times> 'd"

record containerState =
  cs_Running :: bool
  cs_Status :: string
  cs_Networks :: "string list"

section \<open>One request\<close>

definition daemonMessage :: "httpBody \<Rightarrow> string" where
  "daemonMessage b =
     (case asMessage b of
        Some m \<Rightarrow> (if m \<noteq> [] then m else trimSpace (take 4096 (rawText b)))
      | None \<Rightarrow> trimSpace (take 4096 (rawText b)))"

definition reqText :: "httpReq \<Rightarrow> string" where
  "reqText q = ''controlplane: docker '' @ reqMethod q @ '' '' @ urlPath q @ '': ''"

text \<open>
  \<open>decode\<close> stands for the \<^verbatim>\<open>out\<close> argument: what the caller wants read from an accepted reply.
\<close>

definition docker_do ::
  "'d daemon \<Rightarrow> httpReq \<Rightarrow> (httpBody \<Rightarrow> 'a option) \<Rightarrow> nat list \<Rightarrow> ('d, string, 'a) io" where
  "docker_do dm q decode ok w =
     (case dm q w of (rep, w') \<Rightarrow>
        (case rep of
           NoReply m \<Rightarrow> (Inl (reqText q @ m), w')
         | Reply code b \<Rightarrow>
             (if code \<in> set ok
              then (case decode b of
                      None \<Rightarrow> (Inl (reqText q @ ''decode: '' @ decodeError b), w')
                    | Some x \<Rightarrow> (Inr x, w'))
              else (Inl (reqText q @ showNat code @ '' '' @ daemonMessage b), w'))))"

definition discard :: "httpBody \<Rightarrow> unit option" where
  "discard b = Some ()"

section \<open>The operations\<close>

definition listReq :: httpReq where
  "listReq = \<lparr>reqMethod = ''GET'', urlPath = ''/containers/json?all=1'', containerArg = None\<rparr>"

definition inspectReq :: "string \<Rightarrow> httpReq" where
  "inspectReq name =
     \<lparr>reqMethod = ''GET'', urlPath = ''/containers/'' @ pathEscape name @ ''/json'', containerArg = None\<rparr>"

definition stopReq :: "string \<Rightarrow> nat \<Rightarrow> httpReq" where
  "stopReq name timeoutSec =
     \<lparr>reqMethod = ''POST'', urlPath = ''/containers/'' @ pathEscape name @ ''/stop?t='' @ showNat timeoutSec,
      containerArg = None\<rparr>"

definition startReq :: "string \<Rightarrow> httpReq" where
  "startReq name =
     \<lparr>reqMethod = ''POST'', urlPath = ''/containers/'' @ pathEscape name @ ''/start'', containerArg = None\<rparr>"

definition connectReq :: "string \<Rightarrow> string \<Rightarrow> httpReq" where
  "connectReq network name =
     \<lparr>reqMethod = ''POST'', urlPath = ''/networks/'' @ pathEscape network @ ''/connect'',
      containerArg = Some name\<rparr>"

definition disconnectReq :: "string \<Rightarrow> string \<Rightarrow> httpReq" where
  "disconnectReq network name =
     \<lparr>reqMethod = ''POST'', urlPath = ''/networks/'' @ pathEscape network @ ''/disconnect'',
      containerArg = Some name\<rparr>"

definition networkNames :: "string list \<Rightarrow> string list" where
  "networkNames m = sort m"

definition listState :: "listEntry \<Rightarrow> containerState" where
  "listState c =
     \<lparr>cs_Running = (le_State c = ''running'' \<or> le_State c = ''paused'' \<or> le_State c = ''restarting''),
      cs_Status = le_State c, cs_Networks = networkNames (le_Networks c)\<rparr>"

definition listStates :: "listEntry list \<Rightarrow> (string \<rightharpoonup> containerState)" where
  "listStates cs =
     foldl (\<lambda>out c. foldl (\<lambda>out name. out(trimPrefix ''/'' name \<mapsto> listState c)) out (le_Names c))
       Map.empty cs"

definition docker_containers :: "'d daemon \<Rightarrow> ('d, string, string \<rightharpoonup> containerState) io" where
  "docker_containers dm =
     bindE (docker_do dm listReq asList [200]) (\<lambda>cs. returnE (listStates cs))"

definition inspectState :: "inspectBody \<Rightarrow> containerState" where
  "inspectState b =
     \<lparr>cs_Running = ib_Running b, cs_Status = ib_Status b, cs_Networks = networkNames (ib_Networks b)\<rparr>"

definition docker_inspect :: "'d daemon \<Rightarrow> string \<Rightarrow> ('d, string, containerState) io" where
  "docker_inspect dm name =
     bindE (docker_do dm (inspectReq name) asInspect [200]) (\<lambda>b. returnE (inspectState b))"

definition docker_stop :: "'d daemon \<Rightarrow> string \<Rightarrow> nat \<Rightarrow> ('d, string, unit) io" where
  "docker_stop dm name timeoutSec = docker_do dm (stopReq name timeoutSec) discard [204, 304]"

definition docker_start :: "'d daemon \<Rightarrow> string \<Rightarrow> ('d, string, unit) io" where
  "docker_start dm name = docker_do dm (startReq name) discard [204, 304]"

definition networkConnect :: "'d daemon \<Rightarrow> string \<Rightarrow> string \<Rightarrow> ('d, string, unit) io" where
  "networkConnect dm network name = docker_do dm (connectReq network name) discard [200]"

definition networkDisconnect :: "'d daemon \<Rightarrow> string \<Rightarrow> string \<Rightarrow> ('d, string, unit) io" where
  "networkDisconnect dm network name = docker_do dm (disconnectReq network name) discard [200]"

section \<open>What an operation does to the daemon\<close>

text \<open>
  Every operation sends exactly one request, so the daemon's state after it is the state after
  that request. The requests about one container are \<open>nodeReqs\<close>.
\<close>

definition nodeReqs :: "string \<Rightarrow> string \<Rightarrow> httpReq set" where
  "nodeReqs network name =
     {inspectReq name, stopReq name 1, startReq name, connectReq network name, disconnectReq network name}"

lemma docker_do_state [simp]: "snd (docker_do dm q decode ok w) = snd (dm q w)"
  by (auto simp: docker_do_def split: prod.splits httpReply.splits option.splits)

lemma bindE_return_state [simp]: "snd (bindE m (\<lambda>x. returnE (f x)) w) = snd (m w)"
  by (auto simp: bindE_def split: prod.splits sum.splits)

lemma docker_states [simp]:
  "snd (docker_containers dm w) = snd (dm listReq w)"
  "snd (docker_inspect dm name w) = snd (dm (inspectReq name) w)"
  "snd (docker_stop dm name n w) = snd (dm (stopReq name n) w)"
  "snd (docker_start dm name w) = snd (dm (startReq name) w)"
  "snd (networkConnect dm net name w) = snd (dm (connectReq net name) w)"
  "snd (networkDisconnect dm net name w) = snd (dm (disconnectReq net name) w)"
  by (simp_all add: docker_containers_def docker_inspect_def docker_stop_def docker_start_def
      networkConnect_def networkDisconnect_def)

lemma nodeReqs_mem [simp]:
  "inspectReq name \<in> nodeReqs net name" "stopReq name 1 \<in> nodeReqs net name"
  "startReq name \<in> nodeReqs net name" "connectReq net name \<in> nodeReqs net name"
  "disconnectReq net name \<in> nodeReqs net name"
  by (simp_all add: nodeReqs_def)

text \<open>A request about a container names it: requests about different containers differ.\<close>

lemma nodeReqs_inject:
  assumes "q \<in> nodeReqs net m" and "q \<in> nodeReqs net n"
  shows "m = n"
  using assms
  by (auto simp: nodeReqs_def inspectReq_def stopReq_def startReq_def connectReq_def disconnectReq_def
      dest: first_segment)

end
