(* ===== verification/AuditLog.thy ===== *)
theory AuditLog
  imports CpState Files
begin

text \<open>
  The durable incident record of the control plane (\<^verbatim>\<open>internal/controlplane/audit.go\<close>): opening,
  appending one JSON line with its \<^verbatim>\<open>fsync\<close>, rotation at 8MB, the edge detection of
  \<^verbatim>\<open>observe\<close>, and \<^verbatim>\<open>tailAudit\<close>. The file system is the one of \<open>Files\<close>, with its scripted
  faults. Encoding an entry is \<^verbatim>\<open>json.Marshal\<close>, a parameter that may fail. A nil
  \<^verbatim>\<open>*auditLog\<close> is \<^term>\<open>None\<close> where an operation is called on it.

  The lemmas describe the file after a write, show that what was written is what
  \<^verbatim>\<open>tailAudit\<close> returns, and settle when a tick writes a line.
\<close>

section \<open>Entries\<close>

record AuditEntry =
  ae_Time :: int
  ae_Kind :: string
  ae_Detail :: string
  ae_Alive :: nat
  ae_Total :: nat
  ae_Quorum :: bool
  ae_Term :: nat
  ae_LeaderID :: nat
  ae_CommitIndex :: nat
  ae_WritesPerSec :: float64
  ae_ReadsPerSec :: float64
  ae_HostCPUPct :: "float64 option"
  ae_ChaosNode :: nat
  ae_ChaosAgeMs :: int

type_synonym marshal = "AuditEntry \<Rightarrow> bytes option"

definition plainEntry :: "int \<Rightarrow> string \<Rightarrow> string \<Rightarrow> AuditEntry" where
  "plainEntry t kind detail =
     \<lparr>ae_Time = t, ae_Kind = kind, ae_Detail = detail, ae_Alive = 0, ae_Total = 0, ae_Quorum = False,
      ae_Term = 0, ae_LeaderID = 0, ae_CommitIndex = 0, ae_WritesPerSec = Fin 0, ae_ReadsPerSec = Fin 0,
      ae_HostCPUPct = None, ae_ChaosNode = 0, ae_ChaosAgeMs = 0\<rparr>"

definition chaosAuditContext :: int where
  "chaosAuditContext = 5 * 60 * second"

definition entryFrom :: "int \<Rightarrow> string \<Rightarrow> string \<Rightarrow> Snapshot \<Rightarrow> nat \<Rightarrow> AuditEntry" where
  "entryFrom t kind detail snap maxCommit =
     (let e = \<lparr>ae_Time = t, ae_Kind = kind, ae_Detail = detail, ae_Alive = sn_Alive snap,
               ae_Total = sn_Total snap, ae_Quorum = sn_Quorum snap, ae_Term = sn_Term snap,
               ae_LeaderID = sn_LeaderID snap, ae_CommitIndex = maxCommit,
               ae_WritesPerSec = sn_WritesPerSec snap, ae_ReadsPerSec = sn_ReadsPerSec snap,
               ae_HostCPUPct = sn_HostCpuBusyPct snap, ae_ChaosNode = 0, ae_ChaosAgeMs = 0\<rparr>
      in case sn_Chaos snap of
           None \<Rightarrow> e
         | Some c \<Rightarrow>
             (if ci_Node c \<noteq> 0 \<and> ci_AgeMs c \<ge> 0 \<and> ci_AgeMs c \<le> milliseconds chaosAuditContext
              then e\<lparr>ae_ChaosNode := ci_Node c, ae_ChaosAgeMs := ci_AgeMs c\<rparr>
              else e))"

definition maxCommitIndex :: "NodeStatus list \<Rightarrow> nat" where
  "maxCommitIndex nodes = foldl (\<lambda>m n. if st_CommitIndex n > m then st_CommitIndex n else m) 0 nodes"

section \<open>The log\<close>

record auditLog =
  al_path :: string
  al_f :: "nat option"
  al_size :: nat
  al_started :: bool
  al_lastQuorum :: bool
  al_lastLeader :: nat
  al_lastCommit :: nat
  al_commitSince :: int
  al_stalled :: bool
  al_lastStepdow :: nat
  al_seenStepdow :: bool

definition auditMaxBytes :: nat where
  "auditMaxBytes = 8 * 1024 * 1024"

definition auditStallAfter :: int where
  "auditStallAfter = 60 * second"

definition openAuditLog :: "string \<Rightarrow> (world, io_error, auditLog option) io" where
  "openAuditLog path =
     (if path = [] then returnE None
      else bindE (os_OpenAppend path) (\<lambda>f w.
        (case os_Stat path w of (sz, w') \<Rightarrow>
           (Inr (Some \<lparr>al_path = path, al_f = Some f, al_size = (case sz of Some n \<Rightarrow> n | None \<Rightarrow> 0),
                       al_started = False, al_lastQuorum = False, al_lastLeader = 0, al_lastCommit = 0,
                       al_commitSince = 0, al_stalled = False, al_lastStepdow = 0,
                       al_seenStepdow = False\<rparr>), w'))))"

definition audit_Close :: "auditLog \<Rightarrow> world \<Rightarrow> auditLog \<times> world" where
  "audit_Close a w =
     (case al_f a of None \<Rightarrow> (a, w) | Some f \<Rightarrow> (a\<lparr>al_f := None\<rparr>, snd (f_Close w)))"

definition rotateLocked :: "auditLog \<Rightarrow> world \<Rightarrow> auditLog \<times> world" where
  "rotateLocked a w =
     (case al_f a of
        None \<Rightarrow> (a, w)
      | Some f \<Rightarrow>
          (case os_Rename (al_path a) (al_path a @ ''.1'') (snd (f_Close w)) of
             (Inl _, w1) \<Rightarrow>
               (case os_OpenAppend (al_path a) w1 of
                  (Inr g, w2) \<Rightarrow> (a\<lparr>al_f := Some g\<rparr>, w2)
                | (Inl _, w2) \<Rightarrow> (a\<lparr>al_f := None\<rparr>, w2))
           | (Inr _, w1) \<Rightarrow>
               (case os_OpenAppend (al_path a) w1 of
                  (Inl _, w2) \<Rightarrow> (a\<lparr>al_f := None\<rparr>, w2)
                | (Inr g, w2) \<Rightarrow> (a\<lparr>al_f := Some g, al_size := 0\<rparr>, w2))))"

definition newline :: byte where
  "newline = 10"

definition audit_write :: "marshal \<Rightarrow> AuditEntry \<Rightarrow> auditLog \<times> world \<Rightarrow> auditLog \<times> world" where
  "audit_write enc e aw =
     (case aw of (a, w) \<Rightarrow>
        (case (al_f a, enc e) of
           (Some f, Some b) \<Rightarrow>
             (case f_Write f (b @ [newline]) w of
                (Inl _, n, w1) \<Rightarrow> (a, w1)
              | (Inr _, n, w1) \<Rightarrow>
                  (let a1 = a\<lparr>al_size := al_size a + n\<rparr>; w2 = snd (f_Sync f w1)
                   in if al_size a1 \<ge> auditMaxBytes then rotateLocked a1 w2 else (a1, w2)))
         | _ \<Rightarrow> (a, w)))"

section \<open>Edge detection\<close>

definition quorumLines :: "int \<Rightarrow> Snapshot \<Rightarrow> nat \<Rightarrow> bool \<Rightarrow> AuditEntry list" where
  "quorumLines t snap commit prevQuorum =
     (if sn_Quorum snap \<noteq> prevQuorum
      then (if sn_Quorum snap then [entryFrom t ''quorum_regained'' [] snap commit]
            else [entryFrom t ''quorum_lost''
                    (showNat (sn_Alive snap) @ '' of '' @ showNat (sn_Total snap) @ '' alive'') snap commit])
      else [])"

definition leaderLines :: "int \<Rightarrow> Snapshot \<Rightarrow> nat \<Rightarrow> nat \<Rightarrow> AuditEntry list" where
  "leaderLines t snap commit prevLeader =
     (if sn_LeaderID snap \<noteq> 0 \<and> sn_LeaderID snap \<noteq> prevLeader
      then [entryFrom t ''leader_changed''
              (if prevLeader \<noteq> 0
               then ''node '' @ showNat (sn_LeaderID snap) @ '' replaced node '' @ showNat prevLeader @
                    '' at term '' @ showNat (sn_Term snap)
               else ''node '' @ showNat (sn_LeaderID snap) @ '' now leader at term '' @ showNat (sn_Term snap))
              snap commit]
      else [])"

text \<open>The progress switch: the line it writes, the new \<^verbatim>\<open>since\<close> and the new \<^verbatim>\<open>stalled\<close>.\<close>

definition progress ::
  "int \<Rightarrow> Snapshot \<Rightarrow> nat \<Rightarrow> nat \<Rightarrow> int \<Rightarrow> bool \<Rightarrow> AuditEntry list \<times> int \<times> bool" where
  "progress t snap commit prevCommit since wasStalled =
     (if commit \<noteq> prevCommit
      then ((if wasStalled
             then [entryFrom t ''progress_resumed''
                     (''commit index moving again after '' @ roundedText (t - since) @ '' stalled at '' @
                      showNat prevCommit) snap commit]
             else []), t, False)
      else if sn_Quorum snap \<and> sn_LeaderID snap \<noteq> 0 \<and> \<not> wasStalled \<and> t - since \<ge> auditStallAfter
      then ([entryFrom t ''progress_stalled''
               (''commit index frozen at '' @ showNat commit @ '' for '' @ roundedText (t - since) @
                '' with quorum and a leader'') snap commit], since, True)
      else ([], since, wasStalled))"

definition stepdownLines :: "int \<Rightarrow> Snapshot \<Rightarrow> nat \<Rightarrow> nat \<Rightarrow> bool \<Rightarrow> nat \<Rightarrow> bool \<Rightarrow> AuditEntry list" where
  "stepdownLines t snap commit stepdowns ok prevStep sawStep =
     (if ok \<and> sawStep \<and> stepdowns > prevStep
      then [entryFrom t ''watchdog_stepdown''
              (''raft commit-stall watchdog deposed a leader ('' @ showNat stepdowns @
               '' total since node start)'') snap commit]
      else [])"

text \<open>
  The lines one call of \<^verbatim>\<open>observe\<close> writes, in order, and the state it remembers. The writes in
  between change only the file fields, so the lines can be collected first.
\<close>

definition observed :: "Snapshot \<Rightarrow> nat \<Rightarrow> bool \<Rightarrow> int \<Rightarrow> auditLog \<Rightarrow> AuditEntry list" where
  "observed snap stepdowns ok t a =
     (let commit = maxCommitIndex (sn_Nodes snap)
      in if \<not> al_started a
         then [entryFrom t ''controlplane_started'' ''audit log opened'' snap commit]
         else quorumLines t snap commit (al_lastQuorum a) @
              leaderLines t snap commit (al_lastLeader a) @
              fst (progress t snap commit (al_lastCommit a) (al_commitSince a) (al_stalled a)) @
              stepdownLines t snap commit stepdowns ok (al_lastStepdow a) (al_seenStepdow a))"

definition noticed :: "Snapshot \<Rightarrow> nat \<Rightarrow> bool \<Rightarrow> int \<Rightarrow> auditLog \<Rightarrow> auditLog \<Rightarrow> auditLog" where
  "noticed snap stepdowns ok t a0 a =
     (let commit = maxCommitIndex (sn_Nodes snap)
      in if \<not> al_started a0
         then a\<lparr>al_started := True, al_lastQuorum := sn_Quorum snap, al_lastLeader := sn_LeaderID snap,
                al_lastCommit := commit, al_commitSince := t, al_stalled := False,
                al_lastStepdow := stepdowns, al_seenStepdow := ok\<rparr>
         else (case progress t snap commit (al_lastCommit a0) (al_commitSince a0) (al_stalled a0) of
                 (_, since, stalled) \<Rightarrow>
                   a\<lparr>al_started := True, al_lastQuorum := sn_Quorum snap, al_lastLeader := sn_LeaderID snap,
                     al_lastCommit := commit, al_commitSince := since, al_stalled := stalled,
                     al_lastStepdow := (if ok then stepdowns else al_lastStepdow a0),
                     al_seenStepdow := (ok \<or> al_seenStepdow a0)\<rparr>))"

definition observe ::
  "marshal \<Rightarrow> Snapshot \<Rightarrow> nat \<Rightarrow> bool \<Rightarrow> int \<Rightarrow> auditLog \<times> world \<Rightarrow> auditLog \<times> world" where
  "observe enc snap stepdowns ok t aw =
     (case foldl (\<lambda>aw e. audit_write enc e aw) aw (observed snap stepdowns ok t (fst aw)) of
        (a, w) \<Rightarrow> (noticed snap stepdowns ok t (fst aw) a, w))"

section \<open>Reading the log\<close>

text \<open>The loop over the bytes: \<open>cur\<close> is \<^verbatim>\<open>b[start:i]\<close>.\<close>

fun auditLines :: "bytes \<Rightarrow> bytes \<Rightarrow> bytes list" where
  "auditLines [] cur = (if cur = [] then [] else [cur])"
| "auditLines (c # cs) cur =
     (if c = newline then (if cur = [] then auditLines cs [] else cur # auditLines cs [])
      else auditLines cs (cur @ [c]))"

datatype tailError = TailDisabled | TailNotExist | TailUnreadable

definition lastLines :: "nat \<Rightarrow> 'a list \<Rightarrow> 'a list" where
  "lastLines limit out = (if limit > 0 \<and> length out > limit then drop (length out - limit) out else out)"

definition tailAudit :: "string \<Rightarrow> nat \<Rightarrow> (world, tailError, bytes list) io" where
  "tailAudit path limit w =
     (if path = [] then (Inl TailDisabled, w)
      else (case os_ReadFile path w of
              (Inl _, w1) \<Rightarrow> (Inl TailUnreadable, w1)
            | (Inr None, w1) \<Rightarrow> (Inl TailNotExist, w1)
            | (Inr (Some b), w1) \<Rightarrow> (Inr (lastLines limit (auditLines b [])), w1)))"

section \<open>What is written is what is read\<close>

text \<open>
  \<open>logged\<close>: the log is open, its file is the one under its path and holds exactly \<open>ls\<close>, and
  the size it keeps is the file's. On a disk without faults a write below the rotation size keeps
  this with one more line; a write that reaches it moves the file to \<^verbatim>\<open>.1\<close> and starts an empty
  one.
\<close>

definition joinLines :: "bytes list \<Rightarrow> bytes" where
  "joinLines ls = concat (map (\<lambda>l. l @ [newline]) ls)"

definition cleanLine :: "bytes \<Rightarrow> bool" where
  "cleanLine l \<longleftrightarrow> l \<noteq> [] \<and> newline \<notin> set l"

definition logged :: "auditLog \<Rightarrow> world \<Rightarrow> bytes list \<Rightarrow> bool" where
  "logged a w ls \<longleftrightarrow>
     faults w = [] \<and> al_path a \<noteq> [] \<and>
     (case al_f a of
        None \<Rightarrow> False
      | Some f \<Rightarrow> dirents w (al_path a) = Some f \<and> contents w f = joinLines ls \<and> f < next_ino w) \<and>
     al_size a = length (joinLines ls)"

lemma joinLines_simps [simp]:
  "joinLines [] = []" "joinLines (ls @ [l]) = joinLines ls @ l @ [newline]"
  by (simp_all add: joinLines_def)

lemma auditLines_prefix:
  "newline \<notin> set l \<Longrightarrow> auditLines (l @ newline # bs) cur =
     (if cur @ l = [] then auditLines bs [] else (cur @ l) # auditLines bs [])"
  by (induction l arbitrary: cur) auto

lemma auditLines_joinLines: "list_all cleanLine ls \<Longrightarrow> auditLines (joinLines ls) [] = ls"
  by (induction ls) (auto simp: joinLines_def cleanLine_def auditLines_prefix)

text \<open>A torn last line is returned like a whole one.\<close>

lemma auditLines_torn_tail:
  assumes "list_all cleanLine ls" and "t \<noteq> []" and "newline \<notin> set t"
  shows "auditLines (joinLines ls @ t) [] = ls @ [t]"
proof -
  have t: "auditLines t cur = [cur @ t]" if "cur @ t \<noteq> []" "newline \<notin> set t" for t cur
    using that by (induction t arbitrary: cur) auto
  show ?thesis
    using assms by (induction ls) (auto simp: t joinLines_def cleanLine_def auditLines_prefix)
qed

lemma next_fault_none: "faults w = [] \<Longrightarrow> next_fault w = Fine \<and> faults (tick w) = []"
  by (simp add: next_fault_def tick_def)

lemma write_appends:
  assumes "logged a w ls" and "enc e = Some b" and "al_size a + length b + 1 < auditMaxBytes"
  shows "case audit_write enc e (a, w) of (a', w') \<Rightarrow>
           logged a' w' (ls @ [b]) \<and> al_path a' = al_path a"
proof -
  obtain f where f: "al_f a = Some f" "dirents w (al_path a) = Some f" "contents w f = joinLines ls" "f < next_ino w"
    using assms(1) by (auto simp: logged_def split: option.splits)
  show ?thesis
    using assms f
    by (auto simp: audit_write_def logged_def f_Write_def f_Sync_def sys_def next_fault_def tick_def Let_def
        set_inode_def contents_def synced_file_def)
qed

lemma write_rotates:
  assumes "logged a w ls" and "enc e = Some b" and "al_size a + length b + 1 \<ge> auditMaxBytes"
  shows "case audit_write enc e (a, w) of (a', w') \<Rightarrow>
           logged a' w' [] \<and> al_path a' = al_path a \<and>
           (case dirents w' (al_path a @ ''.1'') of
              Some g \<Rightarrow> contents w' g = joinLines (ls @ [b]) | None \<Rightarrow> False)"
proof -
  obtain f where f: "al_f a = Some f" "dirents w (al_path a) = Some f" "contents w f = joinLines ls" "f < next_ino w"
    using assms(1) by (auto simp: logged_def split: option.splits)
  show ?thesis
    using assms f
    by (auto simp: audit_write_def logged_def f_Write_def f_Sync_def f_Close_def os_Rename_def os_OpenAppend_def
        rotateLocked_def fresh_file_def set_dirents_def
        sys_def next_fault_def tick_def Let_def set_inode_def contents_def synced_file_def)
qed

definition writeAll :: "marshal \<Rightarrow> AuditEntry list \<Rightarrow> auditLog \<times> world \<Rightarrow> auditLog \<times> world" where
  "writeAll enc es aw = foldl (\<lambda>aw e. audit_write enc e aw) aw es"

lemma writes_append:
  assumes "logged a w ls" and "list_all (\<lambda>e. enc e \<noteq> None) es"
    and "length (joinLines (ls @ map (\<lambda>e. the (enc e)) es)) < auditMaxBytes"
  shows "case writeAll enc es (a, w) of (a', w') \<Rightarrow>
           logged a' w' (ls @ map (\<lambda>e. the (enc e)) es) \<and> al_path a' = al_path a"
  using assms
proof (induction es arbitrary: a w ls)
  case Nil
  then show ?case by (simp add: writeAll_def)
next
  case (Cons e es)
  obtain b where b: "enc e = Some b" using Cons.prems(2) by auto
  have "al_size a + length b + 1 < auditMaxBytes"
    using Cons.prems(1,3) b by (auto simp: logged_def joinLines_def)
  from write_appends [where enc = enc and e = e, OF Cons.prems(1) b this]
  obtain a1 w1 where w1: "audit_write enc e (a, w) = (a1, w1)" "logged a1 w1 (ls @ [b])" "al_path a1 = al_path a"
    by (auto split: prod.splits)
  with Cons.IH [OF w1(2)] Cons.prems(2,3) b show ?case
    by (simp add: writeAll_def split: prod.splits)
qed

lemma tail_reads:
  assumes "logged a w ls" and "list_all cleanLine ls"
  shows "fst (tailAudit (al_path a) limit w) = Inr (lastLines limit ls)"
  using assms
  by (auto simp: tailAudit_def logged_def os_ReadFile_def os_Open_def next_fault_def tick_def bindE_def
      auditLines_joinLines split: option.splits)

section \<open>When a tick writes\<close>

text \<open>What a tick compares: the previous observation agrees with the view in every respect.\<close>

definition steady :: "Snapshot \<Rightarrow> nat \<Rightarrow> bool \<Rightarrow> int \<Rightarrow> auditLog \<Rightarrow> bool" where
  "steady snap stepdowns ok t a \<longleftrightarrow>
     al_started a \<and> sn_Quorum snap = al_lastQuorum a \<and>
     (sn_LeaderID snap = 0 \<or> sn_LeaderID snap = al_lastLeader a) \<and>
     (maxCommitIndex (sn_Nodes snap) \<noteq> al_lastCommit a \<and> \<not> al_stalled a \<or>
      maxCommitIndex (sn_Nodes snap) = al_lastCommit a \<and>
        (al_stalled a \<or> t - al_commitSince a < auditStallAfter \<or> \<not> sn_Quorum snap \<or> sn_LeaderID snap = 0)) \<and>
     (ok \<longrightarrow> al_seenStepdow a \<longrightarrow> stepdowns \<le> al_lastStepdow a)"

lemma observed_none: "observed snap stepdowns ok t a = [] \<longleftrightarrow> steady snap stepdowns ok t a"
  by (auto simp: observed_def steady_def quorumLines_def leaderLines_def progress_def stepdownLines_def Let_def)

lemma observe_steady_file:
  "steady snap stepdowns ok t (fst aw) \<Longrightarrow> snd (observe enc snap stepdowns ok t aw) = snd aw"
  by (simp add: observe_def observed_none [symmetric] split: prod.splits)

text \<open>Writing a line touches the file fields only, never what edge detection remembers.\<close>

definition memory :: "auditLog \<Rightarrow> auditLog" where
  "memory a = a\<lparr>al_f := None, al_size := 0\<rparr>"

lemma rotate_memory: "memory (fst (rotateLocked a w)) = memory a"
  by (auto simp: rotateLocked_def memory_def split: option.splits prod.splits sum.splits)

lemma write_memory: "memory (fst (audit_write enc e aw)) = memory (fst aw)"
  by (auto simp: audit_write_def Let_def memory_def rotate_memory [unfolded memory_def]
      split: prod.splits option.splits sum.splits)

lemma writes_memory: "memory (fst (foldl (\<lambda>aw e. audit_write enc e aw) aw es)) = memory (fst aw)"
  by (induction es arbitrary: aw) (simp_all add: write_memory)

lemma noticed_memory: "memory (noticed snap n ok t a0 a) = noticed snap n ok t a0 (memory a)"
  by (auto simp: noticed_def memory_def Let_def split: prod.splits)

lemma observe_memory:
  "memory (fst (observe enc snap n ok t aw)) = noticed snap n ok t (fst aw) (memory (fst aw))"
  by (auto simp: observe_def noticed_memory writes_memory split: prod.splits)
     (metis fst_conv noticed_memory writes_memory)

definition ticks ::
  "marshal \<Rightarrow> (Snapshot \<times> nat \<times> bool \<times> int) list \<Rightarrow> auditLog \<times> world \<Rightarrow> auditLog \<times> world" where
  "ticks enc vs aw = foldl (\<lambda>aw (snap, n, ok, t). observe enc snap n ok t aw) aw vs"

definition frozenAt :: "nat \<Rightarrow> int \<Rightarrow> auditLog \<Rightarrow> bool" where
  "frozenAt c t0 a \<longleftrightarrow>
     al_started a \<and> \<not> al_stalled a \<and> al_lastCommit a = c \<and> al_commitSince a = t0"

definition outage :: "nat \<Rightarrow> (Snapshot \<times> nat \<times> bool \<times> int) \<Rightarrow> bool" where
  "outage c v \<longleftrightarrow> (case v of (snap, n, ok, t) \<Rightarrow> \<not> sn_Quorum snap \<and> maxCommitIndex (sn_Nodes snap) = c)"

lemma frozenAt_memory [simp]: "frozenAt c t0 (memory a) = frozenAt c t0 a"
  by (simp add: frozenAt_def memory_def)

lemma lastQuorum_memory [simp]: "al_lastQuorum (memory a) = al_lastQuorum a"
  by (simp add: memory_def)

lemma first_view_frozen:
  assumes "\<not> al_started (fst aw)" and "maxCommitIndex (sn_Nodes snap) = c"
  shows "frozenAt c t (fst (observe enc snap n ok t aw))"
proof -
  have "frozenAt c t (memory (fst (observe enc snap n ok t aw)))"
    using assms unfolding observe_memory by (simp add: noticed_def Let_def frozenAt_def)
  then show ?thesis by simp
qed

lemma outage_tick:
  assumes "frozenAt c t0 (fst aw)" and "outage c (snap, n, ok, t)"
  shows "frozenAt c t0 (fst (observe enc snap n ok t aw))"
    and "\<not> al_lastQuorum (fst (observe enc snap n ok t aw))"
proof -
  have "frozenAt c t0 (memory (fst (observe enc snap n ok t aw))) \<and>
        \<not> al_lastQuorum (memory (fst (observe enc snap n ok t aw)))"
    using assms unfolding observe_memory
    by (simp add: noticed_def Let_def frozenAt_def outage_def progress_def)
  then show "frozenAt c t0 (fst (observe enc snap n ok t aw))"
    and "\<not> al_lastQuorum (fst (observe enc snap n ok t aw))" by simp_all
qed

lemma outage_ticks:
  "frozenAt c t0 (fst aw) \<Longrightarrow> list_all (outage c) vs \<Longrightarrow>
     frozenAt c t0 (fst (ticks enc vs aw)) \<and> (vs = [] \<or> \<not> al_lastQuorum (fst (ticks enc vs aw)))"
proof (induction vs rule: rev_induct)
  case Nil
  then show ?case by (simp add: ticks_def)
next
  case (snoc v vs)
  obtain snap n ok t where v: "v = (snap, n, ok, t)" by (cases v) auto
  from snoc have "frozenAt c t0 (fst (ticks enc vs aw))" "outage c (snap, n, ok, t)" by (auto simp: v)
  from outage_tick [OF this] show ?case by (simp add: ticks_def v)
qed

section \<open>Properties\<close>

text \<open>
  C16. On a disk without faults, the lines written through the audit log, below the rotation
  size, are exactly what the reader returns for the log's path: whatever was in the file, then
  the new entries, in order, cut to the last \<open>limit\<close>. The encoder is only assumed to succeed
  and to give non-empty texts without a newline, as JSON encoding does.
\<close>

theorem audit_round_trip:
  assumes "logged a w ls" and "list_all cleanLine ls"
    and "list_all (\<lambda>e. enc e \<noteq> None \<and> cleanLine (the (enc e))) es"
    and "length (joinLines (ls @ map (\<lambda>e. the (enc e)) es)) < auditMaxBytes"
  shows "fst (tailAudit (al_path a) limit (snd (writeAll enc es (a, w)))) =
           Inr (lastLines limit (ls @ map (\<lambda>e. the (enc e)) es))"
proof -
  have "list_all (\<lambda>e. enc e \<noteq> None) es" using assms(3) by (auto simp: list_all_iff)
  from writes_append [where enc = enc, OF assms(1) this assms(4)]
  obtain a' w' where "writeAll enc es (a, w) = (a', w')"
    "logged a' w' (ls @ map (\<lambda>e. the (enc e)) es)" "al_path a' = al_path a"
    by (auto split: prod.splits)
  moreover have "list_all cleanLine (ls @ map (\<lambda>e. the (enc e)) es)"
    using assms(2,3) by (auto simp: list_all_iff)
  ultimately show ?thesis using tail_reads by fastforce
qed

text \<open>
  C37. A long outage is reported as a stall with quorum. Views without quorum that show an
  unmoved commit index leave the stall clock running, so the first view after the outage that
  has quorum and a leader again, at least a minute after the index was first seen, writes
  \<^verbatim>\<open>progress_stalled\<close> next to \<^verbatim>\<open>quorum_regained\<close>, although quorum has been back for one tick
  only. The comment on \<^verbatim>\<open>auditStallAfter\<close> counts only time with quorum held and a leader in
  office.
\<close>

theorem outage_reported_as_stall:
  assumes "\<not> al_started (fst aw)"
    and "maxCommitIndex (sn_Nodes snap0) = c"
    and "vs \<noteq> []" and "list_all (outage c) vs"
    and "sn_Quorum snap" and "sn_LeaderID snap \<noteq> 0" and "maxCommitIndex (sn_Nodes snap) = c"
    and "t - t0 \<ge> auditStallAfter"
  shows "{''quorum_regained'', ''progress_stalled''} \<subseteq>
           set (map ae_Kind (observed snap n ok t (fst (ticks enc vs (observe enc snap0 n0 ok0 t0 aw)))))"
proof -
  let ?a = "fst (ticks enc vs (observe enc snap0 n0 ok0 t0 aw))"
  have "frozenAt c t0 ?a" "\<not> al_lastQuorum ?a"
    using outage_ticks [OF first_view_frozen [OF assms(1,2)] assms(4)] assms(3) by blast+
  moreover have "ae_Kind (entryFrom t' k d s m) = k" for t' k d s m
    by (simp add: entryFrom_def Let_def split: option.splits)
  ultimately show ?thesis
    using assms(5-8) by (auto simp: observed_def quorumLines_def progress_def frozenAt_def Let_def)
qed

text \<open>Witnesses: a log over an empty disk, an encoder, and views of a cluster of three.\<close>

definition emptyDisk :: world where
  "emptyDisk = \<lparr>inodes = (\<lambda>_. \<lparr>i_dur = [], i_keep = 0, i_cur = []\<rparr>), next_ino = 0,
     dirents = Map.empty, past_dirents = [], faults = []\<rparr>"

definition closedLog :: auditLog where
  "closedLog = \<lparr>al_path = [], al_f = None, al_size = 0, al_started = False, al_lastQuorum = False,
     al_lastLeader = 0, al_lastCommit = 0, al_commitSince = 0, al_stalled = False,
     al_lastStepdow = 0, al_seenStepdow = False\<rparr>"

definition newLog :: "auditLog \<times> world" where
  "newLog =
     (case openAuditLog ''log'' emptyDisk of (Inr (Some a), w) \<Rightarrow> (a, w) | (_, w) \<Rightarrow> (closedLog, w))"

definition oneByte :: marshal where
  "oneByte e = Some [65]"

definition view :: "nat \<Rightarrow> nat \<Rightarrow> Snapshot" where
  "view alive leader =
     \<lparr>sn_Nodes = [], sn_Alive = alive, sn_Total = 3, sn_Quorum = (alive > 1), sn_HealAfterMs = 10000,
      sn_LeaderID = leader, sn_Term = 1, sn_UptimeMs = 0, sn_SinceLastQuorumLossMs = -1,
      sn_ActiveUsers = 0, sn_WritesPerSec = Fin 0, sn_ReadsPerSec = Fin 0, sn_HostCpuBusyPct = None,
      sn_HostMemUsedBytes = None, sn_HostMemTotalBytes = None, sn_Chaos = None, sn_Events = []\<rparr>"

lemma newLog_logged: "logged (fst newLog) (snd newLog) []" "al_path (fst newLog) = ''log''"
    "\<not> al_started (fst newLog)"
  by (simp_all add: newLog_def openAuditLog_def emptyDisk_def os_OpenAppend_def sys_def next_fault_def
      tick_def fresh_file_def set_dirents_def set_inode_def bindE_def os_Stat_def contents_def
      logged_def Let_def)

theorem audit_round_trip_witness:
  "fst (tailAudit ''log'' 200 (snd (writeAll oneByte [plainEntry 0 ''kill'' [], plainEntry 1 ''heal'' []]
     newLog))) = Inr [[65], [65]]"
  using audit_round_trip [OF newLog_logged(1), of oneByte
      "[plainEntry 0 ''kill'' [], plainEntry 1 ''heal'' []]" 200]
  by (simp add: oneByte_def cleanLine_def newline_def joinLines_def auditMaxBytes_def lastLines_def
      newLog_logged(2))

theorem outage_reported_as_stall_witness:
  "{''quorum_regained'', ''progress_stalled''} \<subseteq>
     set (map ae_Kind (observed (view 3 1) 0 False (90 * second)
       (fst (ticks oneByte [(view 1 0, 0, False, 5 * second)]
          (observe oneByte (view 3 1) 0 False 0 newLog)))))"
  by (rule outage_reported_as_stall [where c = 0])
     (simp_all add: newLog_logged outage_def view_def maxCommitIndex_def auditStallAfter_def second_def)

end
