(* ===== verification/Engine.thy ===== *)
theory Engine
  imports DockerApi AuditLog
begin

text \<open>
  The control plane's engine (\<^verbatim>\<open>internal/controlplane/engine.go\<close>) and its chaos monkey
  (\<^verbatim>\<open>chaos.go\<close>): the whitelist, kill, restart, partition and reset, heal jobs, the
  reconciler, the event ring, the snapshot cache, quorum tracking and the per-IP cooldown.

  The engine is one record; \<open>dock\<close> is the state of the Docker daemon behind the socket and
  \<open>e_disk\<close> the disk of the audit log. Each method is a function on the record, the whole method
  at one instant \<open>t\<close>. Where other goroutines matter, the method is cut at the point where they
  interleave: a heal timer's callback into its check, its work and its removal, a rebuild of the
  view into its start and its end. A heal job has a number that stands for its timer and its
  cancel channel; \<open>e_cancelled\<close> holds the numbers whose channel is closed. Random choices, the
  nodes' health endpoints and JSON encoding are parameters.
\<close>

section \<open>State\<close>

record healJob =
  hj_kind :: string
  hj_due :: int
  hj_audit :: bool
  hj_no :: nat

record probeBody =
  pb_Term :: nat
  pb_CommitIndex :: nat
  pb_LeaderID :: nat
  pb_IsLeader :: bool
  pb_Role :: string

record 'd cpenv =
  cp_daemon :: "'d daemon"
  cp_marshal :: marshal
  cp_marshalSnap :: "Snapshot \<Rightarrow> bytes option"
  cp_probe :: "nat \<Rightarrow> 'd \<Rightarrow> probeBody option"

record 'd Engine =
  dock :: 'd
  e_network :: string
  e_nodes :: "nat \<rightharpoonup> string"
  e_startedAt :: "int option"
  e_rates :: "RateCache option"
  e_ipCooldown :: int
  e_ipLast :: "string \<rightharpoonup> int"
  e_healAfter :: int
  e_heals :: "nat \<rightharpoonup> healJob"
  e_cancelled :: "nat list"
  e_nextJob :: nat
  e_events :: "Event list"
  e_eventCap :: nat
  e_viewers :: nat
  e_snap :: "(Snapshot \<times> bytes option) option"
  e_snapAt :: "int option"
  e_snapGen :: u64
  e_refreshing :: bool
  e_audit :: "auditLog option"
  e_disk :: world
  e_auditPath :: string
  e_chaosInterval :: int
  e_lastChaos :: "nat \<times> int"
  e_lastVisitorKill :: "int option"
  e_sawQuorum :: bool
  e_lastHadQuorum :: bool
  e_lastQuorumLossAt :: "int option"

type_synonym ('d, 'a) eio = "('d Engine, string, 'a) io"

record Config_cp =
  cfg_Nodes :: "(nat \<times> string) list"
  cfg_Network :: string
  cfg_IPCooldown :: int
  cfg_HealAfter :: int
  cfg_Rates :: "RateCache option"
  cfg_AuditPath :: string

datatype configError = NoNodes | InvalidNode nat string | UnsafeName string

section \<open>NewEngine\<close>

definition unsafeChars :: string where
  "unsafeChars = [CHR '' '', CHR 0x09, CHR 0x0A] @ '';$|&;<>''"

fun whitelist :: "(nat \<times> string) list \<Rightarrow> (nat \<rightharpoonup> string) \<Rightarrow> configError + (nat \<rightharpoonup> string)" where
  "whitelist [] m = Inr m"
| "whitelist ((nid, name) # ns) m =
     (if nid = 0 \<or> name = [] then Inl (InvalidNode nid name)
      else if containsAny name unsafeChars then Inl (UnsafeName name)
      else whitelist ns (m(nid \<mapsto> name)))"

definition NewEngine :: "Config_cp \<Rightarrow> int \<Rightarrow> 'd \<Rightarrow> world \<Rightarrow> (configError + 'd Engine) \<times> world" where
  "NewEngine cfg t d w =
     (if cfg_Nodes cfg = [] then (Inl NoNodes, w)
      else case whitelist (cfg_Nodes cfg) Map.empty of
             Inl err \<Rightarrow> (Inl err, w)
           | Inr nodes \<Rightarrow>
               (case openAuditLog (cfg_AuditPath cfg) w of (r, w') \<Rightarrow>
                  (Inr \<lparr>dock = d, e_network = cfg_Network cfg, e_nodes = nodes, e_startedAt = Some t,
                        e_rates = cfg_Rates cfg,
                        e_ipCooldown = (if cfg_IPCooldown cfg \<le> 0 then 2 * second else cfg_IPCooldown cfg),
                        e_ipLast = Map.empty,
                        e_healAfter = (if cfg_HealAfter cfg \<le> 0 then 10 * second else cfg_HealAfter cfg),
                        e_heals = Map.empty, e_cancelled = [], e_nextJob = 0,
                        e_events = [], e_eventCap = 64, e_viewers = 0,
                        e_snap = None, e_snapAt = None, e_snapGen = 0, e_refreshing = False,
                        e_audit = (case r of Inl _ \<Rightarrow> None | Inr a \<Rightarrow> a), e_disk = w',
                        e_auditPath = cfg_AuditPath cfg,
                        e_chaosInterval = 0, e_lastChaos = (0, 0), e_lastVisitorKill = None,
                        e_sawQuorum = False, e_lastHadQuorum = False, e_lastQuorumLossAt = None\<rparr>, w')))"

definition AddViewer :: "'d Engine \<Rightarrow> 'd Engine" where
  "AddViewer e = e\<lparr>e_viewers := e_viewers e + 1\<rparr>"

definition RemoveViewer :: "'d Engine \<Rightarrow> 'd Engine" where
  "RemoveViewer e = (if e_viewers e > 0 then e\<lparr>e_viewers := e_viewers e - 1\<rparr> else e)"

text \<open>The whitelist in the order of the identifiers, as far as the loop looks.\<close>

definition Nodes :: "'d Engine \<Rightarrow> (nat \<times> string) list" where
  "Nodes e = List.map_filter (\<lambda>nid. map_option (Pair nid) (e_nodes e nid)) [1..<65]"

section \<open>Events\<close>

definition pushRing :: "nat \<Rightarrow> Event list \<Rightarrow> Event \<Rightarrow> Event list" where
  "pushRing cap evs ev = (if length evs < cap then evs @ [ev] else tl evs @ [ev])"

definition addRingEvent :: "int \<Rightarrow> string \<Rightarrow> string \<Rightarrow> 'd Engine \<Rightarrow> 'd Engine" where
  "addRingEvent t kind message e =
     e\<lparr>e_events := pushRing (e_eventCap e) (e_events e)
         \<lparr>ev_Time = t, ev_Kind = kind, ev_Message = message\<rparr>\<rparr>"

definition auditEvent :: "'d cpenv \<Rightarrow> AuditEntry \<Rightarrow> 'd Engine \<Rightarrow> 'd Engine" where
  "auditEvent env entry e =
     (case e_audit e of
        None \<Rightarrow> e
      | Some a \<Rightarrow>
          (case audit_write (cp_marshal env) entry (a, e_disk e) of (a', w') \<Rightarrow>
             e\<lparr>e_audit := Some a', e_disk := w'\<rparr>))"

definition addEvent :: "'d cpenv \<Rightarrow> int \<Rightarrow> string \<Rightarrow> string \<Rightarrow> 'd Engine \<Rightarrow> 'd Engine" where
  "addEvent env t kind message e =
     auditEvent env (plainEntry t kind message) (addRingEvent t kind message e)"

definition invalidateSnapshot :: "'d Engine \<Rightarrow> 'd Engine" where
  "invalidateSnapshot e = e\<lparr>e_snapGen := e_snapGen e + 1, e_snapAt := None\<rparr>"

section \<open>Docker through the engine\<close>

definition dockE :: "('d, string, 'a) io \<Rightarrow> ('d, 'a) eio" where
  "dockE m e = (case m (dock e) of (r, d) \<Rightarrow> (r, e\<lparr>dock := d\<rparr>))"

definition statusFrom :: "string \<Rightarrow> nat \<times> string \<Rightarrow> containerState \<Rightarrow> NodeStatus" where
  "statusFrom network n cs =
     \<lparr>st_ID = fst n, st_ContainerName = snd n, st_Running = cs_Running cs, st_Status = cs_Status cs,
      st_Partitioned = (network \<noteq> [] \<and> cs_Running cs \<and> network \<notin> set (cs_Networks cs)),
      st_HealDueMs = 0, st_HealKind = [], st_Term = 0, st_CommitIndex = 0, st_LeaderID = 0,
      st_IsLeader = False, st_Role = []\<rparr>"

definition engine_inspect :: "'d cpenv \<Rightarrow> nat \<times> string \<Rightarrow> ('d, NodeStatus) eio" where
  "engine_inspect env n =
     bindE (dockE (docker_inspect (cp_daemon env) (snd n)))
       (\<lambda>cs e. (Inr (statusFrom (e_network e) n cs), e))"

definition engine_start :: "'d cpenv \<Rightarrow> string \<Rightarrow> ('d, unit) eio" where
  "engine_start env name = dockE (docker_start (cp_daemon env) name)"

definition connectNetwork :: "'d cpenv \<Rightarrow> string \<Rightarrow> ('d, unit) eio" where
  "connectNetwork env name e =
     (if e_network e = [] then (Inr (), e)
      else case dockE (networkConnect (cp_daemon env) (e_network e) name) e of
             (Inl m, e') \<Rightarrow> (if contains ''already'' (toLower m) then (Inr (), e') else (Inl m, e'))
           | (Inr u, e') \<Rightarrow> (Inr u, e'))"

section \<open>Heal jobs\<close>

definition healPending :: "nat \<Rightarrow> 'd Engine \<Rightarrow> bool" where
  "healPending nid e \<longleftrightarrow> e_heals e nid \<noteq> None"

definition cancelHealLocked :: "nat \<Rightarrow> healJob \<Rightarrow> 'd Engine \<Rightarrow> 'd Engine" where
  "cancelHealLocked nid job e =
     e\<lparr>e_cancelled := (if hj_no job \<in> set (e_cancelled e) then e_cancelled e else hj_no job # e_cancelled e),
       e_heals := (e_heals e)(nid := None)\<rparr>"

definition cancelHeal :: "nat \<Rightarrow> 'd Engine \<Rightarrow> 'd Engine" where
  "cancelHeal nid e = (case e_heals e nid of None \<Rightarrow> e | Some job \<Rightarrow> cancelHealLocked nid job e)"

definition scheduleHeal :: "int \<Rightarrow> nat \<Rightarrow> string \<Rightarrow> bool \<Rightarrow> 'd Engine \<Rightarrow> 'd Engine" where
  "scheduleHeal t nid kind audit e0 =
     (let e = (case e_heals e0 nid of None \<Rightarrow> e0 | Some old \<Rightarrow> cancelHealLocked nid old e0)
      in e\<lparr>e_heals := (e_heals e)(nid \<mapsto>
             \<lparr>hj_kind = kind, hj_due = t + e_healAfter e, hj_audit = audit, hj_no = e_nextJob e\<rparr>),
           e_nextJob := e_nextJob e + 1\<rparr>)"

definition emitHeal :: "'d cpenv \<Rightarrow> int \<Rightarrow> bool \<Rightarrow> string \<Rightarrow> 'd Engine \<Rightarrow> 'd Engine" where
  "emitHeal env t audit msg e =
     (if audit then addEvent env t ''heal'' msg e else addRingEvent t ''heal'' msg e)"

definition runHeal :: "'d cpenv \<Rightarrow> int \<Rightarrow> nat \<Rightarrow> string \<Rightarrow> bool \<Rightarrow> 'd Engine \<Rightarrow> 'd Engine" where
  "runHeal env t nid kind audit e =
     (case e_nodes e nid of
        None \<Rightarrow> e
      | Some name \<Rightarrow>
          (if kind = ''start'' then
             (case engine_inspect env (nid, name) e of (r, e1) \<Rightarrow>
                if (case r of Inr st \<Rightarrow> st_Running st | Inl _ \<Rightarrow> False) then e1
                else (case engine_start env name e1 of
                        (Inl m, e2) \<Rightarrow>
                          addEvent env t ''heal'' (''Node '' @ showNat nid @ '' heal start failed: '' @ m) e2
                      | (Inr _, e2) \<Rightarrow>
                          emitHeal env t audit (''Node '' @ showNat nid @ '' auto-healed (restarted)'')
                            (invalidateSnapshot
                              (if e_network e2 \<noteq> [] then snd (connectNetwork env name e2) else e2))))
           else if kind = ''reconnect'' then
             (case connectNetwork env name e of
                (Inl m, e1) \<Rightarrow>
                  addEvent env t ''heal'' (''Node '' @ showNat nid @ '' heal reconnect failed: '' @ m) e1
              | (Inr _, e1) \<Rightarrow>
                  emitHeal env t audit (''Node '' @ showNat nid @ '' auto-healed (rejoined network)'')
                    (invalidateSnapshot e1))
           else e))"

text \<open>
  The callback of a heal timer: it gives up when its channel is closed, heals, and then drops
  the entry under the node's identifier.
\<close>

definition healMayRun :: "healJob \<Rightarrow> 'd Engine \<Rightarrow> bool" where
  "healMayRun job e \<longleftrightarrow> hj_no job \<notin> set (e_cancelled e)"

definition healDone :: "nat \<Rightarrow> 'd Engine \<Rightarrow> 'd Engine" where
  "healDone nid e = e\<lparr>e_heals := (e_heals e)(nid := None)\<rparr>"

definition healFire :: "'d cpenv \<Rightarrow> int \<Rightarrow> nat \<Rightarrow> healJob \<Rightarrow> 'd Engine \<Rightarrow> 'd Engine" where
  "healFire env t nid job e =
     (if healMayRun job e then healDone nid (runHeal env t nid (hj_kind job) (hj_audit job) e) else e)"

text \<open>\<^verbatim>\<open>Close\<close> cancels every pending job; \<open>ids\<close> are the map's keys in the order the loop visits them.\<close>

definition engine_Close :: "nat list \<Rightarrow> 'd Engine \<Rightarrow> 'd Engine" where
  "engine_Close ids e =
     (let e1 = foldl (\<lambda>e nid. cancelHeal nid e) e ids
      in case e_audit e1 of
           None \<Rightarrow> e1
         | Some a \<Rightarrow> (case audit_Close a (e_disk e1) of (a', w') \<Rightarrow> e1\<lparr>e_audit := Some a', e_disk := w'\<rparr>))"

section \<open>The reconciler\<close>

definition reconcileNode ::
  "'d cpenv \<Rightarrow> int \<Rightarrow> (string \<rightharpoonup> containerState) \<Rightarrow> 'd Engine \<Rightarrow> nat \<times> string \<Rightarrow> 'd Engine" where
  "reconcileNode env t states e n =
     (if healPending (fst n) e then e
      else case states (snd n) of
        None \<Rightarrow> e
      | Some cs \<Rightarrow>
          (if st_Running (statusFrom (e_network e) n cs) \<and> \<not> st_Partitioned (statusFrom (e_network e) n cs)
           then e
           else case engine_inspect env n e of
             (Inl _, e1) \<Rightarrow> e1
           | (Inr st, e1) \<Rightarrow>
               (if healPending (fst n) e1 then e1
                else if \<not> st_Running st then
                  (case engine_start env (snd n) e1 of
                     (Inl m, e2) \<Rightarrow>
                       addEvent env t ''heal'' (''Node '' @ showNat (fst n) @ '' reconcile start failed: '' @ m) e2
                   | (Inr _, e2) \<Rightarrow>
                       addEvent env t ''heal''
                         (''Node '' @ showNat (fst n) @ '' reconciled (was down outside any heal window)'')
                         (invalidateSnapshot
                           (if e_network e2 \<noteq> [] then snd (connectNetwork env (snd n) e2) else e2)))
                else if st_Partitioned st then
                  (case connectNetwork env (snd n) e1 of
                     (Inl _, e2) \<Rightarrow> e2
                   | (Inr _, e2) \<Rightarrow>
                       addEvent env t ''heal'' (''Node '' @ showNat (fst n) @ '' reconciled (rejoined network)'')
                         (invalidateSnapshot e2))
                else e1)))"

definition reconcileOnce :: "'d cpenv \<Rightarrow> int \<Rightarrow> 'd Engine \<Rightarrow> 'd Engine" where
  "reconcileOnce env t e =
     (case dockE (docker_containers (cp_daemon env)) e of
        (Inl _, e1) \<Rightarrow> e1
      | (Inr states, e1) \<Rightarrow> foldl (reconcileNode env t states) e1 (Nodes e1))"

section \<open>Actions\<close>

datatype Action = ActionKill | ActionRestart | ActionPartition | ActionOther string

datatype killSource = killSourceVisitor | killSourceChaos

definition allowDisrupt :: "int \<Rightarrow> string \<Rightarrow> ('d, unit) eio" where
  "allowDisrupt t ip0 e =
     (let ip = (if ip0 = [] then ''unknown'' else ip0);
          wait = (case e_ipLast e ip of None \<Rightarrow> 0 | Some l \<Rightarrow> e_ipCooldown e - (t - l))
      in if wait > 0
         then (Inl (''controlplane: per-IP cooldown - retry in '' @ showInt (milliseconds wait) @ ''ms''), e)
         else (Inr (), e\<lparr>e_ipLast := (e_ipLast e)(ip \<mapsto> t)\<rparr>))"

definition noteVisitorKill :: "int \<Rightarrow> 'd Engine \<Rightarrow> 'd Engine" where
  "noteVisitorKill t e = e\<lparr>e_lastVisitorKill := Some t\<rparr>"

definition notWhitelisted :: "nat \<Rightarrow> string" where
  "notWhitelisted nid = ''controlplane: node '' @ showNat nid @ '' not in whitelist''"

definition kill :: "'d cpenv \<Rightarrow> int \<Rightarrow> nat \<Rightarrow> killSource \<Rightarrow> ('d, unit) eio" where
  "kill env t nid src e =
     (case e_nodes e nid of
        None \<Rightarrow> (Inl (notWhitelisted nid), e)
      | Some name \<Rightarrow>
          (case dockE (docker_stop (cp_daemon env) name 1)
                  (scheduleHeal t nid ''start'' (src = killSourceVisitor) (cancelHeal nid e)) of
             (Inl m, e1) \<Rightarrow> (Inl m, cancelHeal nid e1)
           | (Inr _, e1) \<Rightarrow>
               (Inr (),
                (case src of
                   killSourceChaos \<Rightarrow>
                     addRingEvent t ''chaos'' (''Machine '' @ showNat nid @ '' killed by the chaos monkey'')
                 | killSourceVisitor \<Rightarrow> addEvent env t ''kill'' (''Machine '' @ showNat nid @ '' killed''))
                (invalidateSnapshot e1))))"

definition doRestart :: "'d cpenv \<Rightarrow> int \<Rightarrow> nat \<Rightarrow> string \<Rightarrow> ('d, unit) eio" where
  "doRestart env t nid name e0 =
     (case engine_inspect env (nid, name) (cancelHeal nid e0) of
        (Inl m, e1) \<Rightarrow> (Inl m, e1)
      | (Inr st, e1) \<Rightarrow>
          (case (if \<not> st_Running st then engine_start env name e1 else (Inr (), e1)) of
             (Inl m, e2) \<Rightarrow> (Inl m, e2)
           | (Inr _, e2) \<Rightarrow>
               (Inr (),
                addEvent env t ''restart'' (''Machine '' @ showNat nid @ '' restarted'')
                  (invalidateSnapshot
                    (if st_Partitioned st \<or> e_network e2 \<noteq> [] then snd (connectNetwork env name e2) else e2)))))"

definition doPartition :: "'d cpenv \<Rightarrow> int \<Rightarrow> nat \<Rightarrow> string \<Rightarrow> ('d, unit) eio" where
  "doPartition env t nid name e0 =
     (case engine_inspect env (nid, name) (cancelHeal nid (noteVisitorKill t e0)) of
        (Inl m, e1) \<Rightarrow> (Inl m, e1)
      | (Inr st, e1) \<Rightarrow>
          (if \<not> st_Running st
           then (Inl (''controlplane: machine '' @ showNat nid @ '' is not running''), e1)
           else if st_Partitioned st
           then (Inl (''controlplane: machine '' @ showNat nid @ '' already partitioned''), e1)
           else case dockE (networkDisconnect (cp_daemon env) (e_network e1) name)
                       (scheduleHeal t nid ''reconnect'' True e1) of
             (Inl m, e2) \<Rightarrow> (Inl m, cancelHeal nid e2)
           | (Inr _, e2) \<Rightarrow>
               (Inr (),
                addEvent env t ''partition'' (''Machine '' @ showNat nid @ '' partitioned'')
                  (invalidateSnapshot e2))))"

definition Do :: "'d cpenv \<Rightarrow> int \<Rightarrow> string \<Rightarrow> nat \<Rightarrow> Action \<Rightarrow> ('d, unit) eio" where
  "Do env t ip nid action e =
     (case e_nodes e nid of
        None \<Rightarrow> (Inl (notWhitelisted nid), e)
      | Some name \<Rightarrow>
          (case action of
             ActionKill \<Rightarrow>
               bindE (allowDisrupt t ip) (\<lambda>_ e. kill env t nid killSourceVisitor (noteVisitorKill t e)) e
           | ActionRestart \<Rightarrow> doRestart env t nid name e
           | ActionPartition \<Rightarrow>
               (if e_network e = [] then (Inl ''controlplane: partition requires CONTROL_NETWORK'', e)
                else bindE (allowDisrupt t ip) (\<lambda>_. doPartition env t nid name) e)
           | ActionOther a \<Rightarrow> (Inl (''controlplane: unknown action '' @ [CHR 0x22] @ a @ [CHR 0x22]), e)))"

text \<open>One round of \<^verbatim>\<open>ResetAll\<close>'s loop collects the error texts.\<close>

definition resetNode :: "'d cpenv \<Rightarrow> string list \<times> 'd Engine \<Rightarrow> nat \<times> string \<Rightarrow> string list \<times> 'd Engine" where
  "resetNode env st n =
     (case st of (errs, e0) \<Rightarrow>
        (case engine_inspect env n (cancelHeal (fst n) e0) of
           (Inl m, e1) \<Rightarrow> (errs @ [m], e1)
         | (Inr st, e1) \<Rightarrow>
             (case (if \<not> st_Running st
                    then (case engine_start env (snd n) e1 of
                            (Inl m, e2) \<Rightarrow> (errs @ [m], e2) | (Inr _, e2) \<Rightarrow> (errs, e2))
                    else (errs, e1)) of
                (errs', e2) \<Rightarrow>
                  (errs', if e_network e2 \<noteq> [] then snd (connectNetwork env (snd n) e2) else e2))))"

definition ResetAll :: "'d cpenv \<Rightarrow> int \<Rightarrow> ('d, unit) eio" where
  "ResetAll env t e =
     (case foldl (resetNode env) ([], e) (Nodes e) of
        (errs, e1) \<Rightarrow>
          ((if errs \<noteq> [] then Inl (''controlplane: reset partial failures: '' @ join ''; '' errs) else Inr ()),
           addEvent env t ''reset'' ''Reset all: every node started and rejoined the network''
             (invalidateSnapshot e1)))"

section \<open>The cluster view\<close>

definition attachHeal :: "int \<Rightarrow> 'd Engine \<Rightarrow> NodeStatus \<Rightarrow> NodeStatus" where
  "attachHeal t e st =
     (case e_heals e (st_ID st) of
        None \<Rightarrow> st
      | Some job \<Rightarrow> st\<lparr>st_HealKind := hj_kind job, st_HealDueMs := max 0 (milliseconds (hj_due job - t))\<rparr>)"

definition attachRaft :: "'d cpenv \<Rightarrow> 'd \<Rightarrow> NodeStatus \<Rightarrow> NodeStatus" where
  "attachRaft env d st =
     (case cp_probe env (st_ID st) d of
        None \<Rightarrow> st
      | Some b \<Rightarrow> st\<lparr>st_Term := pb_Term b, st_CommitIndex := pb_CommitIndex b, st_LeaderID := pb_LeaderID b,
                     st_IsLeader := pb_IsLeader b, st_Role := pb_Role b\<rparr>)"

definition unknownStatus :: "nat \<times> string \<Rightarrow> NodeStatus" where
  "unknownStatus n = (statusFrom [] n \<lparr>cs_Running = False, cs_Status = ''unknown'', cs_Networks = []\<rparr>)"

definition listNode ::
  "'d cpenv \<Rightarrow> int \<Rightarrow> (string \<rightharpoonup> containerState) \<Rightarrow> 'd Engine \<Rightarrow> nat \<times> string \<Rightarrow> NodeStatus" where
  "listNode env t states e n =
     (let st = attachHeal t e (case states (snd n) of
                 None \<Rightarrow> unknownStatus n | Some cs \<Rightarrow> statusFrom (e_network e) n cs)
      in if st_Running st \<and> \<not> st_Partitioned st then attachRaft env (dock e) st else st)"

definition engine_List :: "'d cpenv \<Rightarrow> int \<Rightarrow> 'd Engine \<Rightarrow> NodeStatus list \<times> 'd Engine" where
  "engine_List env t e =
     (case dockE (docker_containers (cp_daemon env)) e of (r, e1) \<Rightarrow>
        (map (listNode env t (case r of Inl _ \<Rightarrow> Map.empty | Inr states \<Rightarrow> states) e1) (Nodes e1), e1))"

definition noteQuorum :: "int \<Rightarrow> bool \<Rightarrow> 'd Engine \<Rightarrow> int \<times> 'd Engine" where
  "noteQuorum t quorum e =
     (let e1 = (if \<not> e_sawQuorum e
                then e\<lparr>e_sawQuorum := True, e_lastHadQuorum := quorum,
                       e_lastQuorumLossAt := (if quorum then e_lastQuorumLossAt e else Some t)\<rparr>
                else if e_lastHadQuorum e \<and> \<not> quorum
                then e\<lparr>e_lastQuorumLossAt := Some t, e_lastHadQuorum := False\<rparr>
                else if quorum then e\<lparr>e_lastHadQuorum := True\<rparr> else e)
      in (case e_lastQuorumLossAt e1 of None \<Rightarrow> -1 | Some l \<Rightarrow> milliseconds (t - l), e1))"

text \<open>The loop over the nodes: machines alive, leader and term.\<close>

definition countNode :: "nat \<times> nat \<times> nat \<Rightarrow> NodeStatus \<Rightarrow> nat \<times> nat \<times> nat" where
  "countNode acc n =
     (case acc of (alive, leaderID, term) \<Rightarrow>
        let alive = (if st_Running n \<and> \<not> st_Partitioned n then alive + 1 else alive);
            (leaderID, term) = (if st_IsLeader n then (st_ID n, st_Term n) else (leaderID, term));
            (leaderID, term) = (if leaderID = 0 \<and> st_LeaderID n \<noteq> 0 then (st_LeaderID n, st_Term n)
                                else (leaderID, term))
        in (alive, leaderID, term))"

definition chaosInfo :: "int \<Rightarrow> 'd Engine \<Rightarrow> ChaosInfo option" where
  "chaosInfo t e =
     (if e_chaosInterval e \<le> 0 then None
      else Some \<lparr>ci_Node = fst (e_lastChaos e),
                 ci_AgeMs = (if fst (e_lastChaos e) \<noteq> 0 then milliseconds (t - snd (e_lastChaos e)) else -1),
                 ci_IntervalMs = milliseconds (e_chaosInterval e)\<rparr>)"

definition buildSnapshot :: "'d cpenv \<Rightarrow> int \<Rightarrow> 'd Engine \<Rightarrow> Snapshot \<times> 'd Engine" where
  "buildSnapshot env t e0 =
     (case engine_List env t e0 of (list, e1) \<Rightarrow>
      case foldl countNode (0, 0, 0) list of (alive, leaderID, term) \<Rightarrow>
      let total = length list; quorum = (alive > total div 2)
      in case noteQuorum t quorum e1 of (sinceLoss, e) \<Rightarrow>
         case rates_Rates (e_rates e) of (writes, reads) \<Rightarrow>
         case rates_Host (e_rates e) of ((cpu, used, totalMem), ok) \<Rightarrow>
         (\<lparr>sn_Nodes = list, sn_Alive = alive, sn_Total = total, sn_Quorum = quorum,
           sn_HealAfterMs = milliseconds (e_healAfter e), sn_LeaderID = leaderID, sn_Term = term,
           sn_UptimeMs = milliseconds (t - (case e_startedAt e of Some s \<Rightarrow> s | None \<Rightarrow> t)),
           sn_SinceLastQuorumLossMs = sinceLoss, sn_ActiveUsers = e_viewers e,
           sn_WritesPerSec = writes, sn_ReadsPerSec = reads,
           sn_HostCpuBusyPct = (if ok then Some cpu else None),
           sn_HostMemUsedBytes = (if ok then Some used else None),
           sn_HostMemTotalBytes = (if ok then Some totalMem else None),
           sn_Chaos = chaosInfo t e, sn_Events = e_events e\<rparr>, e))"

section \<open>The snapshot cache\<close>

definition snapshotMaxAge :: int where
  "snapshotMaxAge = 500 * 1000000"

definition snapshotStaleLimit :: int where
  "snapshotStaleLimit = 2 * second"

text \<open>The age of the view is below \<open>limit\<close>; an invalidated view is older than any limit.\<close>

definition younger :: "int \<Rightarrow> int \<Rightarrow> 'd Engine \<Rightarrow> bool" where
  "younger limit t e = (case e_snapAt e of None \<Rightarrow> False | Some s \<Rightarrow> t - s < limit)"

text \<open>
  \<^verbatim>\<open>refresh\<close> in two parts, since actions may run during the build: the first either finds a
  fresh view or notes the generation; the second stores what was built.
\<close>

definition refreshBegin :: "int \<Rightarrow> 'd Engine \<Rightarrow> (Snapshot \<times> bytes option) + u64" where
  "refreshBegin t e =
     (case e_snap e of
        Some v \<Rightarrow> (if younger snapshotMaxAge t e then Inl v else Inr (e_snapGen e))
      | None \<Rightarrow> Inr (e_snapGen e))"

definition refreshEnd :: "'d cpenv \<Rightarrow> int \<Rightarrow> u64 \<Rightarrow> Snapshot \<Rightarrow> 'd Engine \<Rightarrow> (Snapshot \<times> bytes option) \<times> 'd Engine" where
  "refreshEnd env t gen snap e =
     (let v = (snap, cp_marshalSnap env snap)
      in (v, e\<lparr>e_snap := Some v, e_snapAt := (if e_snapGen e = gen then Some t else None)\<rparr>))"

definition engine_refresh :: "'d cpenv \<Rightarrow> int \<Rightarrow> 'd Engine \<Rightarrow> (Snapshot \<times> bytes option) \<times> 'd Engine" where
  "engine_refresh env t e =
     (case refreshBegin t e of
        Inl v \<Rightarrow> (v, e)
      | Inr gen \<Rightarrow> (case buildSnapshot env t e of (snap, e1) \<Rightarrow> refreshEnd env t gen snap e1))"

definition engine_snapshot :: "'d cpenv \<Rightarrow> int \<Rightarrow> 'd Engine \<Rightarrow> (Snapshot \<times> bytes option) \<times> 'd Engine" where
  "engine_snapshot env t e =
     (case e_snap e of
        Some v \<Rightarrow>
          (if younger snapshotMaxAge t e then (v, e)
           else if younger snapshotStaleLimit t e then (v, e\<lparr>e_refreshing := True\<rparr>)
           else engine_refresh env t e)
      | None \<Rightarrow> engine_refresh env t e)"

definition refreshInBackground :: "'d cpenv \<Rightarrow> int \<Rightarrow> 'd Engine \<Rightarrow> 'd Engine" where
  "refreshInBackground env t e = (snd (engine_refresh env t e))\<lparr>e_refreshing := False\<rparr>"

definition auditOnce :: "'d cpenv \<Rightarrow> int \<Rightarrow> 'd Engine \<Rightarrow> 'd Engine" where
  "auditOnce env t e0 =
     (case e_audit e0 of
        None \<Rightarrow> e0
      | Some _ \<Rightarrow>
          (case engine_snapshot env t e0 of ((snap, _), e) \<Rightarrow>
             (case (rates_Stepdowns (e_rates e), e_audit e) of
                ((stepdowns, ok), Some a) \<Rightarrow>
                  (case observe (cp_marshal env) snap stepdowns ok t (a, e_disk e) of (a', w') \<Rightarrow>
                     e\<lparr>e_audit := Some a', e_disk := w'\<rparr>)
              | (_, None) \<Rightarrow> e)))"

section \<open>The chaos monkey (chaos.go)\<close>

definition chaosSettle :: int where
  "chaosSettle = 30 * second"

definition StartChaos :: "int \<Rightarrow> 'd Engine \<Rightarrow> 'd Engine" where
  "StartChaos interval e = (if interval \<le> 0 then e else e\<lparr>e_chaosInterval := interval\<rparr>)"

text \<open>\<^verbatim>\<open>chaosWait\<close> for a random \<open>u\<close>, on rational numbers; the conversion truncates.\<close>

definition chaosWait :: "int \<Rightarrow> rat \<Rightarrow> int" where
  "chaosWait interval u = (let x = of_int interval * (1 - 1/4 + 2 * (1/4) * u) in if x < 0 then \<lceil>x\<rceil> else \<lfloor>x\<rfloor>)"

definition chaosCandidates :: "NodeStatus list \<Rightarrow> NodeStatus list" where
  "chaosCandidates nodes =
     filter (\<lambda>n. st_Running n \<and> \<not> st_Partitioned n \<and> st_HealDueMs n = 0 \<and> st_HealKind n = []) nodes"

definition chaosBlocked :: "Snapshot \<Rightarrow> bool \<Rightarrow> int option \<Rightarrow> int \<Rightarrow> string" where
  "chaosBlocked snap ratesKnown lastVisitorKill t =
     (if sn_Total snap = 0 then ''no nodes''
      else if length (chaosCandidates (sn_Nodes snap)) \<noteq> sn_Total snap
        then ''a machine is down, partitioned or healing''
      else if \<not> sn_Quorum snap then ''no quorum''
      else if sn_LeaderID snap = 0 then ''no leader''
      else if ratesKnown \<and> fLe (sn_WritesPerSec snap) (Fin 0) \<and> fLe (sn_ReadsPerSec snap) (Fin 0)
        then ''no progress''
      else if (case lastVisitorKill of None \<Rightarrow> False | Some l \<Rightarrow> t - l < chaosSettle)
        then ''visitor kill too recent''
      else [])"

text \<open>\<open>pick\<close> stands for \<^verbatim>\<open>rand.IntN\<close>.\<close>

definition chaosOnce :: "'d cpenv \<Rightarrow> int \<Rightarrow> nat \<Rightarrow> 'd Engine \<Rightarrow> 'd Engine" where
  "chaosOnce env t pick e0 =
     (case engine_refresh env t e0 of ((snap, _), e) \<Rightarrow>
        if chaosBlocked snap (e_rates e \<noteq> None) (e_lastVisitorKill e) t \<noteq> [] then e
        else let victims = chaosCandidates (sn_Nodes snap)
             in if victims = [] then e
                else let victim = victims ! (pick mod length victims)
                     in case kill env t (st_ID victim) killSourceChaos e of
                          (Inl m, e1) \<Rightarrow>
                            addRingEvent t ''chaos''
                              (''Chaos monkey could not kill machine '' @ showNat (st_ID victim) @ '': '' @ m) e1
                        | (Inr _, e1) \<Rightarrow> e1\<lparr>e_lastChaos := (st_ID victim, t)\<rparr>)"

end
