(* ===== verification/EngineSafety.thy ===== *)
theory EngineSafety
  imports Engine
begin

text \<open>
  What the engine can do to Docker. \<open>served\<close> is the daemon's state after a sequence of requests;
  \<open>confined\<close> relates two engine states when the whitelist is the same and the daemon got from one
  to the other by whitelisted requests only. Every method is shown to stay confined, and then every
  run of the engine's step relation, whatever the daemon answers.
\<close>

section \<open>Sequences of requests\<close>

definition served :: "'d daemon \<Rightarrow> httpReq list \<Rightarrow> 'd \<Rightarrow> 'd" where
  "served dm qs d = foldl (\<lambda>d q. snd (dm q d)) d qs"

definition allowedReqs :: "string \<Rightarrow> (nat \<rightharpoonup> string) \<Rightarrow> httpReq set" where
  "allowedReqs network nodes = {listReq} \<union> (\<Union>name\<in>ran nodes. nodeReqs network name)"

definition confined :: "'d cpenv \<Rightarrow> 'd Engine \<Rightarrow> 'd Engine \<Rightarrow> bool" where
  "confined env e e' \<longleftrightarrow>
     e_nodes e' = e_nodes e \<and> e_network e' = e_network e \<and>
     (\<exists>qs. set qs \<subseteq> allowedReqs (e_network e) (e_nodes e) \<and> dock e' = served (cp_daemon env) qs (dock e))"

lemma confined_refl [intro, simp]: "confined env e e"
  by (auto simp: confined_def served_def intro: exI [of _ "[]"])

lemma confined_trans [trans]:
  assumes "confined env a b" and "confined env b c"
  shows "confined env a c"
proof -
  from assms obtain ps qs where
    "set ps \<subseteq> allowedReqs (e_network a) (e_nodes a)" "dock b = served (cp_daemon env) ps (dock a)"
    "set qs \<subseteq> allowedReqs (e_network a) (e_nodes a)" "dock c = served (cp_daemon env) qs (dock b)"
    by (auto simp: confined_def)
  then have "set (ps @ qs) \<subseteq> allowedReqs (e_network a) (e_nodes a)"
    "dock c = served (cp_daemon env) (ps @ qs) (dock a)"
    by (auto simp: served_def)
  with assms show ?thesis unfolding confined_def by metis
qed

lemma confined_same:
  "e_nodes e' = e_nodes e \<Longrightarrow> e_network e' = e_network e \<Longrightarrow> dock e' = dock e \<Longrightarrow> confined env e e'"
  by (auto simp: confined_def served_def intro: exI [of _ "[]"])

lemma confined_request:
  assumes "\<And>d. snd (m d) = snd (cp_daemon env q d)" and "q \<in> allowedReqs (e_network e) (e_nodes e)"
  shows "confined env e (snd (dockE m e))"
proof -
  have "dock (snd (dockE m e)) = served (cp_daemon env) [q] (dock e)"
    using assms(1) [of "dock e"] by (cases "m (dock e)") (simp add: dockE_def served_def)
  then show ?thesis
    using assms(2) by (auto simp: confined_def dockE_def split: prod.splits intro!: exI [of _ "[q]"])
qed

lemma allowed_node:
  "e_nodes e nid = Some name \<Longrightarrow> q \<in> nodeReqs (e_network e) name \<Longrightarrow>
     q \<in> allowedReqs (e_network e) (e_nodes e)"
  by (auto simp: allowedReqs_def ran_def)

lemma allowed_list: "listReq \<in> allowedReqs net nodes"
  by (simp add: allowedReqs_def)

section \<open>Operations that leave Docker alone\<close>

lemma confined_pure [simp]:
  "confined env e (addRingEvent t k m e)" "confined env e (auditEvent env' a e)"
  "confined env e (invalidateSnapshot e)" "confined env e (cancelHeal nid e)" "confined env e (healDone nid e)"
  "confined env e (scheduleHeal t nid k au e)" "confined env e (noteVisitorKill t e)"
  "confined env e (AddViewer e)" "confined env e (RemoveViewer e)" "confined env e (StartChaos i e)"
  by (auto intro!: confined_same simp: addRingEvent_def auditEvent_def invalidateSnapshot_def cancelHeal_def
      cancelHealLocked_def healDone_def scheduleHeal_def noteVisitorKill_def AddViewer_def RemoveViewer_def
      StartChaos_def Let_def split: option.splits prod.splits)

lemma confined_event [simp]: "confined env e (addEvent env' t k m e)" "confined env e (emitHeal env' t au m e)"
  using confined_trans [OF confined_pure(1) confined_pure(2)]
  by (auto simp: addEvent_def emitHeal_def)

lemma confined_disk [simp]: "confined env e (e\<lparr>e_disk := w\<rparr>)"
  by (rule confined_same) simp_all

lemma confined_allow [simp]: "confined env e (snd (allowDisrupt t ip e))"
  by (auto intro!: confined_same simp: allowDisrupt_def Let_def)

lemma confined_foldl:
  "(\<And>a x. x \<in> set xs \<Longrightarrow> e_nodes a = e_nodes e \<Longrightarrow> confined env a (f a x)) \<Longrightarrow>
     confined env e (foldl f e xs)"
proof (induction xs arbitrary: e)
  case (Cons x xs)
  then have "confined env e (f e x)" by simp
  moreover from this have "e_nodes (f e x) = e_nodes e" by (simp add: confined_def)
  with Cons have "confined env (f e x) (foldl f (f e x) xs)" by simp
  ultimately show ?case by (auto intro: confined_trans)
qed simp

lemma confined_close [simp]: "confined env e (engine_Close ids e)"
proof -
  have f: "confined env e (foldl (\<lambda>e nid. cancelHeal nid e) e ids)" for e
    by (rule confined_foldl) simp
  have "confined env x (engine_Close [] x)" for x :: "'a Engine"
    by (auto intro!: confined_same simp: engine_Close_def Let_def split: option.splits prod.splits)
  from confined_trans [OF f this, of e] show ?thesis by (simp add: engine_Close_def)
qed

lemma confined_noteQuorum [simp]: "confined env e (snd (noteQuorum t q e))"
  by (auto intro!: confined_same simp: noteQuorum_def Let_def)

lemma confined_refreshEnd [simp]: "confined env e (snd (refreshEnd env' t g s e))"
  by (auto intro!: confined_same simp: refreshEnd_def Let_def)

section \<open>Operations that call Docker\<close>

lemma confined_inspect:
  assumes "e_nodes e (fst n) = Some (snd n)"
  shows "confined env e (snd (engine_inspect env n e))"
proof -
  have "snd (engine_inspect env n e) = snd (dockE (docker_inspect (cp_daemon env) (snd n)) e)"
    by (auto simp: engine_inspect_def bindE_def split: prod.splits sum.splits)
  also have "confined env e \<dots>"
    by (rule confined_request [where q = "inspectReq (snd n)"]) (auto intro: allowed_node [OF assms])
  finally show ?thesis .
qed

lemma confined_start: "e_nodes e nid = Some name \<Longrightarrow> confined env e (snd (engine_start env name e))"
  unfolding engine_start_def
  by (rule confined_request [where q = "startReq name"]) (auto intro: allowed_node)

lemma confined_stop:
  "e_nodes e nid = Some name \<Longrightarrow> confined env e (snd (dockE (docker_stop (cp_daemon env) name 1) e))"
  by (rule confined_request [where q = "stopReq name 1"])
     (simp_all add: allowed_node [OF _ nodeReqs_mem(2) [unfolded One_nat_def]])

lemma confined_disconnect:
  "e_nodes e nid = Some name \<Longrightarrow>
     confined env e (snd (dockE (networkDisconnect (cp_daemon env) (e_network e) name) e))"
  by (rule confined_request [where q = "disconnectReq (e_network e) name"]) (auto intro: allowed_node)

lemma confined_connect:
  assumes "e_nodes e nid = Some name"
  shows "confined env e (snd (connectNetwork env name e))"
proof -
  have "confined env e (snd (dockE (networkConnect (cp_daemon env) (e_network e) name) e))"
    by (rule confined_request [where q = "connectReq (e_network e) name"]) (auto intro: allowed_node [OF assms])
  then show ?thesis
    by (auto simp: connectNetwork_def split: prod.splits sum.splits)
qed

lemma confined_containers: "confined env e (snd (dockE (docker_containers (cp_daemon env)) e))"
  by (rule confined_request [where q = listReq]) (auto intro: allowed_list)

lemma confined_nodes: "confined env e e' \<Longrightarrow> e_nodes e' = e_nodes e"
  by (simp add: confined_def)

text \<open>
  The rules for chaining: a result of a call on a state that is confined is confined. Their first
  premise is the call as a case analysis leaves it.
\<close>

lemma confined_calls:
  assumes "confined env e x" and "e_nodes e nid = Some name"
  shows "engine_inspect env (nid, name) x = (r, y) \<Longrightarrow> confined env e y"
    and "engine_start env name x = (s, y) \<Longrightarrow> confined env e y"
    and "connectNetwork env name x = (s, y) \<Longrightarrow> confined env e y"
    and "dockE (docker_stop (cp_daemon env) name 1) x = (s, y) \<Longrightarrow> confined env e y"
    and "dockE (networkDisconnect (cp_daemon env) (e_network x) name) x = (s, y) \<Longrightarrow> confined env e y"
proof -
  have n: "e_nodes x nid = Some name" using assms by (simp add: confined_def)
  note t = confined_trans [OF assms(1)]
  show "engine_inspect env (nid, name) x = (r, y) \<Longrightarrow> confined env e y"
    using t [OF confined_inspect [of x "(nid, name)" env]] n by simp
  show "engine_start env name x = (s, y) \<Longrightarrow> confined env e y"
    using t [OF confined_start [OF n, of env]] by simp
  show "connectNetwork env name x = (s, y) \<Longrightarrow> confined env e y"
    using t [OF confined_connect [OF n, of env]] by simp
  show "dockE (docker_stop (cp_daemon env) name 1) x = (s, y) \<Longrightarrow> confined env e y"
    using t [OF confined_stop [OF n, of env]] by simp
  show "dockE (networkDisconnect (cp_daemon env) (e_network x) name) x = (s, y) \<Longrightarrow> confined env e y"
    using t [OF confined_disconnect [OF n, of env]] by simp
qed

lemma confined_connect_snd:
  "confined env e x \<Longrightarrow> e_nodes e nid = Some name \<Longrightarrow> confined env e (snd (connectNetwork env name x))"
  by (rule confined_calls(3)) (auto simp: prod_eq_iff)

lemmas confined_after = confined_trans [OF _ confined_pure(1)] confined_trans [OF _ confined_pure(2)]
  confined_trans [OF _ confined_pure(3)] confined_trans [OF _ confined_pure(4)]
  confined_trans [OF _ confined_pure(5)] confined_trans [OF _ confined_pure(6)]
  confined_trans [OF _ confined_pure(7)] confined_trans [OF _ confined_event(1)]
  confined_trans [OF _ confined_event(2)] confined_trans [OF _ confined_noteQuorum]
  confined_trans [OF _ confined_refreshEnd]

section \<open>The methods\<close>

lemma confined_runHeal: "confined env e (runHeal env t nid kind au e)"
proof (cases "e_nodes e nid")
  case (Some name)
  obtain r e1 where i: "engine_inspect env (nid, name) e = (r, e1)" by fastforce
  obtain s e2 where st: "engine_start env name e1 = (s, e2)" by fastforce
  obtain u e3 where co: "connectNetwork env name e = (u, e3)" by fastforce
  have c: "confined env e e1" "confined env e e2" "confined env e e3"
    using confined_calls(1) [OF confined_refl Some i] confined_calls(2) [OF _ Some st]
      confined_calls(3) [OF confined_refl Some co] by auto
  show ?thesis
    using Some by (simp add: runHeal_def i st co c confined_after confined_connect_snd
        split: sum.splits)
qed (simp add: runHeal_def)

lemma confined_healFire: "confined env e (healFire env t nid job e)"
  by (simp add: healFire_def confined_after confined_runHeal)

lemma confined_reconcileNode:
  assumes n: "e_nodes e (fst n) = Some (snd n)"
  shows "confined env e (reconcileNode env t states e n)"
proof -
  obtain r e1 where i: "engine_inspect env n e = (r, e1)" by fastforce
  obtain s e2 where st: "engine_start env (snd n) e1 = (s, e2)" by fastforce
  obtain u e3 where co: "connectNetwork env (snd n) e1 = (u, e3)" by fastforce
  have "confined env e e1" using confined_calls(1) [OF confined_refl n, of env] i by simp
  then have c: "confined env e e1" "confined env e e2" "confined env e e3"
    using confined_calls(2) [OF _ n st] confined_calls(3) [OF _ n co] by auto
  show ?thesis
    using n by (simp add: reconcileNode_def i st co c confined_after confined_connect_snd
        split: sum.splits option.splits)
qed

lemma Nodes_whitelisted: "n \<in> set (Nodes e) \<Longrightarrow> e_nodes e (fst n) = Some (snd n)"
  by (auto simp: Nodes_def List.map_filter_def)

lemma confined_reconcileOnce: "confined env e (reconcileOnce env t e)"
proof -
  obtain r e1 where l: "dockE (docker_containers (cp_daemon env)) e = (r, e1)" by fastforce
  with confined_containers [of env e] have c: "confined env e e1" by simp
  have "confined env e1 (foldl (reconcileNode env t states) e1 (Nodes e1))" for states
    by (rule confined_foldl) (auto intro!: confined_reconcileNode dest: Nodes_whitelisted)
  with c show ?thesis by (auto simp: reconcileOnce_def l split: sum.splits intro: confined_trans)
qed

lemma confined_kill: "confined env e (snd (kill env t nid src e))"
proof (cases "e_nodes e nid")
  case (Some name)
  let ?e = "scheduleHeal t nid ''start'' (src = killSourceVisitor) (cancelHeal nid e)"
  obtain r e1 where st: "dockE (docker_stop (cp_daemon env) name 1) ?e = (r, e1)" by fastforce
  have "confined env e ?e" by (simp add: confined_after)
  from confined_calls(4) [OF this Some st] have "confined env e e1" .
  then show ?thesis
    using Some st by (simp add: kill_def confined_after split: sum.splits killSource.splits)
qed (simp add: kill_def)

lemma confined_doRestart:
  assumes n: "e_nodes e nid = Some name"
  shows "confined env e (snd (doRestart env t nid name e))"
proof -
  obtain r e1 where i: "engine_inspect env (nid, name) (cancelHeal nid e) = (r, e1)" by fastforce
  obtain s e2 where st: "engine_start env name e1 = (s, e2)" by fastforce
  have "confined env e e1" by (rule confined_calls(1) [OF _ n i]) simp
  then have c: "confined env e e1" "confined env e e2" using confined_calls(2) [OF _ n st] by auto
  show ?thesis
    using n by (simp add: doRestart_def i st c confined_after confined_connect_snd split: sum.splits)
qed

lemma confined_doPartition:
  assumes n: "e_nodes e nid = Some name"
  shows "confined env e (snd (doPartition env t nid name e))"
proof -
  obtain r e1 where i: "engine_inspect env (nid, name) (cancelHeal nid (noteVisitorKill t e)) = (r, e1)"
    by fastforce
  let ?e = "scheduleHeal t nid ''reconnect'' True e1"
  obtain s e2 where st: "dockE (networkDisconnect (cp_daemon env) (e_network e1) name) ?e = (s, e2)" by fastforce
  have c1: "confined env e e1" by (rule confined_calls(1) [OF _ n i]) (simp add: confined_after)
  then have "confined env e ?e" by (simp add: confined_after)
  moreover have "e_network ?e = e_network e1" using confined_pure(6) [of env e1] by (simp add: confined_def)
  ultimately have "confined env e e2" using confined_calls(5) [OF _ n, of env ?e] st by simp
  with c1 show ?thesis
    by (simp add: doPartition_def i st confined_after split: sum.splits)
qed

lemma confined_Do: "confined env e (snd (Do env t ip nid action e))"
proof (cases "e_nodes e nid")
  case (Some name)
  obtain r e1 where a: "allowDisrupt t ip e = (r, e1)" by fastforce
  with confined_allow [of env e t ip] have c: "confined env e e1" by simp
  then have n: "e_nodes e1 nid = Some name" using Some by (simp add: confined_def)
  have k: "confined env e (snd (kill env t nid killSourceVisitor (noteVisitorKill t e1)))"
    using confined_trans [OF confined_trans [OF c confined_pure(7)] confined_kill] .
  have p: "confined env e (snd (doPartition env t nid name e1))"
    using confined_trans [OF c confined_doPartition [OF n]] .
  show ?thesis
    using Some by (auto simp: Do_def bindE_def a c k p confined_doRestart split: Action.splits sum.splits)
qed (simp add: Do_def)

lemma confined_resetNode:
  assumes n: "e_nodes e (fst n) = Some (snd n)"
  shows "confined env e (snd (resetNode env (errs, e) n))"
proof -
  obtain r e1 where i: "engine_inspect env n (cancelHeal (fst n) e) = (r, e1)" by fastforce
  obtain s e2 where st: "engine_start env (snd n) e1 = (s, e2)" by fastforce
  have "confined env e e1" using confined_calls(1) [OF confined_pure(4) n, of env] i by simp
  then have c: "confined env e e1" "confined env e e2" using confined_calls(2) [OF _ n st] by auto
  show ?thesis
    using n by (simp add: resetNode_def i st c confined_connect_snd split: sum.splits)
qed

lemma confined_ResetAll: "confined env e (snd (ResetAll env t e))"
proof -
  have "confined env e (snd (foldl (resetNode env) (errs, e) ns))"
    if "list_all (\<lambda>n. e_nodes e (fst n) = Some (snd n)) ns" for ns errs e
    using that
  proof (induction ns arbitrary: errs e)
    case (Cons n ns)
    obtain errs1 e1 where r: "resetNode env (errs, e) n = (errs1, e1)" by fastforce
    have c: "confined env e e1" using confined_resetNode [of e n env errs] Cons.prems r by simp
    then have "list_all (\<lambda>n. e_nodes e1 (fst n) = Some (snd n)) ns"
      using Cons.prems by (simp add: confined_def)
    from confined_trans [OF c Cons.IH [OF this]] show ?case by (simp add: r)
  qed simp
  moreover have "list_all (\<lambda>n. e_nodes e (fst n) = Some (snd n)) (Nodes e)"
    by (auto simp: list_all_iff dest: Nodes_whitelisted)
  ultimately have "confined env e (snd (foldl (resetNode env) ([], e) (Nodes e)))" by blast
  then show ?thesis
    by (auto simp: ResetAll_def confined_after split: prod.splits)
qed

lemma confined_buildSnapshot: "confined env e (snd (buildSnapshot env t e))"
proof -
  obtain l e1 where l: "engine_List env t e = (l, e1)" by fastforce
  then have "e1 = snd (dockE (docker_containers (cp_daemon env)) e)"
    by (auto simp: engine_List_def split: prod.splits)
  then have c: "confined env e e1" by (simp add: confined_containers)
  show ?thesis
    using confined_trans [OF c confined_noteQuorum]
    by (simp add: buildSnapshot_def l Let_def split: prod.splits) (metis snd_conv)
qed

lemma confined_refresh: "confined env e (snd (engine_refresh env t e))"
  using confined_buildSnapshot [of env e t]
  by (auto simp: engine_refresh_def confined_after split: sum.splits prod.splits)

lemma confined_snapshot: "confined env e (snd (engine_snapshot env t e))"
  by (auto simp: engine_snapshot_def confined_refresh intro!: confined_same split: option.splits)

lemma confined_auditOnce: "confined env e (auditOnce env t e)"
proof -
  obtain v e1 where s: "engine_snapshot env t e = (v, e1)" by fastforce
  with confined_snapshot [of env e t] have c: "confined env e e1" by simp
  have "confined env e1 (e1\<lparr>e_audit := a, e_disk := w\<rparr>)" for a w by (rule confined_same) simp_all
  from confined_trans [OF c this] c show ?thesis
    by (simp add: auditOnce_def s split: option.splits prod.splits)
qed

lemma confined_chaosOnce: "confined env e (chaosOnce env t pick e)"
proof -
  obtain v e1 where s: "engine_refresh env t e = (v, e1)" by fastforce
  with confined_refresh [of env e t] have c: "confined env e e1" by simp
  have k: "confined env e (snd (kill env t nid killSourceChaos e1))" for nid
    by (rule confined_trans [OF c confined_kill])
  then have k: "kill env t nid killSourceChaos e1 = (r, e2) \<Longrightarrow> confined env e e2" for nid r e2
    by (metis snd_conv)
  have "confined env x (x\<lparr>e_lastChaos := l\<rparr>)" for x :: "'a Engine" and l
    by (rule confined_same) simp_all
  then have "kill env t nid killSourceChaos e1 = (r, e2) \<Longrightarrow> confined env e (e2\<lparr>e_lastChaos := l\<rparr>)" for nid r e2 l
    using k confined_trans by blast
  with k c show ?thesis
    by (auto simp: chaosOnce_def s Let_def confined_after split: prod.splits sum.splits)
qed

section \<open>Runs of the engine\<close>

text \<open>
  The goroutines of the control plane as one step relation: HTTP handlers, the reconcile tick,
  the chaos tick, and heal callbacks. A callback that has passed its check does its work and
  removes its entry at any later time, in separate steps, so other steps come in between; the same
  goes for a rebuild of the view, whose end may come after other steps.
\<close>

inductive estep :: "'d cpenv \<Rightarrow> 'd Engine \<Rightarrow> 'd Engine \<Rightarrow> bool" for env where
  action: "estep env e (snd (Do env t ip nid action e))"
| reset: "estep env e (snd (ResetAll env t e))"
| reconcile: "estep env e (reconcileOnce env t e)"
| audit: "estep env e (auditOnce env t e)"
| chaos: "estep env e (chaosOnce env t pick e)"
| heal_work: "estep env e (runHeal env t nid kind au e)"
| heal_done: "estep env e (healDone nid e)"
| view: "estep env e (snd (engine_snapshot env t e))"
| build: "estep env e (snd (buildSnapshot env t e))"
| build_end: "estep env e (snd (refreshEnd env t gen snap e))"
| audit_read: "estep env e (e\<lparr>e_disk := w\<rparr>)"
| viewer: "estep env e (AddViewer e)"
| viewer_gone: "estep env e (RemoveViewer e)"
| close: "estep env e (engine_Close ids e)"

inductive_cases estep_cases: "estep env e e'"

abbreviation eruns :: "'d cpenv \<Rightarrow> 'd Engine \<Rightarrow> 'd Engine \<Rightarrow> bool" where
  "eruns env \<equiv> (estep env)\<^sup>*\<^sup>*"

lemma estep_confined: "estep env e e' \<Longrightarrow> confined env e e'"
  by (erule estep_cases)
     (simp_all add: confined_Do confined_ResetAll confined_reconcileOnce confined_auditOnce
       confined_chaosOnce confined_runHeal confined_snapshot confined_buildSnapshot)

lemma eruns_confined: "eruns env e e' \<Longrightarrow> confined env e e'"
  by (induction rule: rtranclp_induct) (auto intro: confined_trans estep_confined)

lemma allowed_names:
  assumes "q \<in> allowedReqs net nodes" and "q \<in> nodeReqs net name"
  shows "name \<in> ran nodes"
proof -
  have "listReq \<notin> nodeReqs net name"
    by (auto simp: nodeReqs_def listReq_def inspectReq_def stopReq_def startReq_def connectReq_def
        disconnectReq_def dest!: arg_cong [of _ _ length])
  with assms show ?thesis
    by (auto simp: allowedReqs_def dest: nodeReqs_inject)
qed

text \<open>
  Whatever the goroutines do, in any order and whatever the daemon answers, the whitelist stays and
  the daemon is reached by whitelisted requests only, none of which is about another container.
\<close>

lemma only_whitelisted_containers:
  assumes "eruns env e e'"
  shows "e_nodes e' = e_nodes e \<and>
    (\<exists>qs. dock e' = served (cp_daemon env) qs (dock e) \<and>
          set qs \<subseteq> allowedReqs (e_network e) (e_nodes e) \<and>
          (\<forall>name. name \<notin> ran (e_nodes e) \<longrightarrow> set qs \<inter> nodeReqs (e_network e) name = {}))"
proof -
  from eruns_confined [OF assms] obtain qs where
    "e_nodes e' = e_nodes e" "dock e' = served (cp_daemon env) qs (dock e)"
    "set qs \<subseteq> allowedReqs (e_network e) (e_nodes e)"
    by (auto simp: confined_def)
  moreover from this(3) have "\<forall>name. name \<notin> ran (e_nodes e) \<longrightarrow> set qs \<inter> nodeReqs (e_network e) name = {}"
    using allowed_names by blast
  ultimately show ?thesis by blast
qed

end
