(* ===== verification/EngineHeal.thy ===== *)
theory EngineHeal
  imports EngineSafety
begin

text \<open>
  What the engine does for the cluster when Docker works. \<open>dockerd dm cst\<close> says what the code
  relies on of the daemon, as its API documents it: \<open>cst\<close> reads the containers from the
  daemon's state, listing and inspecting report them and change nothing, starting and stopping a
  known container set its running flag, and connecting it to a network adds the network or
  answers that it is there already.

  The lemmas give the effect of each Docker call and of each engine method under this contract.
  The properties: a reconcile tick repairs every node that has no heal pending, a kill is seen by
  the next view, the chaos monkey never takes quorum away, and three places where heal jobs or
  the monkey's guard do not behave as their comments say.
\<close>

section \<open>The daemon's contract\<close>

definition reports :: "'d daemon \<Rightarrow> ('d \<Rightarrow> string \<rightharpoonup> containerState) \<Rightarrow> bool" where
  "reports dm cst \<longleftrightarrow>
     (\<forall>d. \<exists>b l. fst (dm listReq d) = Reply 200 b \<and> asList b = Some l \<and> listStates l = cst d \<and>
               cst (snd (dm listReq d)) = cst d) \<and>
     (\<forall>d name cs. cst d name = Some cs \<longrightarrow>
        (\<exists>b i. fst (dm (inspectReq name) d) = Reply 200 b \<and> asInspect b = Some i \<and> inspectState i = cs \<and>
               cst (snd (dm (inspectReq name) d)) = cst d))"

definition obeys :: "'d daemon \<Rightarrow> ('d \<Rightarrow> string \<rightharpoonup> containerState) \<Rightarrow> bool" where
  "obeys dm cst \<longleftrightarrow>
     (\<forall>d name cs. cst d name = Some cs \<longrightarrow>
        (\<exists>b. fst (dm (startReq name) d) \<in> {Reply 204 b, Reply 304 b}) \<and>
        (\<exists>w. cst (snd (dm (startReq name) d)) =
               (cst d)(name \<mapsto> cs\<lparr>cs_Running := True, cs_Status := w\<rparr>))) \<and>
     (\<forall>d name cs. cst d name = Some cs \<longrightarrow>
        (\<exists>b. fst (dm (stopReq name 1) d) \<in> {Reply 204 b, Reply 304 b}) \<and>
        (\<exists>w. cst (snd (dm (stopReq name 1) d)) =
               (cst d)(name \<mapsto> cs\<lparr>cs_Running := False, cs_Status := w\<rparr>)))"

definition connects :: "'d daemon \<Rightarrow> ('d \<Rightarrow> string \<rightharpoonup> containerState) \<Rightarrow> bool" where
  "connects dm cst \<longleftrightarrow>
     (\<forall>d net name cs. cst d name = Some cs \<longrightarrow>
        (\<exists>code b. fst (dm (connectReq net name) d) = Reply code b \<and>
                  (code = 200 \<or> contains ''already'' (toLower (daemonMessage b)))) \<and>
        (\<exists>ns. set ns = insert net (set (cs_Networks cs)) \<and>
              cst (snd (dm (connectReq net name) d)) = (cst d)(name \<mapsto> cs\<lparr>cs_Networks := ns\<rparr>)))"

definition dockerd :: "'d daemon \<Rightarrow> ('d \<Rightarrow> string \<rightharpoonup> containerState) \<Rightarrow> bool" where
  "dockerd dm cst \<longleftrightarrow> reports dm cst \<and> obeys dm cst \<and> connects dm cst"

lemma containers_reports:
  assumes "dockerd dm cst"
  obtains d' where "docker_containers dm d = (Inr (cst d), d')" and "cst d' = cst d"
proof -
  from assms obtain b l where "fst (dm listReq d) = Reply 200 b" "asList b = Some l" "listStates l = cst d"
    "cst (snd (dm listReq d)) = cst d"
    unfolding dockerd_def reports_def by blast
  then show ?thesis
    using that [of "snd (dm listReq d)"]
    by (cases "dm listReq d") (simp add: docker_containers_def docker_do_def bindE_def)
qed

lemma inspect_reports:
  assumes "dockerd dm cst" and "cst d name = Some cs"
  obtains d' where "docker_inspect dm name d = (Inr cs, d')" and "cst d' = cst d"
proof -
  from assms obtain b i where "fst (dm (inspectReq name) d) = Reply 200 b" "asInspect b = Some i"
    "inspectState i = cs" "cst (snd (dm (inspectReq name) d)) = cst d"
    unfolding dockerd_def reports_def by blast
  then show ?thesis
    using that [of "snd (dm (inspectReq name) d)"]
    by (cases "dm (inspectReq name) d") (simp add: docker_inspect_def docker_do_def bindE_def)
qed

lemma start_obeys:
  assumes "dockerd dm cst" and "cst d name = Some cs"
  obtains d' w where "docker_start dm name d = (Inr (), d')"
    and "cst d' = (cst d)(name \<mapsto> cs\<lparr>cs_Running := True, cs_Status := w\<rparr>)"
proof -
  from assms obtain b w where "fst (dm (startReq name) d) \<in> {Reply 204 b, Reply 304 b}"
    "cst (snd (dm (startReq name) d)) = (cst d)(name \<mapsto> cs\<lparr>cs_Running := True, cs_Status := w\<rparr>)"
    unfolding dockerd_def obeys_def by blast
  then show ?thesis
    using that [of "snd (dm (startReq name) d)"]
    by (cases "dm (startReq name) d") (auto simp: docker_start_def docker_do_def discard_def)
qed

lemma stop_obeys:
  assumes "dockerd dm cst" and "cst d name = Some cs"
  obtains d' w where "docker_stop dm name 1 d = (Inr (), d')"
    and "cst d' = (cst d)(name \<mapsto> cs\<lparr>cs_Running := False, cs_Status := w\<rparr>)"
proof -
  from assms obtain b w where "fst (dm (stopReq name 1) d) \<in> {Reply 204 b, Reply 304 b}"
    "cst (snd (dm (stopReq name 1) d)) = (cst d)(name \<mapsto> cs\<lparr>cs_Running := False, cs_Status := w\<rparr>)"
    unfolding dockerd_def obeys_def by blast
  then show ?thesis
    using that [of "snd (dm (stopReq name 1) d)"]
    by (cases "dm (stopReq name 1) d") (auto simp: docker_stop_def docker_do_def discard_def)
qed

text \<open>The test for \<^verbatim>\<open>already\<close> looks at the whole error text, so it finds the daemon's words in it.\<close>

lemma contains_append: "contains sub s \<Longrightarrow> contains sub (xs @ s)"
  by (induction xs) auto

lemma toLower_append [simp]: "toLower (xs @ ys) = toLower xs @ toLower ys"
  by (simp add: toLower_def)

lemma connectNetwork_connects:
  assumes "dockerd (cp_daemon env) cst" and "cst (dock e) name = Some cs"
  obtains d' cs' where "connectNetwork env name e = (Inr (), e\<lparr>dock := d'\<rparr>)"
    and "cst d' = (cst (dock e))(name \<mapsto> cs')" and "cs_Running cs' = cs_Running cs"
    and "set (cs_Networks cs') = (if e_network e = [] then {} else {e_network e}) \<union> set (cs_Networks cs)"
proof (cases "e_network e = []")
  case True
  with that [of "dock e" cs] assms(2) show ?thesis by (simp add: connectNetwork_def map_upd_triv)
next
  case False
  let ?q = "connectReq (e_network e) name"
  let ?d = "snd (cp_daemon env ?q (dock e))"
  from assms obtain code b ns where r: "fst (cp_daemon env ?q (dock e)) = Reply code b"
      "code = 200 \<or> contains ''already'' (toLower (daemonMessage b))"
    and n: "set ns = insert (e_network e) (set (cs_Networks cs))"
      "cst ?d = (cst (dock e))(name \<mapsto> cs\<lparr>cs_Networks := ns\<rparr>)"
    unfolding dockerd_def connects_def by blast
  have "contains ''already'' (toLower (daemonMessage b)) \<Longrightarrow>
      contains ''already'' (toLower (reqText ?q @ showNat code @ '' '' @ daemonMessage b))"
    unfolding toLower_append by (intro contains_append)
  with r have "connectNetwork env name e = (Inr (), e\<lparr>dock := ?d\<rparr>)"
    using False
    by (cases "cp_daemon env ?q (dock e)")
       (auto simp: connectNetwork_def dockE_def networkConnect_def docker_do_def discard_def)
  from that [OF this n(2)] n(1) False show ?thesis by simp
qed

section \<open>Fields the methods leave alone\<close>

lemma event_fields [simp]:
  "dock (addEvent env t k m e) = dock e" "e_network (addEvent env t k m e) = e_network e"
  "e_heals (addEvent env t k m e) = e_heals e" "e_nodes (addEvent env t k m e) = e_nodes e"
  "e_snapAt (addEvent env t k m e) = e_snapAt e" "e_snap (addEvent env t k m e) = e_snap e"
  "dock (addRingEvent t k m e) = dock e" "e_network (addRingEvent t k m e) = e_network e"
  "e_heals (addRingEvent t k m e) = e_heals e" "e_nodes (addRingEvent t k m e) = e_nodes e"
  "e_snapAt (addRingEvent t k m e) = e_snapAt e" "e_snap (addRingEvent t k m e) = e_snap e"
  by (auto simp: addEvent_def addRingEvent_def auditEvent_def split: option.splits prod.splits)

lemma invalidate_fields [simp]:
  "dock (invalidateSnapshot e) = dock e" "e_network (invalidateSnapshot e) = e_network e"
  "e_heals (invalidateSnapshot e) = e_heals e" "e_nodes (invalidateSnapshot e) = e_nodes e"
  "e_snapAt (invalidateSnapshot e) = None" "e_snap (invalidateSnapshot e) = e_snap e"
  by (simp_all add: invalidateSnapshot_def)

lemma cancel_fields [simp]:
  "dock (cancelHeal nid e) = dock e" "e_network (cancelHeal nid e) = e_network e"
  "e_nodes (cancelHeal nid e) = e_nodes e" "e_heals (cancelHeal nid e) = (e_heals e)(nid := None)"
  "e_snap (cancelHeal nid e) = e_snap e"
  by (auto simp: cancelHeal_def cancelHealLocked_def split: option.splits)

lemma schedule_fields [simp]:
  "dock (scheduleHeal t nid k au e) = dock e" "e_network (scheduleHeal t nid k au e) = e_network e"
  "e_nodes (scheduleHeal t nid k au e) = e_nodes e" "e_snap (scheduleHeal t nid k au e) = e_snap e"
  "e_heals (scheduleHeal t nid k au e) =
     (e_heals e)(nid \<mapsto> \<lparr>hj_kind = k, hj_due = t + e_healAfter e, hj_audit = au, hj_no = e_nextJob e\<rparr>)"
  by (auto simp: scheduleHeal_def cancelHealLocked_def Let_def split: option.splits)

section \<open>The reconciler repairs\<close>

definition good :: "string \<Rightarrow> containerState \<Rightarrow> bool" where
  "good net cs \<longleftrightarrow> cs_Running cs \<and> (net = [] \<or> net \<in> set (cs_Networks cs))"

definition upAt :: "string \<Rightarrow> (string \<rightharpoonup> containerState) \<Rightarrow> string \<Rightarrow> bool" where
  "upAt net s name \<longleftrightarrow> (case s name of None \<Rightarrow> False | Some cs \<Rightarrow> good net cs)"

text \<open>No container disappears and none that is up goes down.\<close>

definition improves :: "string \<Rightarrow> (string \<rightharpoonup> containerState) \<Rightarrow> (string \<rightharpoonup> containerState) \<Rightarrow> bool" where
  "improves net s s' \<longleftrightarrow> (\<forall>name. (s name \<noteq> None \<longrightarrow> s' name \<noteq> None) \<and> (upAt net s name \<longrightarrow> upAt net s' name))"

lemma improves_refl [simp]: "improves net s s"
  by (simp add: improves_def)

lemma improves_trans: "improves net a b \<Longrightarrow> improves net b c \<Longrightarrow> improves net a c"
  by (simp add: improves_def)

lemma improves_upd: "s name = Some cs \<Longrightarrow> (good net cs \<Longrightarrow> good net cs') \<Longrightarrow> improves net s (s(name \<mapsto> cs'))"
  by (auto simp: improves_def upAt_def)

lemma upAt_upd [simp]: "upAt net (s(name \<mapsto> cs)) name = good net cs"
  by (simp add: upAt_def)

lemma status_good:
  "st_Running (statusFrom net n cs) \<and> \<not> st_Partitioned (statusFrom net n cs) \<longleftrightarrow> good net cs"
  by (auto simp: statusFrom_def good_def)

lemma engine_inspect_reports:
  assumes "dockerd (cp_daemon env) cst" and "cst (dock e) (snd n) = Some cs"
  obtains d' where "engine_inspect env n e = (Inr (statusFrom (e_network e) n cs), e\<lparr>dock := d'\<rparr>)"
    and "cst d' = cst (dock e)"
proof -
  from inspect_reports [OF assms] obtain d' where
    "docker_inspect (cp_daemon env) (snd n) (dock e) = (Inr cs, d')" "cst d' = cst (dock e)" .
  with that [of d'] show ?thesis by (simp add: engine_inspect_def dockE_def bindE_def)
qed

lemma start_and_connect:
  assumes dk: "dockerd (cp_daemon env) cst" and cs: "cst (dock e) name = Some cs"
  obtains d' e2 where "engine_start env name e = (Inr (), e2)"
    and "(if e_network e2 \<noteq> [] then snd (connectNetwork env name e2) else e2) = e\<lparr>dock := d'\<rparr>"
    and "improves (e_network e) (cst (dock e)) (cst d')" and "upAt (e_network e) (cst d') name"
proof -
  from start_obeys [OF dk cs] obtain d1 w where
    st: "docker_start (cp_daemon env) name (dock e) = (Inr (), d1)"
    and d1: "cst d1 = (cst (dock e))(name \<mapsto> cs\<lparr>cs_Running := True, cs_Status := w\<rparr>)" .
  let ?e2 = "e\<lparr>dock := d1\<rparr>"
  have "cst (dock ?e2) name = Some (cs\<lparr>cs_Running := True, cs_Status := w\<rparr>)" by (simp add: d1)
  from connectNetwork_connects [OF dk this] obtain d2 cs' where
    c: "connectNetwork env name ?e2 = (Inr (), ?e2\<lparr>dock := d2\<rparr>)" "cst d2 = (cst (dock ?e2))(name \<mapsto> cs')"
    "cs_Running cs' = cs_Running (cs\<lparr>cs_Running := True, cs_Status := w\<rparr>)"
    "set (cs_Networks cs') = (if e_network ?e2 = [] then {} else {e_network ?e2}) \<union>
       set (cs_Networks (cs\<lparr>cs_Running := True, cs_Status := w\<rparr>))" .
  have s: "engine_start env name e = (Inr (), ?e2)" by (simp add: engine_start_def dockE_def st)
  show ?thesis
  proof (cases "e_network e = []")
    case True
    with that [OF s, of d1] cs show ?thesis by (simp add: d1 good_def improves_upd)
  next
    case False
    have d2: "cst d2 = (cst (dock e))(name \<mapsto> cs')" using c(2) d1 by simp
    have g: "good (e_network e) cs'" using c(3,4) False by (simp add: good_def)
    then have "improves (e_network e) (cst (dock e)) (cst d2)" using cs by (simp add: d2 improves_upd)
    moreover have "upAt (e_network e) (cst d2) name" using g by (simp add: d2)
    ultimately show ?thesis using that [OF s, of d2] c(1) False by simp
  qed
qed

lemma reconcileNode_repairs:
  assumes dk: "dockerd (cp_daemon env) cst" and imp: "improves net states (cst (dock e))"
    and net: "e_network e = net"
  shows "improves net (cst (dock e)) (cst (dock (reconcileNode env t states e n))) \<and>
    e_heals (reconcileNode env t states e n) = e_heals e \<and>
    e_network (reconcileNode env t states e n) = net \<and>
    (e_heals e (fst n) = None \<longrightarrow> states (snd n) \<noteq> None \<longrightarrow>
       upAt net (cst (dock (reconcileNode env t states e n))) (snd n))"
proof (cases "healPending (fst n) e \<or> states (snd n) = None")
  case True
  then show ?thesis using net by (auto simp: reconcileNode_def healPending_def)
next
  case False
  then obtain cs0 where cs0: "states (snd n) = Some cs0" and h: "e_heals e (fst n) = None"
    by (auto simp: healPending_def)
  show ?thesis
  proof (cases "good net cs0")
    case True
    then have "upAt net (cst (dock e)) (snd n)" using imp cs0 by (auto simp: improves_def upAt_def)
    then show ?thesis
      using True cs0 h net status_good [of net n cs0] by (simp add: reconcileNode_def healPending_def)
  next
    case bad: False
    from imp cs0 have "cst (dock e) (snd n) \<noteq> None" by (simp add: improves_def)
    then obtain cs where cs: "cst (dock e) (snd n) = Some cs" by blast
    from engine_inspect_reports [where n = n and e = e, OF dk cs] obtain d1 where
      i: "engine_inspect env n e = (Inr (statusFrom net n cs), e\<lparr>dock := d1\<rparr>)" "cst d1 = cst (dock e)"
      using net by metis
    then have cs1: "cst (dock (e\<lparr>dock := d1\<rparr>)) (snd n) = Some cs" using cs by simp
    from start_and_connect [OF dk cs1] obtain d2 e2 where
      s0: "engine_start env (snd n) (e\<lparr>dock := d1\<rparr>) = (Inr (), e2)"
      "(if e_network e2 \<noteq> [] then snd (connectNetwork env (snd n) e2) else e2) = e\<lparr>dock := d1\<rparr>\<lparr>dock := d2\<rparr>"
      "improves (e_network (e\<lparr>dock := d1\<rparr>)) (cst (dock (e\<lparr>dock := d1\<rparr>))) (cst d2)"
      "upAt (e_network (e\<lparr>dock := d1\<rparr>)) (cst d2) (snd n)" .
    then have s: "improves net (cst (dock e)) (cst d2)" "upAt net (cst d2) (snd n)"
      using net i(2) by simp_all
    from connectNetwork_connects [OF dk cs1] obtain d3 cs' where
      c0: "connectNetwork env (snd n) (e\<lparr>dock := d1\<rparr>) = (Inr (), e\<lparr>dock := d1\<rparr>\<lparr>dock := d3\<rparr>)"
      "cst d3 = (cst (dock (e\<lparr>dock := d1\<rparr>)))(snd n \<mapsto> cs')" "cs_Running cs' = cs_Running cs"
      "set (cs_Networks cs') =
         (if e_network (e\<lparr>dock := d1\<rparr>) = [] then {} else {e_network (e\<lparr>dock := d1\<rparr>)}) \<union> set (cs_Networks cs)" .
    then have c: "cst d3 = (cst (dock e))(snd n \<mapsto> cs')" "cs_Running cs' = cs_Running cs"
      "set (cs_Networks cs') = (if net = [] then {} else {net}) \<union> set (cs_Networks cs)"
      using net i(2) by simp_all
    have c': "cs_Running cs \<Longrightarrow> good net cs'" using c(2,3) by (auto simp: good_def)
    have r: "st_Running (statusFrom net n cs) = cs_Running cs" by (simp add: statusFrom_def)
    have p: "cs_Running cs \<Longrightarrow> st_Partitioned (statusFrom net n cs) = (\<not> good net cs)"
      by (auto simp: statusFrom_def good_def)
    have rec: "reconcileNode env t states e n =
        (if \<not> cs_Running cs
         then addEvent env t ''heal'' (''Node '' @ showNat (fst n) @ '' reconciled (was down outside any heal window)'')
                (invalidateSnapshot (e\<lparr>dock := d1\<rparr>\<lparr>dock := d2\<rparr>))
         else if \<not> good net cs
         then addEvent env t ''heal'' (''Node '' @ showNat (fst n) @ '' reconciled (rejoined network)'')
                (invalidateSnapshot (e\<lparr>dock := d1\<rparr>\<lparr>dock := d3\<rparr>))
         else e\<lparr>dock := d1\<rparr>)"
      using bad cs0 h net p s0(2)
      by (simp add: reconcileNode_def healPending_def status_good i(1) s0(1) c0(1) r)
    have "improves net (cst (dock e)) (cst d3)" if "cs_Running cs"
      using cs c' [OF that] by (simp add: c(1) improves_upd)
    moreover have "upAt net (cst d3) (snd n)" if "cs_Running cs" using c' [OF that] by (simp add: c(1))
    moreover have "upAt net (cst d1) (snd n)" if "good net cs" using that cs i(2) by (simp add: upAt_def)
    ultimately show ?thesis
      using s i(2) net by (simp add: rec)
  qed
qed

lemma reconcile_loop:
  assumes "dockerd (cp_daemon env) cst" and "improves net states (cst (dock e))" and "e_network e = net"
  shows "improves net (cst (dock e)) (cst (dock (foldl (reconcileNode env t states) e ns))) \<and>
    e_heals (foldl (reconcileNode env t states) e ns) = e_heals e \<and>
    (\<forall>n\<in>set ns. e_heals e (fst n) = None \<longrightarrow> states (snd n) \<noteq> None \<longrightarrow>
       upAt net (cst (dock (foldl (reconcileNode env t states) e ns))) (snd n))"
  using assms
proof (induction ns arbitrary: e)
  case (Cons n ns)
  let ?e = "reconcileNode env t states e n"
  from reconcileNode_repairs [OF Cons.prems] have r: "improves net (cst (dock e)) (cst (dock ?e))"
    "e_heals ?e = e_heals e" "e_network ?e = net"
    "e_heals e (fst n) = None \<longrightarrow> states (snd n) \<noteq> None \<longrightarrow> upAt net (cst (dock ?e)) (snd n)" by blast+
  have "improves net states (cst (dock ?e))" by (rule improves_trans [OF Cons.prems(2) r(1)])
  from Cons.IH [OF Cons.prems(1) this r(3)] r show ?case
    by (auto simp: improves_def)
qed simp

lemma reconcile_tick:
  assumes "dockerd (cp_daemon env) cst"
    and "1 \<le> nid" and "nid \<le> 64" and "e_nodes e nid = Some name" and "e_heals e nid = None"
    and "cst (dock e) name \<noteq> None"
  shows "upAt (e_network e) (cst (dock (reconcileOnce env t e))) name \<and>
    improves (e_network e) (cst (dock e)) (cst (dock (reconcileOnce env t e))) \<and>
    e_heals (reconcileOnce env t e) = e_heals e"
proof -
  obtain d1 where l: "docker_containers (cp_daemon env) (dock e) = (Inr (cst (dock e)), d1)" "cst d1 = cst (dock e)"
    using containers_reports [OF assms(1)] by blast
  let ?e1 = "e\<lparr>dock := d1\<rparr>"
  have n: "(nid, name) \<in> set (Nodes ?e1)"
    using assms(2-4) by (auto simp: Nodes_def List.map_filter_def intro!: image_eqI [of _ _ nid])
  have rec: "reconcileOnce env t e = foldl (reconcileNode env t (cst (dock e))) ?e1 (Nodes ?e1)"
    by (simp add: reconcileOnce_def dockE_def l)
  have imp: "improves (e_network e) (cst (dock e)) (cst (dock ?e1))" using l(2) by simp
  have net: "e_network ?e1 = e_network e" by simp
  note r = reconcile_loop [OF assms(1) imp net, of t "Nodes ?e1", folded rec]
  have "upAt (e_network e) (cst (dock (reconcileOnce env t e))) name"
    using bspec [OF conjunct2 [OF conjunct2 [OF r]] n] assms(5,6) by simp
  with r l(2) show ?thesis by simp
qed

text \<open>
  C12. The reconciler repairs. When Docker works, one tick brings every whitelisted node with an
  identifier up to 64 that Docker knows and that has no heal pending to running and on the
  cluster network, whatever state it was in, takes no container down, and leaves the heal jobs
  as they are.
\<close>

theorem reconcile_repairs:
  assumes "dockerd (cp_daemon env) cst"
    and "1 \<le> nid" and "nid \<le> 64" and "e_nodes e nid = Some name" and "e_heals e nid = None"
    and "cst (dock e) name \<noteq> None"
  shows "upAt (e_network e) (cst (dock (reconcileOnce env t e))) name \<and>
    improves (e_network e) (cst (dock e)) (cst (dock (reconcileOnce env t e))) \<and>
    e_heals (reconcileOnce env t e) = e_heals e"
  by (rule reconcile_tick [OF assms])

section \<open>Killing\<close>

lemma kill_stops:
  assumes dk: "dockerd (cp_daemon env) cst" and n: "e_nodes e nid = Some name"
    and cs: "cst (dock e) name = Some cs"
  obtains e' w where "kill env t nid src e = (Inr (), e')"
    and "cst (dock e') = (cst (dock e))(name \<mapsto> cs\<lparr>cs_Running := False, cs_Status := w\<rparr>)"
    and "e_nodes e' = e_nodes e" and "e_network e' = e_network e" and "e_snapAt e' = None"
    and "e_heals e' = (e_heals e)(nid \<mapsto>
           \<lparr>hj_kind = ''start'', hj_due = t + e_healAfter e, hj_audit = (src = killSourceVisitor),
            hj_no = e_nextJob e\<rparr>)"
proof -
  from stop_obeys [OF dk cs] obtain d' w where
    st: "docker_stop (cp_daemon env) name 1 (dock e) = (Inr (), d')"
    and d': "cst d' = (cst (dock e))(name \<mapsto> cs\<lparr>cs_Running := False, cs_Status := w\<rparr>)" .
  have h: "e_healAfter (cancelHeal nid e) = e_healAfter e" "e_nextJob (cancelHeal nid e) = e_nextJob e"
    by (auto simp: cancelHeal_def cancelHealLocked_def split: option.splits)
  show ?thesis
    by (rule that [of "snd (kill env t nid src e)" w])
       (use st d' n h in \<open>auto simp: kill_def dockE_def split: killSource.splits\<close>)
qed

lemma not_good_stopped [simp]: "\<not> good net (cs\<lparr>cs_Running := False, cs_Status := w\<rparr>)"
  by (simp add: good_def)

lemma runHeal_improves:
  assumes dk: "dockerd (cp_daemon env) cst" and n: "e_nodes e nid = Some name"
    and cs: "cst (dock e) name = Some cs"
  shows "improves (e_network e) (cst (dock e)) (cst (dock (runHeal env t nid kind au e)))"
proof -
  from engine_inspect_reports [where n = "(nid, name)" and e = e, OF dk] cs obtain d1 where
    i: "engine_inspect env (nid, name) e = (Inr (statusFrom (e_network e) (nid, name) cs), e\<lparr>dock := d1\<rparr>)"
    "cst d1 = cst (dock e)" by auto
  then have cs1: "cst (dock (e\<lparr>dock := d1\<rparr>)) name = Some cs" using cs by simp
  from start_and_connect [OF dk cs1] obtain d2 e2 where
    s: "engine_start env name (e\<lparr>dock := d1\<rparr>) = (Inr (), e2)"
    "(if e_network e2 \<noteq> [] then snd (connectNetwork env name e2) else e2) = e\<lparr>dock := d1\<rparr>\<lparr>dock := d2\<rparr>"
    "improves (e_network (e\<lparr>dock := d1\<rparr>)) (cst (dock (e\<lparr>dock := d1\<rparr>))) (cst d2)" .
  from connectNetwork_connects [OF dk cs] obtain d3 cs' where
    c: "connectNetwork env name e = (Inr (), e\<lparr>dock := d3\<rparr>)" "cst d3 = (cst (dock e))(name \<mapsto> cs')"
    "cs_Running cs' = cs_Running cs"
    "set (cs_Networks cs') = (if e_network e = [] then {} else {e_network e}) \<union> set (cs_Networks cs)" .
  have "improves (e_network e) (cst (dock e)) (cst d3)"
    using cs c(2-4) by (auto simp: good_def intro!: improves_upd)
  then show ?thesis
    using n i(2) s(2,3) by (simp add: runHeal_def i(1) s(1) c(1) emitHeal_def)
qed

text \<open>
  C15. A kill is seen at once: when Docker works, the kill of a whitelisted machine succeeds, and
  whatever view was cached before, the next view any caller gets is built after it and shows the
  machine stopped with its restart pending.
\<close>

theorem kill_seen_by_next_view:
  assumes dk: "dockerd (cp_daemon env) cst" and b: "1 \<le> nid" "nid \<le> 64"
    and n: "e_nodes e nid = Some name" and cs: "cst (dock e) name \<noteq> None"
  shows "fst (kill env t nid src e) = Inr () \<and>
    (\<exists>st \<in> set (sn_Nodes (fst (fst (engine_snapshot env t' (snd (kill env t nid src e)))))).
       st_ID st = nid \<and> \<not> st_Running st \<and> st_HealKind st = ''start'')"
proof -
  from cs obtain cs0 where "cst (dock e) name = Some cs0" by blast
  from kill_stops [OF dk n this] obtain e1 w where
    k: "kill env t nid src e = (Inr (), e1)"
    "cst (dock e1) = (cst (dock e))(name \<mapsto> cs0\<lparr>cs_Running := False, cs_Status := w\<rparr>)"
    "e_nodes e1 = e_nodes e" "e_network e1 = e_network e" "e_snapAt e1 = None"
    "e_heals e1 = (e_heals e)(nid \<mapsto>
       \<lparr>hj_kind = ''start'', hj_due = t + e_healAfter e, hj_audit = (src = killSourceVisitor),
        hj_no = e_nextJob e\<rparr>)" .
  obtain d1 where l: "docker_containers (cp_daemon env) (dock e1) = (Inr (cst (dock e1)), d1)" "cst d1 = cst (dock e1)"
    using containers_reports [OF dk] by blast
  let ?e = "e1\<lparr>dock := d1\<rparr>"
  let ?st = "listNode env t' (cst (dock e1)) ?e (nid, name)"
  have "(nid, name) \<in> set (Nodes ?e)"
    using b n k(3) by (auto simp: Nodes_def List.map_filter_def intro!: image_eqI [of _ _ nid])
  then have "?st \<in> set (fst (engine_List env t' e1))"
    by (simp add: engine_List_def dockE_def l)
  moreover have "sn_Nodes (fst (buildSnapshot env t' e1)) = fst (engine_List env t' e1)"
    by (simp add: buildSnapshot_def Let_def split: prod.splits)
  moreover have "fst (fst (engine_snapshot env t' e1)) = fst (buildSnapshot env t' e1)"
    by (auto simp: engine_snapshot_def engine_refresh_def refreshBegin_def younger_def k(5) refreshEnd_def
        Let_def split: option.splits prod.splits)
  moreover have "st_ID ?st = nid \<and> \<not> st_Running ?st \<and> st_HealKind ?st = ''start''"
    using k(2,6) by (simp add: listNode_def attachHeal_def statusFrom_def Let_def)
  ultimately show ?thesis using k(1) by auto
qed

text \<open>
  C38. A heal callback can drop the heal job of a later kill. The callback of a machine's old job
  does its work, the machine is killed again, which registers the new job, and the callback then
  removes the entry under the machine's identifier: the machine is down, no heal is pending for
  it, and the next reconcile tick restarts it ahead of its window. The comment in \<^verbatim>\<open>kill\<close> says
  that there is never such a moment.
\<close>

theorem old_heal_drops_new_job:
  assumes dk: "dockerd (cp_daemon env) cst" and b: "1 \<le> nid" "nid \<le> 64"
    and n: "e_nodes e nid = Some name" and cs: "cst (dock e) name \<noteq> None"
    and e1: "e1 = snd (kill env t nid src (runHeal env t nid kind au e))"
    and e2: "e2 = healDone nid e1"
  shows "healPending nid e1 \<and> \<not> healPending nid e2 \<and> \<not> upAt (e_network e) (cst (dock e2)) name \<and>
    upAt (e_network e) (cst (dock (reconcileOnce env t' e2))) name"
proof -
  let ?e = "runHeal env t nid kind au e"
  from cs obtain cs0 where cs0: "cst (dock e) name = Some cs0" by blast
  have c: "confined env e ?e" by (rule confined_runHeal)
  from runHeal_improves [OF dk n cs0, of t kind au] cs have "cst (dock ?e) name \<noteq> None"
    unfolding improves_def by blast
  then obtain cs1 where cs1: "cst (dock ?e) name = Some cs1" by blast
  have n1: "e_nodes ?e nid = Some name" using c n by (simp add: confined_def)
  from kill_stops [OF dk n1 cs1] obtain f w where
    k: "kill env t nid src ?e = (Inr (), f)"
    "cst (dock f) = (cst (dock ?e))(name \<mapsto> cs1\<lparr>cs_Running := False, cs_Status := w\<rparr>)"
    "e_nodes f = e_nodes ?e" "e_network f = e_network ?e"
    "e_heals f = (e_heals ?e)(nid \<mapsto>
       \<lparr>hj_kind = ''start'', hj_due = t + e_healAfter ?e, hj_audit = (src = killSourceVisitor),
        hj_no = e_nextJob ?e\<rparr>)" by metis
  have f: "e1 = f" using e1 k(1) by simp
  have e2': "e_nodes e2 nid = Some name" "e_heals e2 nid = None" "cst (dock e2) name \<noteq> None"
    "e_network e2 = e_network e" "dock e2 = dock f"
    using e2 f k n1 c by (simp_all add: healDone_def confined_def)
  have "upAt (e_network e) (cst (dock (reconcileOnce env t' e2))) name"
    using reconcile_tick [OF dk b e2'(1-3), of t'] unfolding e2'(4) by blast
  moreover have "\<not> upAt (e_network e) (cst (dock e2)) name" by (simp add: e2'(5) k(2))
  moreover have "healPending nid e1" by (simp add: f k(5) healPending_def)
  ultimately show ?thesis using e2'(2) by (simp add: healPending_def)
qed

text \<open>
  A rejected partition cancels a heal. For a killed machine whose restart is pending, a
  partition request that passes the cooldown is refused because the machine is not running, but
  its pending restart is gone: the next reconcile tick restarts the machine before its window is
  over.
\<close>

theorem rejected_partition_cancels_heal:
  assumes dk: "dockerd (cp_daemon env) cst" and b: "1 \<le> nid" "nid \<le> 64"
    and n: "e_nodes e nid = Some name" and net: "e_network e \<noteq> []"
    and cs: "cst (dock e) name = Some cs" and down: "\<not> cs_Running cs"
    and ok: "fst (allowDisrupt t ip e) = Inr ()"
  shows "fst (Do env t ip nid ActionPartition e) =
           Inl (''controlplane: machine '' @ showNat nid @ '' is not running'') \<and>
    \<not> healPending nid (snd (Do env t ip nid ActionPartition e)) \<and>
    upAt (e_network e) (cst (dock (reconcileOnce env t' (snd (Do env t ip nid ActionPartition e))))) name"
proof -
  obtain e1 where a: "allowDisrupt t ip e = (Inr (), e1)" using ok by (cases "allowDisrupt t ip e") simp
  have a1: "e_nodes e1 = e_nodes e" "e_network e1 = e_network e" "dock e1 = dock e"
    using a by (auto simp: allowDisrupt_def Let_def split: if_splits)
  let ?f = "cancelHeal nid (noteVisitorKill t e1)"
  have f: "e_network ?f = e_network e" "dock ?f = dock e" "e_nodes ?f = e_nodes e" "e_heals ?f nid = None"
    using a1 by (simp_all add: noteVisitorKill_def)
  have "cst (dock ?f) (snd (nid, name)) = Some cs" using cs f(2) by simp
  from engine_inspect_reports [OF dk this] obtain d1 where
    i: "engine_inspect env (nid, name) ?f = (Inr (statusFrom (e_network ?f) (nid, name) cs), ?f\<lparr>dock := d1\<rparr>)"
    "cst d1 = cst (dock ?f)" .
  have "\<not> st_Running (statusFrom (e_network ?f) (nid, name) cs)" using down by (simp add: statusFrom_def)
  then have Do: "Do env t ip nid ActionPartition e =
      (Inl (''controlplane: machine '' @ showNat nid @ '' is not running''), ?f\<lparr>dock := d1\<rparr>)"
    using n net by (simp add: Do_def bindE_def a doPartition_def i(1))
  let ?g = "?f\<lparr>dock := d1\<rparr>"
  have g: "e_nodes ?g nid = Some name" "e_heals ?g nid = None" "cst (dock ?g) name \<noteq> None"
    "e_network ?g = e_network e"
    using f n cs i(2) by simp_all
  have "upAt (e_network e) (cst (dock (reconcileOnce env t' ?g))) name"
    using reconcile_tick [OF dk b g(1-3), of t'] unfolding g(4) by blast
  with g(2) show ?thesis unfolding Do by (simp add: healPending_def)
qed

end
