(* ===== verification/ChaosSafety.thy ===== *)
theory ChaosSafety
  imports EngineHeal
begin

text \<open>
  The chaos monkey and the visitors' limits: the monkey acts only on a view in which every
  machine is healthy, so it never takes quorum away from three machines or more; it never acts at
  all when no Prometheus is configured; kills from one address are spaced by the cooldown; the
  event ring is the last 64 events.
\<close>

section \<open>Views under the daemon's contract\<close>

lemma listNode_ID [simp]: "st_ID (listNode env t states e n) = fst n"
  by (simp add: listNode_def attachHeal_def attachRaft_def statusFrom_def unknownStatus_def Let_def
      split: option.splits)

lemma attach_flags [simp]:
  "st_Running (attachHeal t e st) = st_Running st" "st_Partitioned (attachHeal t e st) = st_Partitioned st"
  "st_Running (attachRaft env d st) = st_Running st" "st_Partitioned (attachRaft env d st) = st_Partitioned st"
  by (simp_all add: attachHeal_def attachRaft_def split: option.splits)

lemma listNode_up:
  "st_Running (listNode env t states e n) \<and> \<not> st_Partitioned (listNode env t states e n) \<longleftrightarrow>
     upAt (e_network e) states (snd n)"
  using status_good [of "e_network e" n]
  by (auto simp: listNode_def unknownStatus_def upAt_def Let_def statusFrom_def good_def split: option.splits)

lemma noteQuorum_fields:
  "dock (snd (noteQuorum t q e)) = dock e" "e_nodes (snd (noteQuorum t q e)) = e_nodes e"
  "e_network (snd (noteQuorum t q e)) = e_network e" "e_rates (snd (noteQuorum t q e)) = e_rates e"
  "e_lastChaos (snd (noteQuorum t q e)) = e_lastChaos e"
  by (simp_all add: noteQuorum_def Let_def)

text \<open>A view that is not fresh is built: its nodes, its totals and the rates it shows.\<close>

definition unfresh :: "int \<Rightarrow> 'd Engine \<Rightarrow> bool" where
  "unfresh t e \<longleftrightarrow> e_snap e = None \<or> \<not> younger snapshotMaxAge t e"

lemma refresh_builds:
  assumes dk: "dockerd (cp_daemon env) cst" and u: "unfresh t e"
  obtains v d where "fst (engine_refresh env t e) = v"
    and "sn_Nodes (fst v) = map (listNode env t (cst (dock e)) (e\<lparr>dock := d\<rparr>)) (Nodes e)"
    and "sn_Total (fst v) = length (Nodes e)" and "cst d = cst (dock e)"
    and "dock (snd (engine_refresh env t e)) = d"
    and "e_nodes (snd (engine_refresh env t e)) = e_nodes e"
    and "e_network (snd (engine_refresh env t e)) = e_network e"
proof -
  obtain d where l: "docker_containers (cp_daemon env) (dock e) = (Inr (cst (dock e)), d)" "cst d = cst (dock e)"
    using containers_reports [OF dk] by blast
  obtain s e1 where b: "buildSnapshot env t e = (s, e1)" by fastforce
  have ns: "Nodes (e\<lparr>dock := d\<rparr>) = Nodes e" by (simp add: Nodes_def)
  have s: "sn_Nodes s = map (listNode env t (cst (dock e)) (e\<lparr>dock := d\<rparr>)) (Nodes e)"
    "sn_Total s = length (Nodes e)" "dock e1 = d" "e_nodes e1 = e_nodes e" "e_network e1 = e_network e"
    using b noteQuorum_fields [of t _ "e\<lparr>dock := d\<rparr>"]
    by (auto simp: buildSnapshot_def engine_List_def dockE_def l ns Let_def split: prod.splits)
       (metis noteQuorum_fields(1-3) Engine.select_convs Engine.simps snd_conv)+
  have r: "engine_refresh env t e = refreshEnd env t (e_snapGen e) s e1"
    using u by (auto simp: engine_refresh_def refreshBegin_def unfresh_def b split: option.splits)
  show ?thesis
    by (rule that [of "fst (engine_refresh env t e)" d])
       (use s l(2) in \<open>auto simp: r refreshEnd_def Let_def\<close>)
qed

section \<open>Quorum\<close>

definition upCount :: "string \<Rightarrow> (string \<rightharpoonup> containerState) \<Rightarrow> (nat \<times> string) list \<Rightarrow> nat" where
  "upCount net s ns = length (filter (\<lambda>n. upAt net s (snd n)) ns)"

definition majorityUp :: "('d \<Rightarrow> string \<rightharpoonup> containerState) \<Rightarrow> 'd Engine \<Rightarrow> bool" where
  "majorityUp cst e \<longleftrightarrow> upCount (e_network e) (cst (dock e)) (Nodes e) > length (Nodes e) div 2"

lemma filter_full: "length (filter P xs) = length xs \<Longrightarrow> x \<in> set xs \<Longrightarrow> P x"
  by (metis filter_id_conv length_filter_less less_irrefl)

lemma candidates_all:
  assumes "length (chaosCandidates (map f ns)) = length ns" and "n \<in> set ns"
  shows "st_Running (f n) \<and> \<not> st_Partitioned (f n)"
  using filter_full [OF assms(1) [unfolded chaosCandidates_def length_map [of f ns, symmetric]], of "f n"] assms(2)
  by simp

text \<open>Stopping one container of a list with distinct containers takes one machine down.\<close>

lemma upCount_stop_one:
  assumes "distinct (map snd ns)" and "\<forall>n\<in>set ns. upAt net s (snd n)"
  shows "upCount net (s(name \<mapsto> cs)) ns + 1 \<ge> length ns"
  using assms
proof (induction ns)
  case (Cons n ns)
  show ?case
  proof (cases "snd n = name")
    case True
    with Cons.prems have "upAt net (s(name \<mapsto> cs)) (snd m)" if "m \<in> set ns" for m
      using that by (auto simp: upAt_def image_iff)
    then have f: "filter (\<lambda>n. upAt net (s(name \<mapsto> cs)) (snd n)) ns = ns" by (simp add: filter_id_conv)
    have "length (filter P (n # ns)) \<ge> length (filter P ns)" for P by simp
    from this [of "\<lambda>n. upAt net (s(name \<mapsto> cs)) (snd n)"] show ?thesis
      unfolding upCount_def f by simp
  next
    case False
    with Cons show ?thesis by (auto simp: upCount_def upAt_def)
  qed
qed (simp add: upCount_def)

lemma candidates_subset: "set (chaosCandidates ns) \<subseteq> set ns"
  by (auto simp: chaosCandidates_def)

text \<open>
  A chaos tick on a newly built view leaves every container as it is, or finds all machines up and
  stops one of them.
\<close>

lemma chaos_tick:
  fixes pick :: nat
  assumes dk: "dockerd (cp_daemon env) cst" and u: "unfresh t e"
  defines "c \<equiv> chaosOnce env t pick e"
  shows "e_nodes c = e_nodes e \<and> e_network c = e_network e \<and>
    (cst (dock c) = cst (dock e) \<or>
     (\<forall>n\<in>set (Nodes e). upAt (e_network e) (cst (dock e)) (snd n)) \<and>
     (\<exists>n cs. n \<in> set (Nodes e) \<and> cst (dock c) = (cst (dock e))(snd n \<mapsto> cs)))"
proof -
  from refresh_builds [OF dk u] obtain v d1 where
    v: "fst (engine_refresh env t e) = v"
    "sn_Nodes (fst v) = map (listNode env t (cst (dock e)) (e\<lparr>dock := d1\<rparr>)) (Nodes e)"
    "sn_Total (fst v) = length (Nodes e)" "cst d1 = cst (dock e)"
    "dock (snd (engine_refresh env t e)) = d1"
    "e_nodes (snd (engine_refresh env t e)) = e_nodes e"
    "e_network (snd (engine_refresh env t e)) = e_network e" .
  obtain snap js f where r: "engine_refresh env t e = ((snap, js), f)" by (metis surj_pair)
  have f: "cst (dock f) = cst (dock e)" "e_nodes f = e_nodes e" "e_network f = e_network e"
    using v(4-7) by (simp_all add: r)
  let ?cs = "chaosCandidates (sn_Nodes snap)"
  let ?vic = "?cs ! (pick mod length ?cs)"
  show ?thesis
  proof (cases "chaosBlocked snap (e_rates f \<noteq> None) (e_lastVisitorKill f) t \<noteq> [] \<or> ?cs = []")
    case True
    then show ?thesis using f by (auto simp: c_def chaosOnce_def r Let_def)
  next
    case False
    then have all: "length ?cs = sn_Total snap" by (auto simp: chaosBlocked_def split: if_splits)
    have sn: "sn_Nodes snap = map (listNode env t (cst (dock e)) (e\<lparr>dock := d1\<rparr>)) (Nodes e)"
      "sn_Total snap = length (Nodes e)" using v(2,3) by (simp_all add: v(1) [symmetric] r)
    have up: "upAt (e_network e) (cst (dock e)) (snd n)" if "n \<in> set (Nodes e)" for n
      using candidates_all [OF all [unfolded sn] that] listNode_up [of env t "cst (dock e)" "e\<lparr>dock := d1\<rparr>" n] by simp
    have "?vic \<in> set ?cs" using False by simp
    then have "?vic \<in> set (sn_Nodes snap)" using candidates_subset by blast
    then obtain n where n: "n \<in> set (Nodes e)" "st_ID ?vic = fst n" by (auto simp: sn(1))
    have w: "e_nodes f (st_ID ?vic) = Some (snd n)" using Nodes_whitelisted [OF n(1)] n(2) f(2) by simp
    obtain cs where cs: "cst (dock f) (snd n) = Some cs"
      using up [OF n(1)] f(1) by (fastforce simp: upAt_def split: option.splits)
    from kill_stops [OF dk w cs, of t killSourceChaos] obtain g ws where
      k: "kill env t (st_ID ?vic) killSourceChaos f = (Inr (), g)"
      "cst (dock g) = (cst (dock f))(snd n \<mapsto> cs\<lparr>cs_Running := False, cs_Status := ws\<rparr>)"
      "e_nodes g = e_nodes f" "e_network g = e_network f" by metis
    have c: "c = g\<lparr>e_lastChaos := (st_ID ?vic, t)\<rparr>" using False k(1) by (simp add: c_def chaosOnce_def r Let_def)
    have "\<exists>n cs. n \<in> set (Nodes e) \<and> cst (dock c) = (cst (dock e))(snd n \<mapsto> cs)"
      using n(1) k(2) f(1) by (intro exI [of _ n]) (auto simp: c)
    moreover have "e_nodes c = e_nodes e" "e_network c = e_network e" using k(3,4) f(2,3) by (simp_all add: c)
    ultimately show ?thesis using up by blast
  qed
qed

text \<open>
  C13. The chaos monkey never takes quorum away. With at least three whitelisted machines on
  distinct containers and a working Docker, a chaos tick that looks at a newly built view leaves
  more than half of the machines running and on the network if they were before, whichever
  machine it picks.
\<close>

theorem chaos_keeps_quorum:
  assumes dk: "dockerd (cp_daemon env) cst" and u: "unfresh t e"
    and d: "distinct (map snd (Nodes e))" and three: "length (Nodes e) \<ge> 3"
    and q: "majorityUp cst e"
  shows "majorityUp cst (chaosOnce env t pick e)"
proof -
  let ?c = "chaosOnce env t pick e"
  have c: "e_network ?c = e_network e" "Nodes ?c = Nodes e"
    using chaos_tick [OF dk u, of pick] by (simp_all add: Nodes_def)
  have "upCount (e_network e) (cst (dock ?c)) (Nodes e) + 1 \<ge> length (Nodes e)"
    if "cst (dock ?c) \<noteq> cst (dock e)"
    using chaos_tick [OF dk u, of pick] that upCount_stop_one [OF d, of "e_network e" "cst (dock e)"] by auto
  with three q show ?thesis
    by (cases "cst (dock ?c) = cst (dock e)") (simp_all add: majorityUp_def c)
qed

text \<open>
  C39. Without Prometheus the monkey never acts. The program always gives the engine a rate cache,
  also when no Prometheus address is configured, and such a cache shows zero rates for ever; the
  progress guard then blocks every chaos tick: it does no more than refresh the view. The comment
  on \<^verbatim>\<open>chaosBlocked\<close> says that the guard is skipped when there is nothing to evaluate.
\<close>

theorem monkey_blocked_without_prometheus:
  assumes "e_rates e = Some (rates_Run qs (NewRateCache []))" and "unfresh t e"
  shows "chaosOnce env t pick e = snd (engine_refresh env t e)"
proof -
  obtain s e1 where b: "buildSnapshot env t e = (s, e1)" by fastforce
  have "e_rates e1 = e_rates e \<and> sn_WritesPerSec s = Fin 0 \<and> sn_ReadsPerSec s = Fin 0"
  proof -
    obtain l e0 where l: "engine_List env t e = (l, e0)" by fastforce
    have r0: "e_rates e0 = Some (NewRateCache [])"
      using l assms(1) by (auto simp: engine_List_def dockE_def split: prod.splits)
    then have "rates_Rates (e_rates (snd (noteQuorum t q e0))) = (Fin 0, Fin 0)" for q
      by (simp add: noteQuorum_fields rates_Rates_def NewRateCache_def)
    then show ?thesis
      using b r0 assms(1) noteQuorum_fields(4) [of t _ e0]
      by (auto simp: buildSnapshot_def l Let_def split: prod.splits) (metis snd_conv fst_conv)+
  qed
  moreover have "engine_refresh env t e = refreshEnd env t (e_snapGen e) s e1"
    using assms(2) by (auto simp: engine_refresh_def refreshBegin_def unfresh_def b split: option.splits)
  ultimately show ?thesis
    using assms(1) by (simp add: chaosOnce_def refreshEnd_def chaosBlocked_def Let_def)
qed

section \<open>The cooldown\<close>

text \<open>The requests of a sequence that pass the per-IP cooldown, with the address they count for.\<close>

definition ipKey :: "string \<Rightarrow> string" where
  "ipKey ip = (if ip = [] then ''unknown'' else ip)"

fun admitted :: "(int \<times> string) list \<Rightarrow> 'd Engine \<Rightarrow> (int \<times> string) list" where
  "admitted [] e = []"
| "admitted ((t, ip) # rs) e =
     (case allowDisrupt t ip e of
        (Inl _, e') \<Rightarrow> admitted rs e'
      | (Inr _, e') \<Rightarrow> (t, ipKey ip) # admitted rs e')"

lemma allowDisrupt_cases:
  obtains (refused) m where "allowDisrupt t ip e = (Inl m, e)"
  | (allowed) "allowDisrupt t ip e = (Inr (), e\<lparr>e_ipLast := (e_ipLast e)(ipKey ip \<mapsto> t)\<rparr>)"
      and "\<And>l. e_ipLast e (ipKey ip) = Some l \<Longrightarrow> t - l \<ge> e_ipCooldown e"
proof (cases "\<exists>l. e_ipLast e (ipKey ip) = Some l \<and> e_ipCooldown e - (t - l) > 0")
  case True
  then show ?thesis using refused by (auto simp: allowDisrupt_def ipKey_def Let_def)
next
  case False
  then have "allowDisrupt t ip e = (Inr (), e\<lparr>e_ipLast := (e_ipLast e)(ipKey ip \<mapsto> t)\<rparr>)"
    by (auto simp: allowDisrupt_def ipKey_def Let_def split: option.splits)
  with False show ?thesis using allowed by force
qed

lemma admitted_after_last:
  "e_ipCooldown e \<ge> 0 \<Longrightarrow> (b, j) \<in> set (admitted rs e) \<Longrightarrow> e_ipLast e j = Some l \<Longrightarrow>
     b - l \<ge> e_ipCooldown e"
proof (induction rs e arbitrary: l rule: admitted.induct)
  case (2 t ip rs e)
  show ?case
  proof (cases rule: allowDisrupt_cases [of t ip e])
    case (refused m)
    with 2 show ?thesis by simp
  next
    case allowed
    let ?e = "e\<lparr>e_ipLast := (e_ipLast e)(ipKey ip \<mapsto> t)\<rparr>"
    note IH = "2.IH"(2) [OF allowed(1) [symmetric] refl]
    show ?thesis
    proof (cases "(b, j) \<in> set (admitted rs ?e)")
      case True
      from "2.prems"(1) have cd: "e_ipCooldown ?e \<ge> 0" by simp
      show ?thesis
      proof (cases "j = ipKey ip")
        case same: True
        have "b - t \<ge> e_ipCooldown ?e" by (rule IH [OF cd True]) (simp add: same)
        moreover have "t - l \<ge> e_ipCooldown e" using allowed(2) "2.prems"(3) same by simp
        ultimately show ?thesis using "2.prems"(1) by simp
      next
        case False
        have "b - l \<ge> e_ipCooldown ?e" by (rule IH [OF cd True]) (use False "2.prems"(3) in simp)
        then show ?thesis by simp
      qed
    next
      case False
      with "2.prems"(2) allowed(1) have "b = t" "j = ipKey ip" by auto
      with allowed(2) "2.prems"(3) show ?thesis by simp
    qed
  qed
qed simp

text \<open>
  Visitors are limited: of any sequence of kill and partition requests, two that are admitted
  for the same address (the empty one counts as \<^verbatim>\<open>unknown\<close>) are at least the cooldown apart.
\<close>

theorem cooldown_spaces_kills:
  assumes "e_ipCooldown e \<ge> 0"
  shows "sorted_wrt (\<lambda>(a, i) (b, j). i = j \<longrightarrow> b - a \<ge> e_ipCooldown e) (admitted rs e)"
  using assms
proof (induction rs e rule: admitted.induct)
  case (2 t ip rs e)
  show ?case
  proof (cases rule: allowDisrupt_cases [of t ip e])
    case (refused m)
    with 2 show ?thesis by simp
  next
    case allowed
    let ?e = "e\<lparr>e_ipLast := (e_ipLast e)(ipKey ip \<mapsto> t)\<rparr>"
    have "b - t \<ge> e_ipCooldown e" if "(b, ipKey ip) \<in> set (admitted rs ?e)" for b
      using admitted_after_last [of ?e b "ipKey ip" rs t] that 2(3) by simp
    with "2.IH"(2) [OF allowed(1) [symmetric] refl] "2.prems" allowed(1) show ?thesis by auto
  qed
qed simp

section \<open>The event ring\<close>

lemma pushRing_tail:
  assumes "cap > 0"
  shows "foldl (pushRing cap) [] evs = drop (length evs - cap) evs"
proof (induction evs rule: rev_induct)
  case (snoc ev evs)
  show ?case
  proof (cases "length evs < cap")
    case True
    with snoc show ?thesis by (simp add: pushRing_def)
  next
    case False
    then have "tl (drop (length evs - cap) evs) = drop (Suc (length evs) - cap) evs"
      by (simp add: Suc_diff_le drop_Suc tl_drop)
    with snoc False assms show ?thesis by (simp add: pushRing_def)
  qed
qed simp

end
