(* ===== verification/EngineWf.thy ===== *)
theory EngineWf
  imports ChaosSafety
begin

text \<open>
  The well-formedness of the engine's state, that \<^verbatim>\<open>NewEngine\<close> establishes it for every
  configuration it accepts, and that every step of every goroutine keeps it.
\<close>

section \<open>Well-formed engines\<close>

definition safeName :: "string \<Rightarrow> bool" where
  "safeName name \<longleftrightarrow> name \<noteq> [] \<and> \<not> containsAny name unsafeChars"

definition safeNodes :: "(nat \<rightharpoonup> string) \<Rightarrow> bool" where
  "safeNodes nodes \<longleftrightarrow> (\<forall>nid name. nodes nid = Some name \<longrightarrow> nid \<noteq> 0 \<and> safeName name)"

text \<open>
  Heal jobs belong to whitelisted machines, are of one of the two kinds, are not cancelled while
  they are registered, and no two of them share a timer.
\<close>

definition jobs_ok :: "'d Engine \<Rightarrow> bool" where
  "jobs_ok e \<longleftrightarrow>
     (\<forall>nid job. e_heals e nid = Some job \<longrightarrow>
        e_nodes e nid \<noteq> None \<and> hj_kind job \<in> {''start'', ''reconnect''} \<and>
        hj_no job < e_nextJob e \<and> hj_no job \<notin> set (e_cancelled e)) \<and>
     (\<forall>m n j k. e_heals e m = Some j \<longrightarrow> e_heals e n = Some k \<longrightarrow> hj_no j = hj_no k \<longrightarrow> m = n) \<and>
     (\<forall>k\<in>set (e_cancelled e). k < e_nextJob e)"

definition engine_ok :: "'d Engine \<Rightarrow> bool" where
  "engine_ok e \<longleftrightarrow>
     safeNodes (e_nodes e) \<and> e_ipCooldown e > 0 \<and> e_healAfter e > 0 \<and>
     e_eventCap e = 64 \<and> length (e_events e) \<le> 64 \<and> jobs_ok e"

lemma whitelist_safe: "whitelist ns m = Inr nodes \<Longrightarrow> safeNodes m \<Longrightarrow> safeNodes nodes"
proof (induction ns m rule: whitelist.induct)
  case (2 nid name ns m)
  then have "safeNodes (m(nid \<mapsto> name))"
    by (auto simp: safeNodes_def safeName_def split: if_splits)
  moreover have "\<not> (nid = 0 \<or> name = [])" "\<not> containsAny name unsafeChars"
    and "whitelist ns (m(nid \<mapsto> name)) = Inr nodes"
    using "2.prems"(1) by (auto split: if_splits)
  ultimately show ?case using "2.IH" by blast
qed simp

lemma NewEngine_ok: "NewEngine cfg t d w = (Inr e, w') \<Longrightarrow> engine_ok e"
  using whitelist_safe [of "cfg_Nodes cfg" Map.empty]
  by (auto simp: NewEngine_def engine_ok_def jobs_ok_def safeNodes_def second_def
      split: if_splits sum.splits prod.splits)

section \<open>The parts of the methods\<close>

text \<open>What a part changes of the fields that well-formedness reads.\<close>

definition wfView :: "'d Engine \<Rightarrow> (nat \<rightharpoonup> string) \<times> int \<times> int \<times> nat \<times> Event list \<times> (nat \<rightharpoonup> healJob) \<times> nat list \<times> nat" where
  "wfView e = (e_nodes e, e_ipCooldown e, e_healAfter e, e_eventCap e, e_events e, e_heals e, e_cancelled e, e_nextJob e)"

lemma wfView_ok: "wfView e' = wfView e \<Longrightarrow> engine_ok e' = engine_ok e"
  by (simp add: wfView_def engine_ok_def jobs_ok_def)

lemma ok_dock [simp]: "engine_ok (e\<lparr>dock := d\<rparr>) = engine_ok e"
  by (rule wfView_ok) (simp add: wfView_def)

lemma ok_quiet [simp]:
  "engine_ok (invalidateSnapshot e) = engine_ok e" "engine_ok (auditEvent env a e) = engine_ok e"
  "engine_ok (noteVisitorKill t e) = engine_ok e" "engine_ok (AddViewer e) = engine_ok e"
  "engine_ok (RemoveViewer e) = engine_ok e" "engine_ok (StartChaos i e) = engine_ok e"
  "engine_ok (snd (noteQuorum t q e)) = engine_ok e" "engine_ok (snd (refreshEnd env t g s e)) = engine_ok e"
  "engine_ok (snd (allowDisrupt t ip e)) = engine_ok e" "engine_ok (e\<lparr>e_lastChaos := c\<rparr>) = engine_ok e"
  "engine_ok (e\<lparr>e_refreshing := b\<rparr>) = engine_ok e"
  "engine_ok (e\<lparr>e_audit := al, e_disk := w\<rparr>) = engine_ok e"
  by ((rule wfView_ok; auto simp: wfView_def invalidateSnapshot_def auditEvent_def noteVisitorKill_def
      AddViewer_def RemoveViewer_def StartChaos_def noteQuorum_def refreshEnd_def allowDisrupt_def Let_def
      split: option.splits prod.splits)+)

lemma ok_disk: "engine_ok (e\<lparr>e_disk := w\<rparr>) = engine_ok e"
  by (rule wfView_ok) (simp add: wfView_def)

lemma ok_dockE [simp]: "engine_ok (snd (dockE m e)) = engine_ok e"
  by (simp add: dockE_def split: prod.splits)

lemma ok_calls [simp]:
  "engine_ok (snd (engine_inspect env n e)) = engine_ok e"
  "engine_ok (snd (engine_start env name e)) = engine_ok e"
  "engine_ok (snd (connectNetwork env name e)) = engine_ok e"
  by (auto simp: engine_inspect_def engine_start_def connectNetwork_def bindE_def dockE_def
      split: prod.splits sum.splits)

lemma ok_ring: "engine_ok e \<Longrightarrow> engine_ok (addRingEvent t k m e)"
  by (auto simp: engine_ok_def addRingEvent_def pushRing_def jobs_ok_def)

lemma ok_event: "engine_ok e \<Longrightarrow> engine_ok (addEvent env t k m e)"
  by (simp add: addEvent_def ok_ring)

lemma ok_emit: "engine_ok e \<Longrightarrow> engine_ok (emitHeal env t au m e)"
  by (simp add: emitHeal_def ok_ring ok_event)

lemma ok_healDone: "engine_ok e \<Longrightarrow> engine_ok (healDone nid e)"
  by (auto simp: engine_ok_def jobs_ok_def healDone_def)

lemma ok_cancelHeal: "engine_ok e \<Longrightarrow> engine_ok (cancelHeal nid e)"
  by (auto simp: engine_ok_def jobs_ok_def cancelHeal_def cancelHealLocked_def split: option.splits)

lemma jobs_ok_new:
  assumes "jobs_ok f" and "e_nodes f nid \<noteq> None" and "hj_kind job \<in> {''start'', ''reconnect''}"
    and "hj_no job = e_nextJob f"
  shows "jobs_ok (f\<lparr>e_heals := (e_heals f)(nid \<mapsto> job), e_nextJob := Suc (e_nextJob f)\<rparr>)"
proof -
  have old: "hj_no j < e_nextJob f" if "e_heals f n = Some j" for n j
    using assms(1) that unfolding jobs_ok_def by blast
  have can: "k < e_nextJob f" if "k \<in> set (e_cancelled f)" for k
    using assms(1) that unfolding jobs_ok_def by blast
  show ?thesis
    using assms old can unfolding jobs_ok_def by (simp add: less_Suc_eq) (metis less_irrefl)
qed

lemma ok_scheduleHeal:
  assumes "engine_ok e" and "e_nodes e nid \<noteq> None" and "k \<in> {''start'', ''reconnect''}"
  shows "engine_ok (scheduleHeal t nid k au e)"
proof -
  define f where "f = cancelHeal nid e"
  define job where "job = \<lparr>hj_kind = k, hj_due = t + e_healAfter f, hj_audit = au, hj_no = e_nextJob f\<rparr>"
  have s: "scheduleHeal t nid k au e =
      f\<lparr>e_heals := (e_heals f)(nid \<mapsto> job), e_nextJob := Suc (e_nextJob f)\<rparr>"
    by (simp add: scheduleHeal_def f_def job_def cancelHeal_def Let_def)
  have f: "engine_ok f" "e_nodes f nid \<noteq> None" using assms by (simp_all add: f_def ok_cancelHeal)
  then have "jobs_ok (f\<lparr>e_heals := (e_heals f)(nid \<mapsto> job), e_nextJob := Suc (e_nextJob f)\<rparr>)"
    using assms(3) by (intro jobs_ok_new) (simp_all add: engine_ok_def job_def)
  with f(1) show ?thesis unfolding s by (simp add: engine_ok_def)
qed

lemmas ok_parts = ok_ring ok_event ok_emit ok_healDone ok_cancelHeal

text \<open>A call as a case analysis leaves it.\<close>

lemma ok_result:
  "engine_inspect env n e = (r, e') \<Longrightarrow> engine_ok e \<Longrightarrow> engine_ok e'"
  "engine_start env name e = (s, e') \<Longrightarrow> engine_ok e \<Longrightarrow> engine_ok e'"
  "connectNetwork env name e = (s, e') \<Longrightarrow> engine_ok e \<Longrightarrow> engine_ok e'"
  "dockE m e = (u, e') \<Longrightarrow> engine_ok e \<Longrightarrow> engine_ok e'"
  using ok_calls(1) [of env n e] ok_calls(2,3) [of env name e] ok_dockE [of m e] by simp_all

section \<open>The methods\<close>

lemma ok_runHeal:
  assumes "engine_ok e"
  shows "engine_ok (runHeal env t nid kind au e)"
proof (cases "e_nodes e nid")
  case (Some name)
  obtain r e1 where i: "engine_inspect env (nid, name) e = (r, e1)" by fastforce
  obtain s e2 where st: "engine_start env name e1 = (s, e2)" by fastforce
  obtain u e3 where co: "connectNetwork env name e = (u, e3)" by fastforce
  have "engine_ok e1" "engine_ok e2" "engine_ok e3"
    using ok_result(1) [OF i assms] ok_result(2) [OF st] ok_result(3) [OF co assms] by simp_all
  then show ?thesis
    using Some assms by (simp add: runHeal_def i st co ok_parts split: sum.splits)
qed (simp add: runHeal_def assms)

lemma ok_reconcileNode:
  assumes "engine_ok e"
  shows "engine_ok (reconcileNode env t states e n)"
proof -
  obtain r e1 where i: "engine_inspect env n e = (r, e1)" by fastforce
  obtain s e2 where st: "engine_start env (snd n) e1 = (s, e2)" by fastforce
  obtain u e3 where co: "connectNetwork env (snd n) e1 = (u, e3)" by fastforce
  have "engine_ok e1" "engine_ok e2" "engine_ok e3"
    using ok_result(1) [OF i assms] ok_result(2) [OF st] ok_result(3) [OF co] by simp_all
  then show ?thesis
    using assms by (simp add: reconcileNode_def i st co ok_parts split: sum.splits option.splits)
qed

lemma ok_foldl: "(\<And>e x. engine_ok e \<Longrightarrow> engine_ok (f e x)) \<Longrightarrow> engine_ok e \<Longrightarrow> engine_ok (foldl f e xs)"
  by (induction xs arbitrary: e) simp_all

lemma ok_reconcileOnce:
  assumes "engine_ok e"
  shows "engine_ok (reconcileOnce env t e)"
proof -
  obtain r e1 where l: "dockE (docker_containers (cp_daemon env)) e = (r, e1)" by fastforce
  from ok_result(4) [OF l assms] show ?thesis
    by (simp add: reconcileOnce_def l ok_foldl ok_reconcileNode split: sum.splits)
qed

lemma ok_kill:
  assumes "engine_ok e"
  shows "engine_ok (snd (kill env t nid src e))"
proof (cases "e_nodes e nid")
  case (Some name)
  let ?e = "scheduleHeal t nid ''start'' (src = killSourceVisitor) (cancelHeal nid e)"
  obtain r e1 where st: "dockE (docker_stop (cp_daemon env) name 1) ?e = (r, e1)" by fastforce
  have "engine_ok ?e" using assms Some by (simp add: ok_scheduleHeal ok_cancelHeal)
  from ok_result(4) [OF st this] show ?thesis
    using Some st by (simp add: kill_def ok_parts split: sum.splits killSource.splits)
qed (simp add: kill_def assms)

lemma ok_doRestart:
  assumes "engine_ok e"
  shows "engine_ok (snd (doRestart env t nid name e))"
proof -
  obtain r e1 where i: "engine_inspect env (nid, name) (cancelHeal nid e) = (r, e1)" by fastforce
  obtain s e2 where st: "engine_start env name e1 = (s, e2)" by fastforce
  have "engine_ok e1" "engine_ok e2"
    using ok_result(1) [OF i ok_cancelHeal [OF assms]] ok_result(2) [OF st] by simp_all
  then show ?thesis
    by (simp add: doRestart_def i st ok_parts split: sum.splits)
qed

lemma ok_doPartition:
  assumes "engine_ok e" and "e_nodes e nid = Some name"
  shows "engine_ok (snd (doPartition env t nid name e))"
proof -
  let ?e0 = "cancelHeal nid (noteVisitorKill t e)"
  obtain r e1 where i: "engine_inspect env (nid, name) ?e0 = (r, e1)" by fastforce
  have ok1: "engine_ok e1" using ok_result(1) [OF i] assms(1) by (simp add: ok_cancelHeal)
  have "confined env ?e0 e1"
    using confined_inspect [of ?e0 "(nid, name)" env] i assms(2) by (simp add: noteVisitorKill_def)
  then have "e_nodes e1 nid \<noteq> None" using assms(2) by (simp add: confined_def noteVisitorKill_def)
  with ok1 have sch: "engine_ok (scheduleHeal t nid ''reconnect'' True e1)" by (simp add: ok_scheduleHeal)
  obtain u e2 where st: "dockE (networkDisconnect (cp_daemon env) (e_network e1) name)
      (scheduleHeal t nid ''reconnect'' True e1) = (u, e2)" by fastforce
  from ok1 ok_result(4) [OF st sch] show ?thesis
    by (simp add: doPartition_def i st ok_parts split: sum.splits)
qed

lemma ok_Do:
  assumes "engine_ok e"
  shows "engine_ok (snd (Do env t ip nid action e))"
proof (cases "e_nodes e nid")
  case (Some name)
  obtain r e1 where a: "allowDisrupt t ip e = (r, e1)" by fastforce
  have "engine_ok e1" using ok_quiet(9) [of t ip e] a assms by simp
  moreover have "e_nodes e1 nid = Some name"
    using confined_allow [of _ e t ip] a Some by (auto simp: confined_def)
  ultimately show ?thesis
    using Some assms by (auto simp: Do_def bindE_def a ok_kill ok_doRestart ok_doPartition
        split: Action.splits sum.splits)
qed (simp add: Do_def assms)

lemma ok_resetNode:
  assumes "engine_ok (snd st)"
  shows "engine_ok (snd (resetNode env st n))"
proof -
  obtain errs e where s: "st = (errs, e)" by fastforce
  obtain r e1 where i: "engine_inspect env n (cancelHeal (fst n) e) = (r, e1)" by fastforce
  obtain u e2 where st: "engine_start env (snd n) e1 = (u, e2)" by fastforce
  have "engine_ok e1" "engine_ok e2"
    using ok_result(1) [OF i ok_cancelHeal] ok_result(2) [OF st] assms s by simp_all
  then show ?thesis
    by (simp add: resetNode_def s i st split: sum.splits)
qed

lemma ok_ResetAll:
  assumes "engine_ok e"
  shows "engine_ok (snd (ResetAll env t e))"
proof -
  have "engine_ok (snd s) \<Longrightarrow> engine_ok (snd (foldl (resetNode env) s ns))" for s ns
    by (induction ns arbitrary: s) (simp_all add: ok_resetNode)
  from this [of "([], e)" "Nodes e"] show ?thesis
    using assms by (cases "foldl (resetNode env) ([], e) (Nodes e)") (simp add: ResetAll_def ok_parts)
qed

lemma ok_buildSnapshot:
  assumes "engine_ok e"
  shows "engine_ok (snd (buildSnapshot env t e))"
proof -
  obtain r e1 where l: "dockE (docker_containers (cp_daemon env)) e = (r, e1)" by fastforce
  have ok1: "engine_ok e1" by (rule ok_result(4) [OF l assms])
  then have "noteQuorum t q e1 = (x, f) \<Longrightarrow> engine_ok f" for q x f
    using ok_quiet(7) [of t q e1] by simp
  then show ?thesis
    by (auto simp: buildSnapshot_def engine_List_def l Let_def split: prod.splits)
qed

lemma ok_refresh: "engine_ok e \<Longrightarrow> engine_ok (snd (engine_refresh env t e))"
  using ok_buildSnapshot [of e env t] by (auto simp: engine_refresh_def split: sum.splits prod.splits)

lemma ok_snapshot: "engine_ok e \<Longrightarrow> engine_ok (snd (engine_snapshot env t e))"
  by (auto simp: engine_snapshot_def ok_refresh split: option.splits)

lemma ok_auditOnce: "engine_ok e \<Longrightarrow> engine_ok (auditOnce env t e)"
  using ok_snapshot [of e env t] by (auto simp: auditOnce_def split: option.splits prod.splits)

lemma ok_chaosOnce:
  assumes "engine_ok e"
  shows "engine_ok (chaosOnce env t pick e)"
proof -
  obtain v e1 where s: "engine_refresh env t e = (v, e1)" by fastforce
  have ok1: "engine_ok e1" using ok_refresh [OF assms, of env t] s by simp
  then have "kill env t nid killSourceChaos e1 = (r, e2) \<Longrightarrow> engine_ok e2" for nid r e2
    using ok_kill [of e1 env t nid killSourceChaos] by simp
  with ok1 show ?thesis
    by (auto simp: chaosOnce_def s Let_def ok_parts split: prod.splits sum.splits)
qed

lemma ok_Close: "engine_ok e \<Longrightarrow> engine_ok (engine_Close ids e)"
  using ok_foldl [of "\<lambda>e nid. cancelHeal nid e" e ids]
  by (auto simp: engine_Close_def Let_def ok_cancelHeal split: option.splits prod.splits)

lemma estep_ok: "estep env e e' \<Longrightarrow> engine_ok e \<Longrightarrow> engine_ok e'"
  by (erule estep_cases)
     (simp_all add: ok_Do ok_ResetAll ok_reconcileOnce ok_auditOnce ok_chaosOnce ok_runHeal ok_healDone
       ok_snapshot ok_buildSnapshot ok_Close ok_disk)

lemma eruns_ok: "eruns env e e' \<Longrightarrow> engine_ok e \<Longrightarrow> engine_ok e'"
  by (induction rule: rtranclp_induct) (auto intro: estep_ok)

text \<open>
  C14. The engine's state is well formed at every moment of every run from \<^verbatim>\<open>NewEngine\<close>: the
  whitelist has positive identifiers and non-empty names without the refused characters, the
  delays are positive, the ring never holds more than 64 events, and every heal job registered is
  that of a whitelisted machine, of a known kind, not cancelled, and the only one on its timer.
\<close>

theorem engine_well_formed:
  assumes "NewEngine cfg t d w = (Inr e, w')" and "eruns env e e'"
  shows "engine_ok e'"
  using eruns_ok [OF assms(2) NewEngine_ok [OF assms(1)]] .

end
