(* ===== verification/EngineExample.thy ===== *)
theory EngineExample
  imports EngineWf
begin

text \<open>
  A concrete Docker daemon with three containers, an engine over it, and the control plane's
  properties at concrete inputs. The daemon keeps for every container whether it runs and its
  networks, and answers the requests of \<open>DockerApi\<close> as the real one does; it fulfils the contract
  \<open>dockerd\<close>.
\<close>

section \<open>A daemon\<close>

type_synonym hosts = "string \<Rightarrow> bool \<times> string list"

definition boxes :: "string list" where
  "boxes = [''a'', ''b'', ''c'']"

definition stateWord :: "bool \<Rightarrow> string" where
  "stateWord r = (if r then ''running'' else ''exited'')"

definition hostState :: "hosts \<Rightarrow> string \<rightharpoonup> containerState" where
  "hostState h n =
     (if n \<in> set boxes
      then Some \<lparr>cs_Running = fst (h n), cs_Status = stateWord (fst (h n)), cs_Networks = sort (snd (h n))\<rparr>
      else None)"

definition blankBody :: httpBody where
  "blankBody = \<lparr>rawText = [], decodeError = [], asMessage = None, asList = None, asInspect = None\<rparr>"

definition netOf :: "httpReq \<Rightarrow> string" where
  "netOf q = unescape (take (length (urlPath q) - 18) (drop 10 (urlPath q)))"

definition boxAnswer :: "httpReq \<Rightarrow> hosts \<Rightarrow> string \<Rightarrow> (httpReply \<times> hosts) option" where
  "boxAnswer q h n =
     (if q = inspectReq n
      then Some (Reply 200 (blankBody\<lparr>asInspect :=
             Some \<lparr>ib_Running = fst (h n), ib_Status = stateWord (fst (h n)), ib_Networks = snd (h n)\<rparr>\<rparr>), h)
      else if q = startReq n then Some (Reply 204 blankBody, h(n := (True, snd (h n))))
      else if q = stopReq n 1 then Some (Reply 204 blankBody, h(n := (False, snd (h n))))
      else if q = connectReq (netOf q) n then Some (Reply 200 blankBody, h(n := (fst (h n), netOf q # snd (h n))))
      else if q = disconnectReq ''net'' n
      then Some (Reply 200 blankBody, h(n := (fst (h n), removeAll ''net'' (snd (h n)))))
      else None)"

definition hostList :: "hosts \<Rightarrow> listEntry list" where
  "hostList h = map (\<lambda>n. \<lparr>le_Names = [CHR ''/'' # n], le_State = stateWord (fst (h n)), le_Networks = snd (h n)\<rparr>) boxes"

fun firstAnswer :: "httpReq \<Rightarrow> hosts \<Rightarrow> string list \<Rightarrow> httpReply \<times> hosts" where
  "firstAnswer q h [] = (Reply 404 blankBody, h)"
| "firstAnswer q h (n # ns) = (case boxAnswer q h n of Some r \<Rightarrow> r | None \<Rightarrow> firstAnswer q h ns)"

definition dockerHost :: "hosts daemon" where
  "dockerHost q h =
     (if q = listReq then (Reply 200 (blankBody\<lparr>asList := Some (hostList h)\<rparr>), h) else firstAnswer q h boxes)"

lemma netOf_connect [simp]: "netOf (connectReq net n) = net"
  by (simp add: netOf_def connectReq_def)

text \<open>Which container a request is about decides who answers it.\<close>

definition about :: "httpReq \<Rightarrow> string \<Rightarrow> bool" where
  "about q n \<longleftrightarrow> (\<exists>net. q \<in> {inspectReq n, startReq n, stopReq n 1, connectReq net n, disconnectReq net n})"

lemma about_unique: "about q m \<Longrightarrow> about q n \<Longrightarrow> m = n"
  by (auto simp: about_def inspectReq_def stopReq_def startReq_def connectReq_def disconnectReq_def
      dest: first_segment)

lemma not_about_list: "\<not> about listReq n"
  by (auto simp: about_def listReq_def inspectReq_def stopReq_def startReq_def connectReq_def disconnectReq_def
      dest!: arg_cong [of _ _ length])

lemma boxAnswer_about: "boxAnswer q h n = Some r \<Longrightarrow> about q n"
  by (auto simp: boxAnswer_def about_def split: if_splits)

lemma dockerHost_answers:
  assumes "about q n" and "n \<in> set boxes" and "boxAnswer q h n = Some r"
  shows "dockerHost q h = r"
proof -
  have other: "boxAnswer q h m = None" if "m \<noteq> n" for m
    using boxAnswer_about [of q h m] about_unique [OF assms(1)] that by (cases "boxAnswer q h m") auto
  have "q \<noteq> listReq" using assms(1) not_about_list by auto
  then show ?thesis
    using assms(2,3) other by (auto simp: dockerHost_def boxes_def)
qed

lemma req_distinct [simp]:
  "startReq n \<noteq> inspectReq n" "stopReq n 1 \<noteq> inspectReq n" "stopReq n (Suc 0) \<noteq> inspectReq n"
  "stopReq n 1 \<noteq> startReq n" "stopReq n (Suc 0) \<noteq> startReq n"
  "connectReq net n \<noteq> inspectReq n" "connectReq net n \<noteq> startReq n" "connectReq net n \<noteq> stopReq n k"
  by (simp_all add: inspectReq_def startReq_def stopReq_def connectReq_def)

lemma list_hosts: "listStates (hostList h) = hostState h"
  by (auto simp: listStates_def hostList_def hostState_def boxes_def trimPrefix_def listState_def stateWord_def
      networkNames_def fun_eq_iff)

lemma hostState_upd:
  "n \<in> set boxes \<Longrightarrow> hostState (h(n := x)) =
     (hostState h)(n \<mapsto> \<lparr>cs_Running = fst x, cs_Status = stateWord (fst x), cs_Networks = sort (snd x)\<rparr>)"
  by (auto simp: hostState_def fun_eq_iff)

lemma dockerHost_dockerd: "dockerd dockerHost hostState"
proof -
  have box: "n \<in> set boxes \<and> cs = \<lparr>cs_Running = fst (h n), cs_Status = stateWord (fst (h n)), cs_Networks = sort (snd (h n))\<rparr>"
    if "hostState h n = Some cs" for h n cs
    using that by (auto simp: hostState_def split: if_splits)
  have a: "about (inspectReq n) n" "about (startReq n) n" "about (stopReq n 1) n" "about (connectReq net n) n" for n net
    by (auto simp: about_def)
  have ans: "dockerHost (inspectReq n) h = the (boxAnswer (inspectReq n) h n)"
    "dockerHost (startReq n) h = the (boxAnswer (startReq n) h n)"
    "dockerHost (stopReq n 1) h = the (boxAnswer (stopReq n 1) h n)"
    "dockerHost (connectReq net n) h = the (boxAnswer (connectReq net n) h n)" if "n \<in> set boxes" for n h net
    using that by (auto intro!: dockerHost_answers a a(3) [unfolded One_nat_def] simp: boxAnswer_def)
  have "reports dockerHost hostState"
    unfolding reports_def
  proof (intro conjI allI impI)
    show "\<exists>b l. fst (dockerHost listReq h) = Reply 200 b \<and> asList b = Some l \<and> listStates l = hostState h \<and>
        hostState (snd (dockerHost listReq h)) = hostState h" for h
      by (simp add: dockerHost_def list_hosts)
  next
    fix h n cs assume "hostState h n = Some cs"
    from box [OF this] have n: "n \<in> set boxes"
      and cs: "cs = \<lparr>cs_Running = fst (h n), cs_Status = stateWord (fst (h n)), cs_Networks = sort (snd (h n))\<rparr>"
      by simp_all
    show "\<exists>b i. fst (dockerHost (inspectReq n) h) = Reply 200 b \<and> asInspect b = Some i \<and> inspectState i = cs \<and>
        hostState (snd (dockerHost (inspectReq n) h)) = hostState h"
      unfolding ans(1) [OF n] cs by (simp add: boxAnswer_def inspectState_def networkNames_def)
  qed
  moreover have "obeys dockerHost hostState"
    unfolding obeys_def
  proof (intro conjI allI impI)
    fix h n cs assume "hostState h n = Some cs"
    from box [OF this] have n: "n \<in> set boxes"
      and cs: "cs = \<lparr>cs_Running = fst (h n), cs_Status = stateWord (fst (h n)), cs_Networks = sort (snd (h n))\<rparr>"
      by simp_all
    show "\<exists>b. fst (dockerHost (startReq n) h) \<in> {Reply 204 b, Reply 304 b}"
      "\<exists>b. fst (dockerHost (stopReq n 1) h) \<in> {Reply 204 b, Reply 304 b}"
      unfolding ans(2,3) [OF n] by (simp_all add: boxAnswer_def)
    show "\<exists>w. hostState (snd (dockerHost (startReq n) h)) =
        (hostState h)(n \<mapsto> cs\<lparr>cs_Running := True, cs_Status := w\<rparr>)"
      "\<exists>w. hostState (snd (dockerHost (stopReq n 1) h)) =
        (hostState h)(n \<mapsto> cs\<lparr>cs_Running := False, cs_Status := w\<rparr>)"
      unfolding ans(2,3) [OF n] cs by (auto simp: boxAnswer_def hostState_upd [OF n])
  qed
  moreover have "connects dockerHost hostState"
    unfolding connects_def
  proof (intro conjI allI impI)
    fix h net n cs assume "hostState h n = Some cs"
    from box [OF this] have n: "n \<in> set boxes"
      and cs: "cs = \<lparr>cs_Running = fst (h n), cs_Status = stateWord (fst (h n)), cs_Networks = sort (snd (h n))\<rparr>"
      by simp_all
    show "\<exists>code b. fst (dockerHost (connectReq net n) h) = Reply code b \<and>
        (code = 200 \<or> contains ''already'' (toLower (daemonMessage b)))"
      unfolding ans(4) [OF n] by (simp add: boxAnswer_def)
    show "\<exists>ns. set ns = insert net (set (cs_Networks cs)) \<and>
        hostState (snd (dockerHost (connectReq net n) h)) = (hostState h)(n \<mapsto> cs\<lparr>cs_Networks := ns\<rparr>)"
      unfolding ans(4) [OF n] cs
      by (rule exI [of _ "sort (net # snd (h n))"]) (simp add: boxAnswer_def hostState_upd [OF n] set_insort_key)
  qed
  ultimately show ?thesis by (simp add: dockerd_def)
qed

section \<open>An engine\<close>

definition hostEnv :: "hosts cpenv" where
  "hostEnv = \<lparr>cp_daemon = dockerHost, cp_marshal = oneByte, cp_marshalSnap = (\<lambda>_. Some []),
     cp_probe = (\<lambda>_ _. None)\<rparr>"

definition threeNodes :: Config_cp where
  "threeNodes = \<lparr>cfg_Nodes = [(1, ''a''), (2, ''b''), (3, ''c'')], cfg_Network = ''net'', cfg_IPCooldown = 0,
     cfg_HealAfter = 0, cfg_Rates = Some (NewRateCache []), cfg_AuditPath = []\<rparr>"

definition allUp :: hosts where
  "allUp n = (True, [''net''])"

definition engine3 :: "hosts Engine" where
  "engine3 = \<lparr>dock = allUp, e_network = ''net'', e_nodes = [1 \<mapsto> ''a'', 2 \<mapsto> ''b'', 3 \<mapsto> ''c''],
     e_startedAt = Some 0, e_rates = Some (NewRateCache []), e_ipCooldown = 2 * second, e_ipLast = Map.empty,
     e_healAfter = 10 * second, e_heals = Map.empty, e_cancelled = [], e_nextJob = 0,
     e_events = [], e_eventCap = 64, e_viewers = 0, e_snap = None, e_snapAt = None, e_snapGen = 0,
     e_refreshing = False, e_audit = None, e_disk = emptyDisk, e_auditPath = [], e_chaosInterval = 0,
     e_lastChaos = (0, 0), e_lastVisitorKill = None, e_sawQuorum = False, e_lastHadQuorum = False,
     e_lastQuorumLossAt = None\<rparr>"

lemma engine3_new: "NewEngine threeNodes 0 allUp emptyDisk = (Inr engine3, emptyDisk)"
  by (simp add: NewEngine_def threeNodes_def openAuditLog_def containsAny_def unsafeChars_def engine3_def
      second_def)

lemma hostEnv_dockerd: "dockerd (cp_daemon hostEnv) hostState"
  by (simp add: hostEnv_def dockerHost_dockerd)

lemma engine3_fields [simp]:
  "e_nodes engine3 = [1 \<mapsto> ''a'', 2 \<mapsto> ''b'', 3 \<mapsto> ''c'']" "e_network engine3 = ''net''" "dock engine3 = allUp"
  "e_heals engine3 = Map.empty" "e_rates engine3 = Some (NewRateCache [])" "e_ipCooldown engine3 = 2 * second"
  "e_ipLast engine3 = Map.empty" "e_snap engine3 = None"
  by (simp_all add: engine3_def)

lemma allUp_state [simp]:
  "hostState allUp ''a'' = Some \<lparr>cs_Running = True, cs_Status = ''running'', cs_Networks = [''net'']\<rparr>"
  by (simp add: hostState_def boxes_def allUp_def stateWord_def)

lemma Nodes_engine3: "Nodes engine3 = [(1, ''a''), (2, ''b''), (3, ''c'')]"
proof -
  have "[1..<65] = [1, 2, 3] @ [4..<65::nat]" by (simp add: upt_conv_Cons)
  moreover have "List.map_filter (\<lambda>nid. map_option (Pair nid) (e_nodes engine3 nid)) [4..<65] = []"
    by (auto simp: List.map_filter_def filter_empty_conv)
  ultimately show ?thesis
    by (simp add: Nodes_def List.map_filter_def)
qed

section \<open>Witnesses\<close>

definition killed1 :: "hosts Engine" where
  "killed1 = snd (Do hostEnv 0 ''ip'' 1 ActionKill engine3)"

theorem engine_well_formed_witness: "engine_ok killed1"
proof -
  have "estep hostEnv engine3 killed1" unfolding killed1_def by (rule estep.action)
  then have "eruns hostEnv engine3 killed1" by (rule r_into_rtranclp)
  from engine_well_formed [OF engine3_new this] show ?thesis .
qed

definition oneDown :: "hosts Engine" where
  "oneDown = engine3\<lparr>dock := allUp(''a'' := (False, []))\<rparr>"

lemma oneDown_fields:
  "e_nodes oneDown = [1 \<mapsto> ''a'', 2 \<mapsto> ''b'', 3 \<mapsto> ''c'']" "e_network oneDown = ''net''"
  "e_heals oneDown = Map.empty" "e_ipLast oneDown = Map.empty"
  by (simp_all add: oneDown_def)

lemma oneDown_state: "hostState (dock oneDown) ''a'' = Some \<lparr>cs_Running = False, cs_Status = ''exited'', cs_Networks = []\<rparr>"
  by (simp add: oneDown_def hostState_def boxes_def stateWord_def)

theorem reconcile_repairs_witness:
  "\<not> upAt ''net'' (hostState (dock oneDown)) ''a'' \<and>
   upAt ''net'' (hostState (dock (reconcileOnce hostEnv 0 oneDown))) ''a''"
  using reconcile_repairs [OF hostEnv_dockerd, of 1 oneDown "''a''" 0] oneDown_state
  by (simp add: oneDown_fields) (simp add: upAt_def good_def)

theorem kill_seen_by_next_view_witness:
  "\<exists>st\<in>set (sn_Nodes (fst (fst (engine_snapshot hostEnv 1 (snd (kill hostEnv 0 1 killSourceVisitor engine3)))))).
     st_ID st = 1 \<and> \<not> st_Running st \<and> st_HealKind st = ''start''"
  using kill_seen_by_next_view [OF hostEnv_dockerd, of 1 engine3 "''a''" 0 killSourceVisitor 1] by simp

theorem old_heal_drops_new_job_witness:
  "let e1 = snd (kill hostEnv 0 1 killSourceVisitor (runHeal hostEnv 0 1 ''start'' True engine3)); e2 = healDone 1 e1
   in healPending 1 e1 \<and> \<not> healPending 1 e2 \<and> \<not> upAt ''net'' (hostState (dock e2)) ''a'' \<and>
      upAt ''net'' (hostState (dock (reconcileOnce hostEnv 5 e2))) ''a''"
  using old_heal_drops_new_job [OF hostEnv_dockerd, where nid = 1 and e = engine3 and name = "''a''" and t = 0 and
      src = killSourceVisitor and kind = "''start''" and au = True and t' = 5, OF _ _ _ _ refl refl]
  by (simp add: Let_def)

theorem rejected_partition_cancels_heal_witness:
  "fst (Do hostEnv 0 ''ip'' 1 ActionPartition oneDown) = Inl ''controlplane: machine 1 is not running'' \<and>
   \<not> healPending 1 (snd (Do hostEnv 0 ''ip'' 1 ActionPartition oneDown)) \<and>
   upAt ''net'' (hostState (dock (reconcileOnce hostEnv 5
     (snd (Do hostEnv 0 ''ip'' 1 ActionPartition oneDown))))) ''a''"
proof -
  have "fst (allowDisrupt 0 ''ip'' oneDown) = Inr ()" by (simp add: allowDisrupt_def oneDown_fields)
  moreover have "showNat 1 = ''1''" by (simp add: showNat.simps digit_def digits_def)
  ultimately show ?thesis
    using rejected_partition_cancels_heal [OF hostEnv_dockerd, of 1 oneDown "''a''" _ 0 "''ip''" 5] oneDown_state
    by (simp add: oneDown_fields)
qed

theorem chaos_keeps_quorum_witness: "majorityUp hostState (chaosOnce hostEnv 0 7 engine3)"
proof (rule chaos_keeps_quorum [OF hostEnv_dockerd])
  show "majorityUp hostState engine3"
    by (simp add: majorityUp_def Nodes_engine3 upCount_def upAt_def hostState_def boxes_def allUp_def good_def)
qed (simp_all add: unfresh_def Nodes_engine3)

theorem monkey_blocked_without_prometheus_witness:
  "chaosOnce hostEnv 0 7 engine3 = snd (engine_refresh hostEnv 0 engine3)"
  by (rule monkey_blocked_without_prometheus [where qs = "[]"]) (simp_all add: unfresh_def)

theorem cooldown_spaces_kills_witness:
  "admitted [(0, ''ip''), (second, ''ip''), (3 * second, ''ip'')] engine3 = [(0, ''ip''), (3 * second, ''ip'')] \<and>
   3 * second - 0 \<ge> 2 * second"
proof -
  have a: "admitted [(0, ''ip''), (second, ''ip''), (3 * second, ''ip'')] engine3 = [(0, ''ip''), (3 * second, ''ip'')]"
    by (simp add: allowDisrupt_def ipKey_def second_def Let_def)
  have "e_ipCooldown engine3 \<ge> 0" by (simp add: second_def)
  from cooldown_spaces_kills [OF this, of "[(0, ''ip''), (second, ''ip''), (3 * second, ''ip'')]"] a show ?thesis
    by simp
qed

end
