(* ===== verification/CpApi.thy ===== *)
theory CpApi
  imports EngineExample
begin

text \<open>
  The HTTP API of the control plane (\<^verbatim>\<open>internal/controlplane/api.go\<close>): CORS, routing, the
  handlers, and the client address that the cooldown counts. A request carries what the handlers
  read of it, with its path already cleaned by Go's \<^verbatim>\<open>ServeMux\<close>; a response is a status, the
  allowed origin and a body. Whether a log line is valid JSON is a parameter, since the encoder
  refuses to emit an invalid raw message.
\<close>

section \<open>Requests and responses\<close>

record apiReq =
  rq_Method :: string
  rq_Path :: string
  rq_XFF :: string
  rq_Origin :: string
  rq_RemoteAddr :: string
  rq_Limit :: string

datatype apiBody =
    NoBody
  | TextBody string
  | RawJson bytes
  | ActionDone nat string
  | ResetDone
  | AuditEntries "bytes list"
  | IndexPage
  | EventStream

type_synonym apiResp = "nat \<times> apiBody"

record Server_cp =
  sv_allowReset :: bool
  sv_cors :: "string list"

definition NewServer :: "bool \<Rightarrow> string \<Rightarrow> Server_cp" where
  "NewServer reset corsOrigins =
     \<lparr>sv_allowReset = reset,
      sv_cors = filter (\<lambda>x. x \<noteq> []) (map trimSpace (split (CHR '','') corsOrigins))\<rparr>"

text \<open>The value of \<^verbatim>\<open>Access-Control-Allow-Origin\<close>, if the header is set.\<close>

definition applyCORS :: "Server_cp \<Rightarrow> apiReq \<Rightarrow> string option" where
  "applyCORS s r =
     (if list_ex (\<lambda>allowed. rq_Origin r = allowed \<or> allowed = ''*'') (sv_cors s) then Some (rq_Origin r) else None)"

section \<open>The client's address\<close>

text \<open>\<^verbatim>\<open>net.SplitHostPort\<close>, as far as the host goes; \<^term>\<open>None\<close> is an error.\<close>

definition lastColon :: "string \<Rightarrow> (string \<times> string) option" where
  "lastColon s = (case cut (CHR '':'') (rev s) of None \<Rightarrow> None | Some (p, h) \<Rightarrow> Some (rev h, rev p))"

definition splitHost :: "string \<Rightarrow> string option" where
  "splitHost s =
     (case lastColon s of
        None \<Rightarrow> None
      | Some (host, port) \<Rightarrow>
          (case host of
             c # inner \<Rightarrow>
               (if c = CHR ''['' then
                  (case cut (CHR '']'') inner of
                     Some (h, rest) \<Rightarrow>
                       (if rest = [] \<and> CHR ''['' \<notin> set h \<and> \<not> containsAny port ''[]'' then Some h else None)
                   | None \<Rightarrow> None)
                else if CHR '':'' \<in> set host \<or> containsAny s ''[]'' then None
                else Some host)
           | [] \<Rightarrow> (if containsAny s ''[]'' then None else Some [])))"

definition clientIP :: "apiReq \<Rightarrow> string" where
  "clientIP r =
     (if rq_XFF r \<noteq> [] then trimSpace (hd (split (CHR '','') (rq_XFF r)))
      else case splitHost (rq_RemoteAddr r) of None \<Rightarrow> rq_RemoteAddr r | Some host \<Rightarrow> host)"

section \<open>Handlers\<close>

definition notAllowed :: apiResp where
  "notAllowed = (405, TextBody ''method not allowed'')"

definition handleHealth :: "apiReq \<Rightarrow> apiResp" where
  "handleHealth r = (if rq_Method r \<noteq> ''GET'' then notAllowed else (200, TextBody ''ok''))"

definition handleList :: "'d cpenv \<Rightarrow> int \<Rightarrow> apiReq \<Rightarrow> 'd Engine \<Rightarrow> apiResp \<times> 'd Engine" where
  "handleList env t r e =
     (if rq_Method r \<noteq> ''GET'' then (notAllowed, e)
      else case engine_snapshot env t e of
             ((_, Some data), e') \<Rightarrow> ((200, RawJson data), e')
           | ((_, None), e') \<Rightarrow> ((500, TextBody ''snapshot unavailable''), e'))"

text \<open>A stream: its start, one tick with the frame it sends, and its end.\<close>

definition streamOpen :: "apiReq \<Rightarrow> bool \<Rightarrow> 'd Engine \<Rightarrow> apiResp \<times> 'd Engine" where
  "streamOpen r canFlush e =
     (if rq_Method r \<noteq> ''GET'' then (notAllowed, e)
      else if \<not> canFlush then ((500, TextBody ''streaming unsupported''), e)
      else ((200, EventStream), AddViewer e))"

definition streamTick :: "'d cpenv \<Rightarrow> int \<Rightarrow> 'd Engine \<Rightarrow> bytes option \<times> 'd Engine" where
  "streamTick env t e =
     (case engine_snapshot env t e of ((_, data), e') \<Rightarrow>
        (map_option (\<lambda>d. map of_char ''data: '' @ d @ [newline, newline]) data, e'))"

definition streamClose :: "'d Engine \<Rightarrow> 'd Engine" where
  "streamClose e = RemoveViewer e"

definition handleReset :: "Server_cp \<Rightarrow> 'd cpenv \<Rightarrow> int \<Rightarrow> apiReq \<Rightarrow> 'd Engine \<Rightarrow> apiResp \<times> 'd Engine" where
  "handleReset s env t r e =
     (if rq_Method r \<noteq> ''POST'' then (notAllowed, e)
      else if \<not> sv_allowReset s then ((403, TextBody ''reset disabled on public control plane''), e)
      else case ResetAll env t e of
             (Inl m, e') \<Rightarrow> ((400, TextBody m), e')
           | (Inr _, e') \<Rightarrow> ((200, ResetDone), e'))"

definition parseAction :: "string \<Rightarrow> Action option" where
  "parseAction a =
     (if a = ''kill'' then Some ActionKill
      else if a = ''restart'' then Some ActionRestart
      else if a = ''partition'' then Some ActionPartition
      else None)"

definition errorCode :: "string \<Rightarrow> nat" where
  "errorCode m = (if contains ''rate limit'' m \<or> contains ''cooldown'' m then 429 else 400)"

definition handleNodeAction :: "'d cpenv \<Rightarrow> int \<Rightarrow> apiReq \<Rightarrow> 'd Engine \<Rightarrow> apiResp \<times> 'd Engine" where
  "handleNodeAction env t r e =
     (if rq_Method r \<noteq> ''POST'' then (notAllowed, e)
      else case split (CHR ''/'') (trimPrefix ''/api/nodes/'' (rq_Path r)) of
        [idText, name] \<Rightarrow>
          (case parseUint idText of
             None \<Rightarrow> ((400, TextBody ''invalid node id''), e)
           | Some nid \<Rightarrow>
               (if nid = 0 then ((400, TextBody ''invalid node id''), e)
                else case parseAction name of
                  None \<Rightarrow> ((400, TextBody ''unknown action (want kill|restart|partition)''), e)
                | Some action \<Rightarrow>
                    (case Do env t (clientIP r) nid action e of
                       (Inl m, e') \<Rightarrow> ((errorCode m, TextBody m), e')
                     | (Inr _, e') \<Rightarrow> ((200, ActionDone nid name), e'))))
      | _ \<Rightarrow> ((400, TextBody ''expected /api/nodes/{id}/{kill|restart|partition}''), e))"

definition handleIndex :: "apiReq \<Rightarrow> apiResp" where
  "handleIndex r = (if rq_Path r \<noteq> ''/'' then (404, TextBody ''404 page not found'') else (200, IndexPage))"

definition auditLimit :: "string \<Rightarrow> nat" where
  "auditLimit v =
     (let limit = (if v = [] then 200
                   else case atoi v of Some n \<Rightarrow> (if n > 0 then nat n else 200) | None \<Rightarrow> 200)
      in if limit > 1000 then 1000 else limit)"

text \<open>\<^verbatim>\<open>writeJSON\<close> of raw lines: one invalid line and the encoder writes nothing at all.\<close>

definition writeLines :: "(bytes \<Rightarrow> bool) \<Rightarrow> bytes list \<Rightarrow> apiBody" where
  "writeLines valid ls = (if list_all valid ls then AuditEntries ls else NoBody)"

definition handleAudit :: "(bytes \<Rightarrow> bool) \<Rightarrow> apiReq \<Rightarrow> 'd Engine \<Rightarrow> apiResp \<times> 'd Engine" where
  "handleAudit valid r e =
     (if rq_Method r \<noteq> ''GET'' then (notAllowed, e)
      else if e_auditPath e = [] then ((404, TextBody ''audit log disabled''), e)
      else case tailAudit (e_auditPath e) (auditLimit (rq_Limit r)) (e_disk e) of
             (Inl TailNotExist, w) \<Rightarrow> ((200, AuditEntries []), e\<lparr>e_disk := w\<rparr>)
           | (Inl _, w) \<Rightarrow> ((500, TextBody ''audit log unreadable''), e\<lparr>e_disk := w\<rparr>)
           | (Inr ls, w) \<Rightarrow> ((200, writeLines valid ls), e\<lparr>e_disk := w\<rparr>))"

text \<open>\<^verbatim>\<open>Handler\<close> with the routes of \<^verbatim>\<open>NewServer\<close>; a stream is only opened here.\<close>

definition Handler ::
  "(bytes \<Rightarrow> bool) \<Rightarrow> Server_cp \<Rightarrow> 'd cpenv \<Rightarrow> int \<Rightarrow> apiReq \<Rightarrow> 'd Engine \<Rightarrow> (apiResp \<times> string option) \<times> 'd Engine" where
  "Handler valid s env t r e =
     (let cors = applyCORS s r;
          path = rq_Path r;
          (resp, e') =
            (if rq_Method r = ''OPTIONS'' then ((204, NoBody), e)
             else if path = ''/healthz'' then (handleHealth r, e)
             else if path = ''/api/nodes'' then handleList env t r e
             else if take 11 path = ''/api/nodes/'' then handleNodeAction env t r e
             else if path = ''/api/stream'' then streamOpen r True e
             else if path = ''/api/reset'' then handleReset s env t r e
             else if path = ''/api/audit'' then handleAudit valid r e
             else (handleIndex r, e))
      in ((resp, cors), e'))"

section \<open>What a request can do\<close>

lemma auditLimit_range: "auditLimit v \<le> 1000" "auditLimit v > 0"
  by (auto simp: auditLimit_def Let_def split: option.splits)

text \<open>A request is a run of the engine: every handler stays within the engine's steps.\<close>

lemma Handler_runs: "eruns env e (snd (Handler valid s env t r e))"
proof -
  have list: "eruns env e (snd (handleList env t r e))"
    using estep.view [of env e t] by (auto simp: handleList_def split: prod.splits option.splits)
  have act: "eruns env e (snd (handleNodeAction env t r e))"
    using estep.action [of env e t "clientIP r"]
    by (auto simp: handleNodeAction_def split: list.splits option.splits prod.splits sum.splits)
       (metis r_into_rtranclp snd_conv)+
  have reset: "eruns env e (snd (handleReset s env t r e))"
    using estep.reset [of env e t] by (auto simp: handleReset_def split: prod.splits sum.splits)
  have audit: "eruns env e (snd (handleAudit valid r e))"
    using estep.audit_read [of env e]
    by (auto simp: handleAudit_def split: prod.splits sum.splits tailError.splits)
  have stream: "eruns env e (snd (streamOpen r b e))" for b
    using estep.viewer [of env e] by (auto simp: streamOpen_def)
  show ?thesis
    using list act reset audit stream by (simp add: Handler_def Let_def split_beta)
qed

lemma digits_no_slash: "CHR ''/'' \<notin> set (showNat n)"
  using showNat_digits [of n] by (auto simp: digits_def)

text \<open>
  The action routes: a POST on the path made of a positive 64-bit identifier and the name of
  an action runs exactly that action for the client's address and answers 200 when it succeeds;
  when it fails it answers with the engine's text and 429 for the cooldown; and the state is the
  one the action left.
\<close>

theorem action_route:
  assumes "rq_Method r = ''POST''" and "rq_Path r = ''/api/nodes/'' @ showNat nid @ ''/'' @ name"
    and "0 < nid" and "nid < 2 ^ 64" and "parseAction name = Some action"
  shows "Handler valid s env t r e =
    (case Do env t (clientIP r) nid action e of
       (Inl m, e') \<Rightarrow> (((errorCode m, TextBody m), applyCORS s r), e')
     | (Inr _, e') \<Rightarrow> (((200, ActionDone nid name), applyCORS s r), e'))"
proof -
  have n: "CHR ''/'' \<notin> set name"
    using assms(5) by (auto simp: parseAction_def split: if_splits)
  have "split (CHR ''/'') (showNat nid @ CHR ''/'' # name) = [showNat nid, name]"
    using split_append_sep [OF digits_no_slash, of nid name] split_plain [OF n] by simp
  then have parts: "split (CHR ''/'') (trimPrefix ''/api/nodes/'' (rq_Path r)) = [showNat nid, name]"
    by (simp add: assms(2) trimPrefix_def)
  have h: "handleNodeAction env t r e =
      (case Do env t (clientIP r) nid action e of
         (Inl m, e') \<Rightarrow> ((errorCode m, TextBody m), e') | (Inr _, e') \<Rightarrow> ((200, ActionDone nid name), e'))"
    using assms(1,3-5) by (simp add: handleNodeAction_def parts)
  have "Handler valid s env t r e =
      ((fst (handleNodeAction env t r e), applyCORS s r), snd (handleNodeAction env t r e))"
    using assms(1,2) by (simp add: Handler_def Let_def split_beta)
  then show ?thesis by (simp add: h split: prod.splits sum.splits)
qed

theorem action_route_witness:
  "Handler (\<lambda>_. True) (NewServer False []) hostEnv 0
     \<lparr>rq_Method = ''POST'', rq_Path = ''/api/nodes/1/kill'', rq_XFF = ''ip'', rq_Origin = [],
      rq_RemoteAddr = [], rq_Limit = []\<rparr> engine3 =
   (((200, ActionDone 1 ''kill''), None), killed1)"
proof -
  let ?r = "\<lparr>rq_Method = ''POST'', rq_Path = ''/api/nodes/1/kill'', rq_XFF = ''ip'', rq_Origin = [],
    rq_RemoteAddr = [], rq_Limit = []\<rparr>"
  have ip: "clientIP ?r = ''ip''" by (simp add: clientIP_def trimSpace_def isSpace_def)
  have s: "showNat 1 = ''1''" by (simp add: showNat.simps digit_def digits_def)
  obtain u where d: "Do hostEnv 0 ''ip'' 1 ActionKill engine3 = (Inr u, killed1)"
  proof -
    from kill_stops [OF hostEnv_dockerd, of "noteVisitorKill 0 (engine3\<lparr>e_ipLast := [''ip'' \<mapsto> 0]\<rparr>)" 1 "''a''"]
    have "fst (Do hostEnv 0 ''ip'' 1 ActionKill engine3) = Inr ()"
      by (simp add: Do_def bindE_def allowDisrupt_def noteVisitorKill_def) (metis fst_conv)
    then show ?thesis using that by (simp add: killed1_def prod_eq_iff)
  qed
  have c: "applyCORS (NewServer False []) ?r = None"
    by (simp add: applyCORS_def NewServer_def trimSpace_def)
  show ?thesis
    by (subst action_route [where nid = 1 and name = "''kill''" and action = ActionKill])
       (simp_all add: ip s d c parseAction_def del: One_nat_def)
qed

section \<open>A torn audit line\<close>

lemma lastLines_snoc: "limit > 0 \<Longrightarrow> x \<in> set (lastLines limit (ls @ [x]))"
  by (auto simp: lastLines_def)

text \<open>
  One short write to the audit log silences its endpoint. When a write of an entry stops
  after \<open>k\<close> bytes, the fragment stays at the end of the file; the reader returns it as a line, the
  encoder refuses it because it is not JSON, and the endpoint answers 200 with an empty body
  although the file holds all the earlier entries.
\<close>

theorem torn_line_silences_audit:
  assumes "logged a w ls" and "list_all cleanLine ls"
    and "enc entry = Some b" and "cleanLine b" and "0 < k" and "k \<le> length b" and "\<not> valid (take k b)"
    and "rq_Method r = ''GET''" and "e_auditPath e = al_path a"
    and "e_disk e = snd (audit_write enc entry (a, w\<lparr>faults := [Fail k]\<rparr>))"
  shows "fst (handleAudit valid r e) = (200, NoBody)"
proof -
  obtain f where f: "al_f a = Some f" "dirents w (al_path a) = Some f" "contents w f = joinLines ls" "al_path a \<noteq> []"
    using assms(1) by (auto simp: logged_def split: option.splits)
  let ?w = "e_disk e"
  have w: "faults ?w = []" "dirents ?w (al_path a) = Some f" "contents ?w f = joinLines ls @ take k b"
    unfolding assms(10) using f assms(3,6)
    by (simp_all add: audit_write_def f_Write_def next_fault_def tick_def set_inode_def contents_def Let_def)
  have t: "take k b \<noteq> []" "newline \<notin> set (take k b)"
    using assms(4-6) in_set_takeD [of newline k b] by (auto simp: cleanLine_def)
  have read: "fst (tailAudit (al_path a) limit ?w) = Inr (lastLines limit (ls @ [take k b]))" for limit
    using w f(4) auditLines_torn_tail [OF assms(2) t]
    by (simp add: tailAudit_def os_ReadFile_def os_Open_def next_fault_def tick_def bindE_def)
  have "\<not> list_all valid (lastLines (auditLimit (rq_Limit r)) (ls @ [take k b]))"
    using lastLines_snoc [OF auditLimit_range(2), of "take k b" "rq_Limit r" ls] assms(7)
    unfolding list_all_iff by blast
  then show ?thesis
    using read [of "auditLimit (rq_Limit r)"] assms(8,9) f(4)
    by (cases "tailAudit (al_path a) (auditLimit (rq_Limit r)) ?w") (simp add: handleAudit_def writeLines_def)
qed

definition twoBytes :: marshal where
  "twoBytes entry = Some [123, 125]"

definition tornEngine :: "hosts Engine" where
  "tornEngine = engine3\<lparr>e_auditPath := ''log'', e_disk :=
     snd (audit_write twoBytes (plainEntry 0 ''kill'' []) (fst newLog, (snd newLog)\<lparr>faults := [Fail 1]\<rparr>))\<rparr>"

theorem torn_line_silences_audit_witness:
  "fst (handleAudit (\<lambda>l. l = [123, 125]) \<lparr>rq_Method = ''GET'', rq_Path = ''/api/audit'', rq_XFF = [], rq_Origin = [],
     rq_RemoteAddr = [], rq_Limit = []\<rparr> tornEngine) = (200, NoBody)"
  by (rule torn_line_silences_audit [OF newLog_logged(1), where enc = twoBytes and b = "[123, 125]" and k = 1 and
        entry = "plainEntry 0 ''kill'' []"])
     (simp_all add: twoBytes_def cleanLine_def newline_def tornEngine_def newLog_logged(2))

end
