(* ===== verification/ControlProgram.thy ===== *)
theory ControlProgram
  imports Programs CpApi
begin

text \<open>
  The control plane as a program (\<^verbatim>\<open>cmd/controlplane/main.go\<close>): its configuration from the
  environment, the engine and the server it starts, and its runs, in which HTTP requests are
  served between the steps of its own goroutines.
\<close>

section \<open>Starting\<close>

datatype controlError = BadNodes peerError | BadHealAfter | BadChaosInterval | BadEngine configError

definition controlConfig :: "parseDuration \<Rightarrow> environ \<Rightarrow> controlError + (Config_cp \<times> int)" where
  "controlConfig pd os =
     (case parseNodes (env os ''CONTROL_NODES'' defaultNodes) of
        Inl err \<Rightarrow> Inl (BadNodes err)
      | Inr nodes \<Rightarrow>
          (case pd (env os ''HEAL_AFTER'' ''10s'') of
             None \<Rightarrow> Inl BadHealAfter
           | Some healAfter \<Rightarrow>
               (case pd (env os ''CHAOS_INTERVAL'' ''0'') of
                  None \<Rightarrow> Inl BadChaosInterval
                | Some chaosInterval \<Rightarrow>
                    Inr (\<lparr>cfg_Nodes = nodes, cfg_Network = env os ''CONTROL_NETWORK'' ''kmc_kmc'',
                          cfg_IPCooldown = 2 * second, cfg_HealAfter = healAfter,
                          cfg_Rates = Some (NewRateCache (env os ''PROMETHEUS_URL'' [])),
                          cfg_AuditPath = env os ''AUDIT_PATH'' ''/audit/events.jsonl''\<rparr>, chaosInterval))))"

definition controlServer :: "environ \<Rightarrow> Server_cp" where
  "controlServer os =
     NewServer (equalFold (env os ''ALLOW_RESET'' ''false'') ''true'') (env os ''CORS_ORIGINS'' [])"

definition controlStart ::
  "parseDuration \<Rightarrow> environ \<Rightarrow> int \<Rightarrow> 'd \<Rightarrow> world \<Rightarrow> (controlError + 'd Engine) \<times> world" where
  "controlStart pd os t d w =
     (case controlConfig pd os of
        Inl err \<Rightarrow> (Inl err, w)
      | Inr (cfg, chaosInterval) \<Rightarrow>
          (case NewEngine cfg t d w of
             (Inl err, w') \<Rightarrow> (Inl (BadEngine err), w')
           | (Inr e, w') \<Rightarrow> (Inr (StartChaos chaosInterval e), w')))"

section \<open>Running\<close>

inductive cpstep :: "(bytes \<Rightarrow> bool) \<Rightarrow> Server_cp \<Rightarrow> 'd cpenv \<Rightarrow> 'd Engine \<Rightarrow> 'd Engine \<Rightarrow> bool" for valid s ev where
  request: "cpstep valid s ev e (snd (Handler valid s ev t r e))"
| stream_tick: "cpstep valid s ev e (snd (streamTick ev t e))"
| stream_close: "cpstep valid s ev e (streamClose e)"
| internal: "estep ev e e' \<Longrightarrow> cpstep valid s ev e e'"

inductive_cases cpstep_cases: "cpstep valid s ev e e'"

lemma stream_runs: "eruns ev e (snd (streamTick ev t e))" "eruns ev e (streamClose e)"
  using estep.view [of ev e t] estep.viewer_gone [of ev e]
  by (auto simp: streamTick_def streamClose_def split: prod.splits)

lemma cpstep_eruns: "cpstep valid s ev e e' \<Longrightarrow> eruns ev e e'"
  by (erule cpstep_cases) (simp_all add: Handler_runs stream_runs r_into_rtranclp)

lemma cpruns_eruns: "(cpstep valid s ev)\<^sup>*\<^sup>* e e' \<Longrightarrow> eruns ev e e'"
  by (induction rule: rtranclp_induct) (auto dest: cpstep_eruns)

lemma whitelist_names:
  "whitelist ns m = Inr nodes \<Longrightarrow> ran nodes \<subseteq> ran m \<union> snd ` set ns"
proof (induction ns m rule: whitelist.induct)
  case (2 nid name ns m)
  then have "ran nodes \<subseteq> ran (m(nid \<mapsto> name)) \<union> snd ` set ns"
    by (simp del: fun_upd_apply split: if_splits)
  moreover have "ran (m(nid \<mapsto> name)) \<subseteq> insert name (ran m)" by (auto simp: ran_def)
  ultimately show ?case by auto
qed simp

lemma controlStart_cases:
  assumes "controlStart pd os t d w = (Inr e, w')"
  obtains cfg ci e0 where "controlConfig pd os = Inr (cfg, ci)" and "NewEngine cfg t d w = (Inr e0, w')"
    and "e = StartChaos ci e0"
  using assms by (auto simp: controlStart_def split: sum.splits prod.splits)

lemma NewEngine_names: "NewEngine cfg t d w = (Inr e, w') \<Longrightarrow> ran (e_nodes e) \<subseteq> snd ` set (cfg_Nodes cfg)"
  using whitelist_names [of "cfg_Nodes cfg" Map.empty]
  by (auto simp: NewEngine_def split: if_splits sum.splits prod.splits)

lemma controlConfig_nodes:
  "controlConfig pd os = Inr (cfg, ci) \<Longrightarrow> parseNodes (env os ''CONTROL_NODES'' defaultNodes) = Inr (cfg_Nodes cfg)"
  by (auto simp: controlConfig_def split: sum.splits option.splits)

text \<open>
  C9. The control plane touches the containers of its configuration only. In every run of the
  program, whatever HTTP requests come in, whatever the reconciler, the chaos monkey, the streams and
  the heal timers do in between, and whatever the Docker daemon answers, the daemon ends in the state
  that some sequence of requests leads to, none of which is about a container that
  \<^verbatim>\<open>CONTROL_NODES\<close> does not name.
\<close>

theorem only_configured_containers:
  assumes "controlStart pd os t d w = (Inr e, w')" and "(cpstep valid s ev)\<^sup>*\<^sup>* e e'"
    and "parseNodes (env os ''CONTROL_NODES'' defaultNodes) = Inr ns" and "name \<notin> snd ` set ns"
  shows "\<exists>qs. dock e' = served (cp_daemon ev) qs (dock e) \<and>
    set qs \<subseteq> allowedReqs (e_network e) (e_nodes e) \<and> set qs \<inter> nodeReqs (e_network e) name = {}"
proof -
  from controlStart_cases [OF assms(1)] obtain cfg ci e0 where
    c: "controlConfig pd os = Inr (cfg, ci)" "NewEngine cfg t d w = (Inr e0, w')" "e = StartChaos ci e0" .
  have "ran (e_nodes e) \<subseteq> snd ` set ns"
    using NewEngine_names [OF c(2)] controlConfig_nodes [OF c(1)] assms(3) c(3) by (simp add: StartChaos_def)
  then have "name \<notin> ran (e_nodes e)" using assms(4) by blast
  with only_whitelisted_containers [OF cpruns_eruns [OF assms(2)]] show ?thesis by blast
qed

text \<open>A configuration of three nodes, and the request that kills the first.\<close>

definition demoOs :: environ where
  "demoOs k = (if k = ''CONTROL_NODES'' then ''1=a, 2=b,3=c'' else [])"

definition demoDurations :: parseDuration where
  "demoDurations s = (if s = ''10s'' then Some (10 * second) else if s = ''0'' then Some 0 else None)"

definition killRequest :: apiReq where
  "killRequest = \<lparr>rq_Method = ''POST'', rq_Path = ''/api/nodes/1/kill'', rq_XFF = ''ip'', rq_Origin = [],
     rq_RemoteAddr = [], rq_Limit = []\<rparr>"

lemma demoNodes: "parseNodes (env demoOs ''CONTROL_NODES'' defaultNodes) = Inr [(1, ''a''), (2, ''b''), (3, ''c'')]"
  by (simp add: env_def demoOs_def parseNodes_def parsePart_def trimSpace_def isSpace_def parseUint_def
      digitVal_def digits_def)

lemma demoStart: "\<exists>e w'. controlStart demoDurations demoOs t d w = (Inr e, w')"
  using demoNodes
  by (simp add: controlStart_def controlConfig_def env_def demoOs_def demoDurations_def NewEngine_def
      unsafeChars_def containsAny_def split_beta)

theorem only_configured_containers_witness:
  "\<exists>e w' qs. controlStart demoDurations demoOs 0 allUp emptyDisk = (Inr e, w') \<and>
     dock (snd (Handler (\<lambda>_. True) (controlServer demoOs) hostEnv 1 killRequest e)) = served dockerHost qs (dock e) \<and>
     set qs \<inter> nodeReqs (e_network e) ''postgres'' = {}"
proof -
  obtain e w' where s: "controlStart demoDurations demoOs 0 allUp emptyDisk = (Inr e, w')"
    using demoStart [of 0 allUp emptyDisk] by (elim exE)
  have r: "(cpstep (\<lambda>_. True) (controlServer demoOs) hostEnv)\<^sup>*\<^sup>* e
      (snd (Handler (\<lambda>_. True) (controlServer demoOs) hostEnv 1 killRequest e))"
    using cpstep.request by (rule r_into_rtranclp)
  show ?thesis
    using only_configured_containers [OF s r demoNodes, of "''postgres''"] s by (auto simp: hostEnv_def)
qed

end
