(* ===== verification/Spec2Isabelle.thy ===== *)
theory Spec2Isabelle
  imports Store KvSystem KvClient Batching Transport Metrics ControlProgram
begin

text \<open>
  A verification development for kill-my-cluster, a replicated key-value store in Go whose nodes
  visitors may kill. File names below are relative to \<^verbatim>\<open>src/internal\<close> unless they start with
  \<^verbatim>\<open>cmd\<close>.

  \<^bold>\<open>The program.\<close> Every node of the store runs the Raft protocol (\<^verbatim>\<open>raft\<close>) over a log on disk and
  applies the committed commands to its key-value machine (\<^verbatim>\<open>kv\<close>). Clients call any node over
  gRPC and are led to the leader. \<^verbatim>\<open>storage\<close> is the write-ahead log that the Raft persister writes
  its records with, and a durable store of its own on top of it. The control plane
  (\<^verbatim>\<open>controlplane\<close>) stops, starts, disconnects and heals the containers of the nodes through the
  Docker daemon, on HTTP requests, on its own (the chaos monkey) and to repair (the reconciler), and
  keeps an audit log. \<^verbatim>\<open>cmd\<close> holds the programs: the node, the load generator and the control plane.

  \<^bold>\<open>Conventions.\<close> A Go method is a function on the record of its receiver, which it returns updated; a
  result with an error is \<open>error + result\<close>, with \<open>Inl\<close> the error. A critical section under a mutex is
  one step. The clock, random choices, the library codecs (gob, protobuf, JSON), the Docker daemon, the
  Prometheus server and the gRPC library are arguments of the definitions that use them. Byte
  strings are lists of 8-bit words on disk and \<open>string\<close> in the control plane. Request numbers of the
  key-value machine and the lengths in record headers keep their width and wrap; Raft indexes and
  terms are naturals.

  \<^bold>\<open>Storage.\<close> \<open>Prelude\<close> has the shared lemmas on lists, words and errors, \<open>Crc32\<close> the checksum and
  \<open>Files\<close> a file system in which every call may fail and a crash keeps what was synced and an
  arbitrary part of the rest. \<open>CmdRecord\<close> is \<^verbatim>\<open>storage/record.go\<close>, \<open>Wal\<close> is \<^verbatim>\<open>storage/wal.go\<close>, \<open>Install\<close>
  the write-rename-sync sequence of \<^verbatim>\<open>storage/snapshot.go\<close> and \<^verbatim>\<open>raft/persist.go\<close>, \<open>Store\<close> is
  \<^verbatim>\<open>storage/store.go\<close> with snapshots. Shown: codecs are inverse, replay stops at a torn tail, and after
  any history of calls, faults and crashes the store recovers every acknowledged write in order.

  \<^bold>\<open>Raft.\<close> \<open>RaftLog\<close> is \<^verbatim>\<open>raft/log.go\<close>, \<open>Persist\<close> \<^verbatim>\<open>raft/persist.go\<close>, \<open>Node\<close> \<^verbatim>\<open>raft/node.go\<close>,
  \<open>Replicate\<close> \<^verbatim>\<open>raft/replicate.go\<close> and the critical sections of \<^verbatim>\<open>raft/batch.go\<close>, \<open>Batching\<close> its goroutines,
  \<open>Transport\<close> the connection cache of \<^verbatim>\<open>raft/transport.go\<close>, \<open>Metrics\<close> the gauges and counters of
  \<^verbatim>\<open>metrics\<close>. \<open>NodeProofs\<close>, \<open>AppendProofs\<close> and \<open>InSync\<close>
  show what one node promises: a granted vote and an acknowledged append survive a crash.
  \<open>RaftSpec\<close> is the abstract protocol with its safety proof. \<open>Cluster\<close> puts the nodes' own functions
  into a cluster with a network that loses, repeats and delays messages and with crashes at any
  moment; \<open>ClusterSim\<close>, \<open>ClusterSteps\<close> and \<open>ClusterRefines\<close> show that every run of it is a run of the
  abstract protocol, \<open>ClusterExample\<close> has a concrete run, and \<open>ClusterSafety\<close> states what follows: one
  leader per term, agreement on committed entries, matching logs, no loss by a crash, and an applier
  that never panics. Runs of the cluster are followed up to the first compaction of a log; snapshots of
  a single node (\<open>nodeSnapshot\<close>, \<open>HandleInstallSnapshot\<close>) are modelled outside of them.

  \<^bold>\<open>Key-value service.\<close> \<open>KvCommand\<close> is \<^verbatim>\<open>kv/command.go\<close>, \<open>KvMachine\<close> \<^verbatim>\<open>kv/machine.go\<close>, \<open>KvCluster\<close>
  \<^verbatim>\<open>kv/cluster.go\<close>, \<open>KvClient\<close> \<^verbatim>\<open>kv/grpc.go\<close> and \<^verbatim>\<open>kv/client.go\<close>. \<open>KvSessions\<close> shows that the machine with its
  bounded table of results behaves as a service that runs every request once, for clients that stay
  within its window of 128 requests. \<open>KvSystem\<close> joins the Raft cluster with the machines and shows
  that replicas never diverge. A client's call runs over the list of its walks over the
  peers, \<open>None\<close> when the list ends first; 33 walks are always enough, because a wait follows each and
  the deadline is eight seconds away.

  \<^bold>\<open>Control plane.\<close> \<open>GoText\<close> has the functions of Go's standard library on text that the control plane
  uses. \<open>DockerApi\<close> is \<^verbatim>\<open>controlplane/docker.go\<close>, \<open>CpState\<close> the view and \<^verbatim>\<open>controlplane/prom.go\<close> (rates
  are rationals, with the infinities and NaN), \<open>AuditLog\<close> \<^verbatim>\<open>controlplane/audit.go\<close> over \<open>Files\<close>, \<open>Engine\<close>
  \<^verbatim>\<open>controlplane/engine.go\<close> and \<^verbatim>\<open>chaos.go\<close>, \<open>CpApi\<close> \<^verbatim>\<open>controlplane/api.go\<close>. The daemon is a function from a
  request and its state to a reply and a new state. \<open>EngineSafety\<close> has the steps of the engine's
  goroutines and shows, for any daemon, that only whitelisted requests reach it. \<open>EngineHeal\<close> and
  \<open>ChaosSafety\<close> assume a daemon that does what it is asked (\<open>dockerd\<close>, fulfilled by the concrete daemon of
  \<open>EngineExample\<close>): the reconciler repairs, a kill is seen by the next view, the monkey keeps a
  majority. \<open>EngineWf\<close> shows that the engine's state is well formed in every run.
  \<open>Programs\<close> has the configuration of the node (\<^verbatim>\<open>cmd/node\<close>), its traffic agent and the load
  generator with its rate controller (\<^verbatim>\<open>cmd/loadgen\<close>); \<open>ControlProgram\<close> starts the control plane
  from its environment (\<^verbatim>\<open>cmd/controlplane\<close>) and lets requests and goroutines interleave.

  \<^bold>\<open>Behaviour that differs from what the code says it does\<close> is stated as theorems as well, each at the
  theory of its component: a vote freed by a failed write, an append acknowledged after a failed write,
  a lease read that misses a committed write, a proposer that is answered with another command's
  result, a log tail of zeros that stops recovery, a log file whose directory entry is not synced,
  an outage reported as a stall, a heal job dropped by an older one, a chaos monkey that an absent
  Prometheus blocks, and a restarted traffic agent whose writes are taken for retries.

  \<^bold>\<open>Not modelled.\<close> The scheduling of goroutines below critical sections, mutexes and condition
  variables; sockets, HTTP and gRPC servers (\<^verbatim>\<open>kv/transport.go\<close>, the server half of \<^verbatim>\<open>raft/transport.go\<close>,
  which forwards calls to the handlers); the registration of series with the Prometheus client library and
  the histograms of durations (\<^verbatim>\<open>metrics/metrics.go\<close>); generated protobuf code; the embedded page
  (\<^verbatim>\<open>controlplane/ui.go\<close>); the demo programs \<^verbatim>\<open>cmd/kvdemo\<close>, \<^verbatim>\<open>cmd/raftdemo\<close>, \<^verbatim>\<open>cmd/storagedemo\<close> and
  \<^verbatim>\<open>cmd/metricsdemo\<close>, which call the modelled packages and print; log output and signal handling.
  These parts hold no state of the system's own, or only call libraries that are not part of it.
\<close>

end
